(* ===== verification/Prelude.thy ===== *)
theory Prelude
  imports Main "HOL-Library.Word" "HOL-Library.AList" "HOL-Library.Sublist"
begin

text \<open>
  Shared vocabulary of the development: the machine integers, byte strings, clocks and
  error codes of the Rust sources, the parts of the standard library they call
  (big-endian integer codecs, checked and saturating addition, hash maps), and the
  generic lemmas that the component theories share.

  \<^item> An \<open>Instant\<close> is a number of nanoseconds on the monotonic clock, a \<open>Duration\<close> a number
    of nanoseconds; \<open>duration_since\<close> saturates at zero, which is subtraction on \<open>nat\<close>.
  \<^item> A \<open>Uuid\<close> is its 128-bit value.
  \<^item> A \<open>HashMap\<close> is an association list with distinct keys: \<open>len\<close> is its length, and no
    definition depends on the order of its entries.
  \<^item> A \<open>Result<T, ErrorCode>\<close> is \<open>error_code + 'a\<close>.
\<close>

named_theorems rust_std
named_theorems wf_intros

section \<open>Types\<close>

type_synonym u8 = "8 word"
type_synonym u16 = "16 word"
type_synonym u32 = "32 word"
type_synonym u64 = "64 word"
type_synonym uuid = "128 word"
type_synonym instant = nat
type_synonym duration = nat
type_synonym bytes = "u8 list"

text \<open>\<open>ErrorCode\<close> of \<open>rc-core/src/error.rs\<close>.\<close>

datatype error_code =
    Unauthenticated
  | Forbidden
  | DeviceRevoked
  | LeaseRequired
  | LeaseStale
  | LeaseBusy
  | SessionGenerationMismatch
  | HostRestarted
  | SessionLost
  | InputDeliveryUnknown
  | DuplicateInput
  | InputCanceled
  | FrameTooLarge
  | RateLimited
  | ResyncRequired
  | PreviewNotApproved
  | UpstreamChanged
  | CaptureUnsupported
  | SourceStale
  | DesktopLocked
  | ElevationRequired
  | MediaUnavailable
  | OriginRejected
  | InvalidRequest
  | Internal

type_synonym 'a result = "error_code + 'a"

abbreviation Err :: "'e \<Rightarrow> 'e + 'a" where
  "Err \<equiv> Inl"

abbreviation Ok :: "'a \<Rightarrow> 'e + 'a" where
  "Ok \<equiv> Inr"

abbreviation is_ok :: "'e + 'a \<Rightarrow> bool" where
  "is_ok r \<equiv> \<not> isl r"

section \<open>Clock arithmetic\<close>

definition secs :: "nat \<Rightarrow> duration" where
  "secs n = n * 1000000000"

definition millis :: "nat \<Rightarrow> duration" where
  "millis n = n * 1000000"

definition as_millis :: "duration \<Rightarrow> nat" where
  "as_millis d = d div 1000000"

definition as_micros :: "duration \<Rightarrow> nat" where
  "as_micros d = d div 1000"

definition duration_since :: "instant \<Rightarrow> instant \<Rightarrow> duration" where
  "duration_since now earlier = now - earlier"

section \<open>Integer arithmetic of the standard library\<close>

definition checked_add_u64 :: "u64 \<Rightarrow> u64 \<Rightarrow> u64 option" where
  "checked_add_u64 a b = (if unat a + unat b < 2 ^ 64 then Some (a + b) else None)"

definition saturating_add_u64 :: "u64 \<Rightarrow> u64 \<Rightarrow> u64" where
  "saturating_add_u64 a b = (if unat a + unat b < 2 ^ 64 then a + b else 0xFFFFFFFFFFFFFFFF)"

definition saturating_sub_u64 :: "u64 \<Rightarrow> u64 \<Rightarrow> u64" where
  "saturating_sub_u64 a b = (if b \<le> a then a - b else 0)"

text \<open>Big-endian byte codecs (\<open>to_be_bytes\<close>, \<open>from_be_bytes\<close>, \<open>put_u16\<close>, \<open>put_u32\<close>, \<open>put_u64\<close>).\<close>

fun be_bytes :: "nat \<Rightarrow> nat \<Rightarrow> bytes" where
  "be_bytes 0 v = []"
| "be_bytes (Suc n) v = be_bytes n (v div 256) @ [of_nat (v mod 256)]"

definition be_val :: "bytes \<Rightarrow> nat" where
  "be_val bs = foldl (\<lambda>a b. a * 256 + unat b) 0 bs"

section \<open>Hash maps\<close>

type_synonym ('k, 'v) hmap = "('k \<times> 'v) list"

definition hm_wf :: "('k, 'v) hmap \<Rightarrow> bool" where
  "hm_wf m \<longleftrightarrow> distinct (map fst m)"

abbreviation hm_get :: "('k, 'v) hmap \<Rightarrow> 'k \<Rightarrow> 'v option" where
  "hm_get m k \<equiv> map_of m k"

definition hm_insert :: "'k \<Rightarrow> 'v \<Rightarrow> ('k, 'v) hmap \<Rightarrow> ('k, 'v) hmap" where
  "hm_insert k v m = AList.update k v m"

definition hm_remove :: "'k \<Rightarrow> ('k, 'v) hmap \<Rightarrow> ('k, 'v) hmap" where
  "hm_remove k m = filter (\<lambda>e. fst e \<noteq> k) m"

definition hm_retain :: "('k \<Rightarrow> 'v \<Rightarrow> bool) \<Rightarrow> ('k, 'v) hmap \<Rightarrow> ('k, 'v) hmap" where
  "hm_retain P m = filter (\<lambda>e. P (fst e) (snd e)) m"

definition hm_map :: "('v \<Rightarrow> 'v) \<Rightarrow> ('k, 'v) hmap \<Rightarrow> ('k, 'v) hmap" where
  "hm_map f m = map (\<lambda>e. (fst e, f (snd e))) m"

abbreviation hm_len :: "('k, 'v) hmap \<Rightarrow> nat" where
  "hm_len m \<equiv> length m"

abbreviation hm_contains :: "('k, 'v) hmap \<Rightarrow> 'k \<Rightarrow> bool" where
  "hm_contains m k \<equiv> hm_get m k \<noteq> None"

section \<open>Lemmas: clocks and integers\<close>

lemma secs_pos [simp]: "0 < secs n \<longleftrightarrow> 0 < n"
  by (simp add: secs_def)

lemma checked_add_u64_Some [rust_std]:
  "checked_add_u64 a b = Some c \<longleftrightarrow> unat a + unat b < 2 ^ 64 \<and> c = a + b"
  by (auto simp: checked_add_u64_def)

lemma unat_add_u64: "unat (a::u64) + unat b < 2 ^ 64 \<Longrightarrow> unat (a + b) = unat a + unat b"
  by (simp add: unat_word_ariths)

lemma checked_add_u64_unat:
  "checked_add_u64 a b = Some c \<Longrightarrow> unat c = unat a + unat b"
  by (simp add: checked_add_u64_Some unat_add_u64)

lemma unat_saturating_add_u64 [rust_std]:
  "unat (saturating_add_u64 a b) = min (unat a + unat b) (2 ^ 64 - 1)"
proof (cases "unat a + unat b < 2 ^ 64")
  case True
  then show ?thesis by (simp add: saturating_add_u64_def unat_add_u64)
next
  case False
  then show ?thesis by (simp add: saturating_add_u64_def)
qed

lemma unat_u64_lt [simp]: "unat (x::u64) < 18446744073709551616"
  using unsigned_less [of x] by simp

lemma u64_at_max: "\<not> unat (x::u64) < 18446744073709551615 \<Longrightarrow> unat x = 18446744073709551615"
  using unat_u64_lt [of x] by linarith

lemma unat_u8_lt [simp]: "unat (x::u8) < 256"
  using unsigned_less [of x] by simp

section \<open>Lemmas: big-endian codecs\<close>

lemma length_be_bytes [simp]: "length (be_bytes n v) = n"
  by (induction n arbitrary: v) auto

lemma be_val_Nil [simp]: "be_val [] = 0"
  by (simp add: be_val_def)

lemma be_val_snoc [simp]: "be_val (bs @ [b]) = be_val bs * 256 + unat b"
  by (simp add: be_val_def)

lemma be_val_be_bytes: "be_val (be_bytes n v) = v mod 256 ^ n"
proof (induction n arbitrary: v)
  case 0
  then show ?case by simp
next
  case (Suc n)
  have "unat (of_nat (v mod 256) :: u8) = v mod 256"
    by (simp add: unat_of_nat)
  with Suc have "be_val (be_bytes (Suc n) v) = (v div 256) mod 256 ^ n * 256 + v mod 256"
    by simp
  also have "\<dots> = v mod (256 * 256 ^ n)"
    by (simp add: mod_mult2_eq mult.commute)
  finally show ?case by simp
qed

lemma be_val_less: "be_val bs < 256 ^ length bs"
proof (induction bs rule: rev_induct)
  case Nil
  then show ?case by simp
next
  case (snoc b bs)
  have "unat b < 256" by simp
  with snoc have "be_val bs * 256 + unat b < (be_val bs + 1) * 256" by simp
  also have "\<dots> \<le> 256 ^ length bs * 256" using snoc by (intro mult_right_mono) auto
  finally show ?case by (simp add: mult.commute)
qed

lemma be_bytes_be_val: "be_bytes (length bs) (be_val bs) = bs"
proof (induction bs rule: rev_induct)
  case Nil
  then show ?case by simp
next
  case (snoc b bs)
  have "(be_val bs * 256 + unat b) div 256 = be_val bs"
    using unat_u8_lt [of b] by simp
  moreover have "(be_val bs * 256 + unat b) mod 256 = unat b"
    using unat_u8_lt [of b] by simp
  ultimately show ?case using snoc by simp
qed

lemma be_bytes_of_len: "length bs = n \<Longrightarrow> be_bytes n (be_val bs) = bs"
  using be_bytes_be_val [of bs] by simp

section \<open>Lemmas: hash maps\<close>

lemma hm_get_insert [simp]: "hm_get (hm_insert k v m) k' = (if k' = k then Some v else hm_get m k')"
  by (simp add: hm_insert_def update_conv)

lemma hm_get_remove [simp]: "hm_get (hm_remove k m) k' = (if k' = k then None else hm_get m k')"
  by (induction m) (auto simp: hm_remove_def)

lemma fst_retain_subset: "set (map fst (hm_retain P m)) \<subseteq> set (map fst m)"
  by (auto simp: hm_retain_def)

lemma hm_get_retain:
  assumes "hm_wf m"
  shows "hm_get (hm_retain P m) k =
    (case hm_get m k of None \<Rightarrow> None | Some v \<Rightarrow> if P k v then Some v else None)"
  using assms
proof (induction m)
  case Nil
  then show ?case by (simp add: hm_retain_def)
next
  case (Cons e m)
  obtain a b where e: "e = (a, b)" by (cases e)
  with Cons.prems have wf: "hm_wf m" and fresh: "hm_get m a = None"
    by (auto simp: hm_wf_def map_of_eq_None_iff)
  from Cons.IH [OF wf] fresh show ?case
    by (auto simp: hm_retain_def e split: option.splits)
qed

lemma hm_get_retain_Some:
  "hm_wf m \<Longrightarrow> hm_get (hm_retain P m) k = Some v \<longleftrightarrow> hm_get m k = Some v \<and> P k v"
  by (auto simp: hm_get_retain split: option.splits)

lemma hm_get_map [simp]: "hm_get (hm_map f m) k = map_option f (hm_get m k)"
  by (induction m) (auto simp: hm_map_def)

lemma hm_wf_empty [simp, wf_intros]: "hm_wf []"
  by (simp add: hm_wf_def)

lemma hm_wf_insert [simp, wf_intros]: "hm_wf m \<Longrightarrow> hm_wf (hm_insert k v m)"
  by (simp add: hm_wf_def hm_insert_def distinct_update)

lemma hm_wf_remove [simp, wf_intros]: "hm_wf m \<Longrightarrow> hm_wf (hm_remove k m)"
  by (simp add: hm_wf_def hm_remove_def distinct_map_filter)

lemma hm_wf_retain [simp, wf_intros]: "hm_wf m \<Longrightarrow> hm_wf (hm_retain P m)"
  by (simp add: hm_wf_def hm_retain_def distinct_map_filter)

lemma hm_wf_map [simp, wf_intros]: "hm_wf (hm_map f m) = hm_wf m"
  by (simp add: hm_wf_def hm_map_def comp_def)

lemma hm_len_retain [simp]: "hm_len (hm_retain P m) \<le> hm_len m"
  by (simp add: hm_retain_def)

lemma hm_len_remove [simp]: "hm_len (hm_remove k m) \<le> hm_len m"
  by (simp add: hm_remove_def)

lemma hm_len_map [simp]: "hm_len (hm_map f m) = hm_len m"
  by (simp add: hm_map_def)

lemma hm_len_insert: "hm_len (hm_insert k v m) = (if hm_contains m k then hm_len m else Suc (hm_len m))"
  unfolding hm_insert_def
  by (induction m) (auto split: if_splits)

lemma hm_len_insert_le: "hm_len (hm_insert k v m) \<le> Suc (hm_len m)"
  by (simp add: hm_len_insert)

lemma hm_get_in_set: "hm_get m k = Some v \<Longrightarrow> (k, v) \<in> set m"
  by (rule map_of_SomeD)

lemma hm_in_set_get: "hm_wf m \<Longrightarrow> (k, v) \<in> set m \<longleftrightarrow> hm_get m k = Some v"
  by (auto simp: hm_wf_def)

lemma hm_set_insert: "e \<in> set (hm_insert k v m) \<Longrightarrow> e = (k, v) \<or> e \<in> set m"
  unfolding hm_insert_def
  by (induction m) (auto split: if_splits)

section \<open>The hash-map contract\<close>

text \<open>
  What the components rely on when they keep a table: the laws of lookup after each
  operation. The table lemmas of the clients (single use of a ticket, expiry) are proved
  once from this contract.
\<close>

locale table =
  fixes get :: "'m \<Rightarrow> 'k \<Rightarrow> 'v option"
    and insert :: "'k \<Rightarrow> 'v \<Rightarrow> 'm \<Rightarrow> 'm"
    and remove :: "'k \<Rightarrow> 'm \<Rightarrow> 'm"
    and retain :: "('k \<Rightarrow> 'v \<Rightarrow> bool) \<Rightarrow> 'm \<Rightarrow> 'm"
    and wf :: "'m \<Rightarrow> bool"
  assumes get_insert: "get (insert k v m) k' = (if k' = k then Some v else get m k')"
    and get_remove: "get (remove k m) k' = (if k' = k then None else get m k')"
    and get_retain: "wf m \<Longrightarrow> get (retain P m) k =
      (case get m k of None \<Rightarrow> None | Some v \<Rightarrow> if P k v then Some v else None)"
    and wf_insert: "wf m \<Longrightarrow> wf (insert k v m)"
    and wf_remove: "wf m \<Longrightarrow> wf (remove k m)"
    and wf_retain: "wf m \<Longrightarrow> wf (retain P m)"
begin

text \<open>A removed key stays absent until it is inserted again, whatever else is retained or removed.\<close>

inductive quiet :: "'k \<Rightarrow> 'm \<Rightarrow> 'm \<Rightarrow> bool" where
  quiet_refl: "quiet k m m"
| quiet_insert: "quiet k m m' \<Longrightarrow> k' \<noteq> k \<Longrightarrow> quiet k m (insert k' v m')"
| quiet_remove: "quiet k m m' \<Longrightarrow> quiet k m (remove k' m')"
| quiet_retain: "quiet k m m' \<Longrightarrow> quiet k m (retain P m')"

lemma quiet_wf: "quiet k m m' \<Longrightarrow> wf m \<Longrightarrow> wf m'"
  by (induction rule: quiet.induct) (auto simp: wf_insert wf_remove wf_retain)

lemma quiet_absent: "quiet k m m' \<Longrightarrow> wf m \<Longrightarrow> get m k = None \<Longrightarrow> get m' k = None"
proof (induction rule: quiet.induct)
  case (quiet_retain k m m' P)
  then show ?case by (simp add: get_retain quiet_wf)
qed (simp_all add: get_insert get_remove)

lemma single_use: "wf m \<Longrightarrow> quiet k (remove k m) m' \<Longrightarrow> get m' k = None"
  using quiet_absent [of k "remove k m" m'] by (simp add: get_remove wf_remove)

lemma retain_Some: "wf m \<Longrightarrow> get (retain P m) k = Some v \<longleftrightarrow> get m k = Some v \<and> P k v"
  by (auto simp: get_retain split: option.splits)

end

interpretation hm: table map_of hm_insert hm_remove hm_retain hm_wf
  by unfold_locales (auto simp: hm_get_retain)

end
