(* ===== verification/Frame_Codec.thy ===== *)
theory Frame_Codec
  imports Prelude
begin

text \<open>
  The binary terminal protocol of \<open>rc-core/src/frame.rs\<close>: a 40-byte header
  (magic, version, kind, two reserved bytes, session id, generation, sequence, payload
  length) and a payload of at most 32 KiB; a message is a concatenation of frames of at
  most 256 KiB. Integers are big-endian. The theorem of the theory is that
  \<open>decode_all\<close> accepts exactly the concatenations of encodings and returns the frames
  that were encoded.
\<close>

section \<open>Model\<close>

definition HEADER_LEN :: nat where "HEADER_LEN = 40"
definition MAX_PAYLOAD :: nat where "MAX_PAYLOAD = 32 * 1024"
definition MAX_MESSAGE :: nat where "MAX_MESSAGE = 256 * 1024"

definition OUTPUT :: u8 where "OUTPUT = 1"
definition RESIZE :: u8 where "RESIZE = 2"
definition SNAPSHOT_META :: u8 where "SNAPSHOT_META = 3"
definition SNAPSHOT_CHUNK :: u8 where "SNAPSHOT_CHUNK = 4"
definition SNAPSHOT_END :: u8 where "SNAPSHOT_END = 5"
definition EXIT :: u8 where "EXIT = 6"

record frame =
  kind :: u8
  session_id :: uuid
  generation :: u32
  sequence :: u64
  payload :: bytes

text \<open>The magic bytes \<open>b"RCTM"\<close>.\<close>

definition MAGIC :: bytes where "MAGIC = [0x52, 0x43, 0x54, 0x4D]"

definition kind_ok :: "u8 \<Rightarrow> bool" where
  "kind_ok k \<longleftrightarrow> 1 \<le> k \<and> k \<le> 6"

definition header :: "frame \<Rightarrow> bytes" where
  "header f = MAGIC @ [1, kind f] @ be_bytes 2 0
     @ be_bytes 16 (unat (session_id f))
     @ be_bytes 4 (unat (generation f))
     @ be_bytes 8 (unat (sequence f))
     @ be_bytes 4 (length (payload f))"

definition encode :: "frame \<Rightarrow> bytes result" where
  "encode f =
     (if length (payload f) > MAX_PAYLOAD \<or> \<not> kind_ok (kind f) then Err FrameTooLarge
      else Ok (header f @ payload f))"

text \<open>The subslice \<open>h[a..b]\<close>.\<close>

definition subslice :: "nat \<Rightarrow> nat \<Rightarrow> 'a list \<Rightarrow> 'a list" where
  "subslice a b xs = take (b - a) (drop a xs)"

definition header_ok :: "bytes \<Rightarrow> bool" where
  "header_ok h \<longleftrightarrow> subslice 0 4 h = MAGIC \<and> h ! 4 = 1 \<and> kind_ok (h ! 5) \<and> h ! 6 = 0 \<and> h ! 7 = 0"

definition parsed :: "bytes \<Rightarrow> bytes \<Rightarrow> frame" where
  "parsed h body =
     \<lparr>kind = h ! 5,
      session_id = of_nat (be_val (subslice 8 24 h)),
      generation = of_nat (be_val (subslice 24 28 h)),
      sequence = of_nat (be_val (subslice 28 36 h)),
      payload = body\<rparr>"

text \<open>
  The \<open>while pos < data.len()\<close> loop. \<open>pos.checked_add\<close> is on a 64-bit \<open>usize\<close>.
\<close>

function decode_loop :: "bytes \<Rightarrow> nat \<Rightarrow> frame list \<Rightarrow> frame list result" where
  "decode_loop data pos result =
     (if pos < length data then
        if length data - pos < HEADER_LEN then Err InvalidRequest
        else let h = subslice pos (pos + HEADER_LEN) data in
          if \<not> header_ok h then Err InvalidRequest
          else let len = be_val (subslice 36 40 h) in
            if len > MAX_PAYLOAD then Err FrameTooLarge
            else if pos + (HEADER_LEN + len) \<ge> 2 ^ 64 then Err FrameTooLarge
            else let end = pos + (HEADER_LEN + len) in
              if end > length data then Err InvalidRequest
              else decode_loop data end
                (result @ [parsed h (subslice (pos + HEADER_LEN) end data)])
      else Ok result)"
  by pat_completeness auto
termination
  by (relation "measure (\<lambda>(data, pos, _). length data - pos)") (auto simp: HEADER_LEN_def)

declare decode_loop.simps [simp del]

definition decode_all :: "bytes \<Rightarrow> frame list result" where
  "decode_all data =
     (if length data > MAX_MESSAGE then Err FrameTooLarge else decode_loop data 0 [])"

text \<open>The specification: the bytes of a list of frames.\<close>

definition encodable :: "frame \<Rightarrow> bool" where
  "encodable f \<longleftrightarrow> length (payload f) \<le> MAX_PAYLOAD \<and> kind_ok (kind f)"

definition wire :: "frame list \<Rightarrow> bytes" where
  "wire fs = concat (map (\<lambda>f. header f @ payload f) fs)"

section \<open>Header layout\<close>

lemmas codec_consts = HEADER_LEN_def MAX_PAYLOAD_def MAX_MESSAGE_def

lemma length_header [simp]: "length (header f) = HEADER_LEN"
  by (simp add: header_def MAGIC_def HEADER_LEN_def)

lemma header_parts:
  "subslice 0 4 (header f) = MAGIC" "header f ! 4 = 1" "header f ! 5 = kind f"
  "header f ! 6 = 0" "header f ! 7 = 0"
  "subslice 8 24 (header f) = be_bytes 16 (unat (session_id f))"
  "subslice 24 28 (header f) = be_bytes 4 (unat (generation f))"
  "subslice 28 36 (header f) = be_bytes 8 (unat (sequence f))"
  "subslice 36 40 (header f) = be_bytes 4 (length (payload f))"
  by (simp_all add: header_def MAGIC_def subslice_def numeral_2_eq_2 nth_append)

lemma header_length_field:
  "length (payload f) \<le> MAX_PAYLOAD \<Longrightarrow> be_val (subslice 36 40 (header f)) = length (payload f)"
  by (simp add: header_parts be_val_be_bytes MAX_PAYLOAD_def)

lemma of_nat_be_val_unat:
  "256 ^ n = (2::nat) ^ LENGTH('a) \<Longrightarrow> of_nat (be_val (be_bytes n (unat (w::'a::len word)))) = w"
  using unsigned_less [of w] by (simp add: be_val_be_bytes)

lemma parsed_header [simp]: "parsed (header f) (payload f) = f"
  by (simp add: parsed_def header_parts of_nat_be_val_unat)

lemma header_ok_header: "header_ok (header f) \<longleftrightarrow> kind_ok (kind f)"
  by (simp add: header_ok_def header_parts)

lemma subslice_append: "a \<le> b \<Longrightarrow> b \<le> c \<Longrightarrow> subslice a b xs @ subslice b c xs = subslice a c xs"
proof -
  assume "a \<le> b" "b \<le> c"
  then obtain k m where "b = a + k" "c = a + k + m" by (metis le_Suc_ex)
  then show ?thesis by (simp add: subslice_def take_add add.commute)
qed

lemma subslice_rest: "a \<le> b \<Longrightarrow> subslice a b xs @ drop b xs = drop a xs"
proof -
  assume "a \<le> b"
  then obtain k where "b = k + a" by (metis le_Suc_ex add.commute)
  then show ?thesis using append_take_drop_id [of k "drop a xs"] by (simp add: subslice_def)
qed

lemma subslice_pair: "a + 2 \<le> length xs \<Longrightarrow> subslice a (a + 2) xs = [xs ! a, xs ! (a + 1)]"
  by (auto simp: subslice_def intro!: nth_equalityI simp: less_Suc_eq numeral_2_eq_2)

lemma length_subslice [simp]: "b \<le> length xs \<Longrightarrow> length (subslice a b xs) = b - a"
  by (simp add: subslice_def)

lemma subslice_split_header:
  assumes "length h = 40"
  shows "h = subslice 0 4 h @ [h ! 4, h ! 5] @ [h ! 6, h ! 7] @ subslice 8 24 h @ subslice 24 28 h
    @ subslice 28 36 h @ subslice 36 40 h"
proof -
  have "subslice 4 6 h = [h ! 4, h ! 5]" "subslice 6 8 h = [h ! 6, h ! 7]"
    using subslice_pair [of 4 h] subslice_pair [of 6 h] assms by simp_all
  moreover have "subslice 0 40 h = h" using assms by (simp add: subslice_def)
  moreover have "subslice 0 4 h @ subslice 4 6 h @ subslice 6 8 h @ subslice 8 24 h @ subslice 24 28 h
    @ subslice 28 36 h @ subslice 36 40 h = subslice 0 40 h"
    by (simp add: subslice_append)
  ultimately show ?thesis by simp
qed

lemma unat_of_nat_be_val:
  "256 ^ length bs \<le> (2::nat) ^ LENGTH('a) \<Longrightarrow> unat (of_nat (be_val bs) :: 'a::len word) = be_val bs"
  using be_val_less [of bs] by (simp add: unat_of_nat take_bit_nat_eq_self_iff)

lemma header_parsed:
  assumes len: "length h = 40" and ok: "header_ok h" and body: "be_val (subslice 36 40 h) = length body"
  shows "header (parsed h body) = h"
proof -
  have fields: "be_bytes 16 (unat (of_nat (be_val (subslice 8 24 h)) :: uuid)) = subslice 8 24 h"
    "be_bytes 4 (unat (of_nat (be_val (subslice 24 28 h)) :: u32)) = subslice 24 28 h"
    "be_bytes 8 (unat (of_nat (be_val (subslice 28 36 h)) :: u64)) = subslice 28 36 h"
    "be_bytes 4 (length body) = subslice 36 40 h"
    using len by (simp_all add: unat_of_nat_be_val be_bytes_of_len flip: body)
  have "be_bytes 2 0 = [h ! 6, h ! 7]" "subslice 0 4 h = MAGIC" "h ! 4 = 1"
    using ok by (simp_all add: header_ok_def numeral_2_eq_2)
  with fields subslice_split_header [OF len] show ?thesis
    by (simp add: header_def parsed_def)
qed

section \<open>Decoding\<close>

lemma wire_Nil [simp]: "wire [] = []"
  by (simp add: wire_def)

lemma wire_Cons [simp]: "wire (f # fs) = header f @ payload f @ wire fs"
  by (simp add: wire_def)

lemma wire_append [simp]: "wire (fs @ gs) = wire fs @ wire gs"
  by (simp add: wire_def)

lemma encode_eq: "encode f = (if encodable f then Ok (header f @ payload f) else Err FrameTooLarge)"
  by (auto simp: encode_def encodable_def)

lemma subslice_drop: "subslice a b (drop n xs) = subslice (n + a) (n + b) xs"
  by (simp add: subslice_def add.commute)

lemma decode_loop_complete:
  assumes "length data \<le> MAX_MESSAGE" and "pos \<le> length data"
    and "drop pos data = wire gs" and "\<forall>g \<in> set gs. encodable g"
  shows "decode_loop data pos acc = Ok (acc @ gs)"
  using assms
proof (induction gs arbitrary: pos acc)
  case Nil
  then show ?case by (simp add: decode_loop.simps)
next
  case (Cons g gs)
  let ?len = "length (payload g)"
  let ?fin = "pos + (HEADER_LEN + ?len)"
  have d: "drop pos data = header g @ payload g @ wire gs" using Cons.prems by simp
  have enc: "encodable g" using Cons.prems by simp
  have l: "length data - pos = HEADER_LEN + ?len + length (wire gs)"
    using arg_cong [OF d, of length] by simp
  have h: "subslice pos (pos + HEADER_LEN) data = header g"
    using subslice_drop [of 0 HEADER_LEN pos data] d by (simp add: subslice_def)
  have b: "subslice (pos + HEADER_LEN) ?fin data = payload g"
    using subslice_drop [of HEADER_LEN "HEADER_LEN + ?len" pos data] d
    by (simp add: subslice_def)
  have rest: "drop ?fin data = wire gs"
    using arg_cong [OF d, of "drop (HEADER_LEN + ?len)"] by (simp add: add.commute add.left_commute)
  have "decode_loop data ?fin (acc @ [g]) = Ok ((acc @ [g]) @ gs)"
    using Cons.prems l rest by (intro Cons.IH) auto
  moreover have "?fin < 2 ^ 64" "?fin \<le> length data" "pos < length data"
    using l Cons.prems(1,2) by (auto simp: codec_consts)
  ultimately show ?case
    using enc l Cons.prems(2)
    by (subst decode_loop.simps)
      (auto simp: Let_def h b header_ok_header header_length_field encodable_def)
qed

lemma decode_loop_sound:
  assumes "decode_loop data pos acc = Ok fs" and "pos \<le> length data"
  shows "\<exists>gs. fs = acc @ gs \<and> (\<forall>g \<in> set gs. encodable g) \<and> drop pos data = wire gs"
  using assms
proof (induction data pos acc rule: decode_loop.induct)
  case (1 data pos acc)
  show ?case
  proof (cases "pos < length data")
    case False
    with "1.prems" show ?thesis by (simp add: decode_loop.simps)
  next
    case True
    define h where "h = subslice pos (pos + HEADER_LEN) data"
    define len where "len = be_val (subslice 36 40 h)"
    define e where "e = pos + (HEADER_LEN + len)"
    define body where "body = subslice (pos + HEADER_LEN) e data"
    note defs = h_def [symmetric] len_def [symmetric] e_def [symmetric] body_def [symmetric]
    have "(if length data - pos < HEADER_LEN then Err InvalidRequest
      else if \<not> header_ok h then Err InvalidRequest
      else if len > MAX_PAYLOAD then Err FrameTooLarge
      else if e \<ge> 2 ^ 64 then Err FrameTooLarge
      else if e > length data then Err InvalidRequest
      else decode_loop data e (acc @ [parsed h body])) = Ok fs"
      using "1.prems"(1) True by (subst (asm) decode_loop.simps) (simp only: Let_def defs if_True)
    then have ok: "header_ok h" "len \<le> MAX_PAYLOAD" "e < 2 ^ 64" "e \<le> length data"
      "\<not> length data - pos < HEADER_LEN"
      and rec: "decode_loop data e (acc @ [parsed h body]) = Ok fs"
      by (auto split: if_splits)
    have "\<exists>gs. fs = (acc @ [parsed h body]) @ gs \<and> (\<forall>g \<in> set gs. encodable g) \<and> drop e data = wire gs"
      using "1.IH" [OF True ok(5) h_def _ len_def _ _ e_def] ok rec ok(3) [unfolded e_def]
      by (simp add: body_def del: append_assoc)
    then obtain gs where gs: "fs = acc @ parsed h body # gs" "\<forall>g \<in> set gs. encodable g"
      "drop e data = wire gs" by auto
    have len: "length h = 40" "length body = len"
      using ok by (simp_all add: h_def body_def e_def HEADER_LEN_def)
    have "header (parsed h body) = h"
      using len ok by (intro header_parsed) (auto simp: len_def)
    moreover have "payload (parsed h body) = body" by (simp add: parsed_def)
    moreover have "h @ body @ drop e data = drop pos data"
      using subslice_append [of pos "pos + HEADER_LEN" e data] subslice_rest [of pos e data]
      by (simp add: h_def body_def e_def flip: append_assoc)
    moreover have "encodable (parsed h body)"
      using ok len by (simp add: encodable_def parsed_def header_ok_def)
    ultimately show ?thesis using gs by (intro exI [of _ "parsed h body # gs"]) simp
  qed
qed

lemma map_encode_Ok:
  "map encode fs = map Ok bss \<longleftrightarrow> (\<forall>f \<in> set fs. encodable f) \<and> bss = map (\<lambda>f. header f @ payload f) fs"
  by (induction fs arbitrary: bss) (auto simp: encode_eq split: if_splits)

section \<open>Properties\<close>

text \<open>C11. The decoder is the exact inverse of the encoder: \<open>decode_all\<close> returns the frames
  \<open>fs\<close> if and only if the message is within the size limit and is the concatenation of the
  encodings of \<open>fs\<close>. So every message built by \<open>encode\<close> is read back unchanged, and no other
  byte sequence (a truncated frame, reserved bits, a wrong length) is accepted.\<close>

theorem decode_all_exact:
  "decode_all data = Ok fs \<longleftrightarrow>
     length data \<le> MAX_MESSAGE \<and> (\<exists>bss. map encode fs = map Ok bss \<and> data = concat bss)"
proof
  assume "decode_all data = Ok fs"
  then have "length data \<le> MAX_MESSAGE" and "decode_loop data 0 [] = Ok fs"
    by (auto simp: decode_all_def split: if_splits)
  then show "length data \<le> MAX_MESSAGE \<and> (\<exists>bss. map encode fs = map Ok bss \<and> data = concat bss)"
    using decode_loop_sound [of data 0 "[]" fs] by (auto simp: map_encode_Ok wire_def)
next
  assume "length data \<le> MAX_MESSAGE \<and> (\<exists>bss. map encode fs = map Ok bss \<and> data = concat bss)"
  then show "decode_all data = Ok fs"
    using decode_loop_complete [of data 0 fs "[]"] by (auto simp: map_encode_Ok wire_def decode_all_def)
qed

end
