(* ===== verification/Event_Ring.thy ===== *)
theory Event_Ring
  imports Frame_Codec
begin

text \<open>
  The bounded replay buffer of \<open>rc-core/src/ring.rs\<close>: a queue of whole frames with a byte
  budget and a limit of 4096 frames. The specification is the complete history of the
  frames pushed so far; the ring is a refinement of it that keeps the longest suffix
  within the limits, and \<open>after\<close> answers from the history or reports that it cannot.
\<close>

section \<open>Model\<close>

record event_ring =
  limit :: nat
  ring_bytes :: nat
  events :: "frame list"

definition new :: "nat \<Rightarrow> event_ring" where
  "new lim = \<lparr>limit = lim, ring_bytes = 0, events = []\<rparr>"

definition event_size :: "frame \<Rightarrow> nat" where
  "event_size f = length (payload f) + 40"

text \<open>The eviction loop of \<open>push\<close>.\<close>

function evict :: "event_ring \<Rightarrow> event_ring" where
  "evict r =
     (if ring_bytes r > limit r \<or> length (events r) > 4096 then
        (case events r of
           old # rest \<Rightarrow> evict (r\<lparr>ring_bytes := ring_bytes r - event_size old, events := rest\<rparr>)
         | [] \<Rightarrow> r)
      else r)"
  by pat_completeness auto
termination
  by (relation "measure (\<lambda>r. length (events r))") auto

declare evict.simps [simp del]

definition push :: "event_ring \<Rightarrow> frame \<Rightarrow> event_ring \<times> frame" where
  "push r event =
     (evict (r\<lparr>ring_bytes := ring_bytes r + event_size event, events := events r @ [event]\<rparr>), event)"

definition after :: "event_ring \<Rightarrow> u64 \<Rightarrow> frame list result" where
  "after r seq =
     (if (case events r of [] \<Rightarrow> False | f # _ \<Rightarrow> saturating_add_u64 seq 1 < sequence f)
      then Err ResyncRequired
      else Ok (filter (\<lambda>e. sequence e > seq) (events r)))"

text \<open>The specification: the frames pushed so far, with consecutive sequence numbers.\<close>

definition ring_log :: "nat \<Rightarrow> frame list \<Rightarrow> event_ring" where
  "ring_log lim hist = foldl (\<lambda>r f. fst (push r f)) (new lim) hist"

fun run_from :: "nat \<Rightarrow> frame list \<Rightarrow> bool" where
  "run_from s [] = True"
| "run_from s (f # fs) = (unat (sequence f) = s \<and> run_from (Suc s) fs)"

definition total_size :: "frame list \<Rightarrow> nat" where
  "total_size fs = sum_list (map event_size fs)"

definition fits :: "nat \<Rightarrow> frame list \<Rightarrow> bool" where
  "fits lim fs \<longleftrightarrow> total_size fs \<le> lim \<and> length fs \<le> 4096"

definition ring_wf :: "event_ring \<Rightarrow> bool" where
  "ring_wf r \<longleftrightarrow> ring_bytes r = total_size (events r) \<and> fits (limit r) (events r)"

text \<open>A frame for the concrete instances of the theorems.\<close>

definition sample_frame :: "u64 \<Rightarrow> bytes \<Rightarrow> frame" where
  "sample_frame n body =
     \<lparr>kind = OUTPUT, session_id = 7, generation = 1, sequence = n, payload = body\<rparr>"

section \<open>Eviction\<close>

lemma total_size_simps [simp]:
  "total_size [] = 0" "total_size (f # fs) = event_size f + total_size fs"
  "total_size (fs @ gs) = total_size fs + total_size gs"
  by (simp_all add: total_size_def)

lemma fits_Nil [simp]: "fits lim []"
  by (simp add: fits_def)

lemma evict_spec:
  assumes "ring_bytes r = total_size (events r)"
  shows "\<exists>k. evict r = r\<lparr>ring_bytes := total_size (drop k (events r)), events := drop k (events r)\<rparr>
    \<and> fits (limit r) (drop k (events r)) \<and> (\<forall>j<k. \<not> fits (limit r) (drop j (events r)))"
  using assms
proof (induction r rule: evict.induct)
  case (1 r)
  show ?case
  proof (cases "fits (limit r) (events r)")
    case True
    then have "evict r = r" using "1.prems" by (simp add: evict.simps fits_def)
    then show ?thesis using True "1.prems" by (intro exI [of _ 0]) simp
  next
    case False
    then have over: "ring_bytes r > limit r \<or> length (events r) > 4096"
      using "1.prems" by (auto simp: fits_def)
    from False obtain old rest where ev: "events r = old # rest" by (cases "events r") auto
    let ?r = "r\<lparr>ring_bytes := ring_bytes r - event_size old, events := rest\<rparr>"
    have "evict r = evict ?r" using over ev by (subst evict.simps) simp
    moreover obtain k where "evict ?r = ?r\<lparr>ring_bytes := total_size (drop k rest), events := drop k rest\<rparr>"
      "fits (limit r) (drop k rest)" "\<forall>j<k. \<not> fits (limit r) (drop j rest)"
      using "1.IH" [OF over ev] "1.prems" ev by auto
    ultimately show ?thesis using ev False
      by (intro exI [of _ "Suc k"]) (auto simp: less_Suc_eq_0_disj)
  qed
qed

lemma push_spec:
  assumes "ring_bytes r = total_size (events r)"
  shows "\<exists>k. fst (push r f) = r\<lparr>ring_bytes := total_size (drop k (events r @ [f])),
      events := drop k (events r @ [f])\<rparr>
    \<and> fits (limit r) (drop k (events r @ [f]))
    \<and> (\<forall>j<k. \<not> fits (limit r) (drop j (events r @ [f])))"
  using evict_spec [of "r\<lparr>ring_bytes := ring_bytes r + event_size f, events := events r @ [f]\<rparr>"] assms
  by (auto simp: push_def)

lemma new_fields [simp]: "limit (new lim) = lim" "ring_bytes (new lim) = 0" "events (new lim) = []"
  by (simp_all add: new_def)

lemma ring_wf_new [simp]: "ring_wf (new lim)"
  by (simp add: ring_wf_def new_def)

lemma ring_wf_push: "ring_wf r \<Longrightarrow> ring_wf (fst (push r f)) \<and> limit (fst (push r f)) = limit r"
  using push_spec [of r f] by (auto simp: ring_wf_def)

section \<open>The ring as a suffix of the history\<close>

lemma ring_log_snoc: "ring_log lim (hist @ [f]) = fst (push (ring_log lim hist) f)"
  by (simp add: ring_log_def)

lemma ring_log_wf: "ring_wf (ring_log lim hist) \<and> limit (ring_log lim hist) = lim"
proof (induction hist rule: rev_induct)
  case Nil
  then show ?case by (simp add: ring_log_def)
next
  case (snoc f hist)
  then show ?case by (simp add: ring_log_snoc ring_wf_push)
qed

lemma ring_log_suffix: "suffix (events (ring_log lim hist)) hist"
proof (induction hist rule: rev_induct)
  case Nil
  then show ?case by (simp add: ring_log_def new_def)
next
  case (snoc f hist)
  have "ring_bytes (ring_log lim hist) = total_size (events (ring_log lim hist))"
    using ring_log_wf by (simp add: ring_wf_def)
  then obtain k where "events (ring_log lim (hist @ [f])) = drop k (events (ring_log lim hist) @ [f])"
    using push_spec [of "ring_log lim hist" f] by (auto simp: ring_log_snoc)
  moreover have "suffix (events (ring_log lim hist) @ [f]) (hist @ [f])"
    using snoc by simp
  ultimately show ?case by (metis suffix_drop suffix_order.trans)
qed

lemma ring_log_nonempty:
  assumes "hist \<noteq> []" and "event_size (last hist) \<le> lim"
  shows "events (ring_log lim hist) \<noteq> []"
proof -
  obtain h f where hist: "hist = h @ [f]" using assms(1) by (metis rev_exhaust)
  let ?r = "ring_log lim h"
  have wf: "ring_bytes ?r = total_size (events ?r)" "limit ?r = lim"
    using ring_log_wf by (simp_all add: ring_wf_def)
  obtain k where k: "events (fst (push ?r f)) = drop k (events ?r @ [f])"
    "\<forall>j<k. \<not> fits lim (drop j (events ?r @ [f]))"
    using push_spec [OF wf(1), of f] wf(2) by auto
  have "fits lim (drop (length (events ?r)) (events ?r @ [f]))"
    using assms(2) hist by (simp add: fits_def)
  with k(2) have "k \<le> length (events ?r)" by (metis not_le)
  then show ?thesis using k(1) hist by (simp add: ring_log_snoc)
qed

lemma run_from_append: "run_from s (fs @ gs) \<longleftrightarrow> run_from s fs \<and> run_from (s + length fs) gs"
  by (induction fs arbitrary: s) auto

lemma run_from_drop: "run_from s fs \<Longrightarrow> run_from (s + k) (drop k fs)"
proof (induction fs arbitrary: s k)
  case Nil
  then show ?case by simp
next
  case (Cons f fs)
  then show ?case using Cons.IH [of "Suc s" "k - 1"] by (cases k) auto
qed

lemma filter_run_from_all:
  "run_from s fs \<Longrightarrow> unat q < s \<Longrightarrow> filter (\<lambda>e. sequence e > q) fs = fs"
proof (induction fs arbitrary: s)
  case Nil
  then show ?case by simp
next
  case (Cons f fs)
  then show ?case using Cons.IH [of "Suc s"] by (simp add: word_less_nat_alt)
qed

lemma filter_run_from:
  "run_from s fs \<Longrightarrow> unat q + 1 \<ge> s \<Longrightarrow> filter (\<lambda>e. sequence e > q) fs = drop (unat q + 1 - s) fs"
proof (induction fs arbitrary: s)
  case Nil
  then show ?case by simp
next
  case (Cons f fs)
  show ?case
  proof (cases "unat q + 1 = s")
    case True
    with Cons.prems filter_run_from_all [of s "f # fs" q] show ?thesis by simp
  next
    case False
    then have "unat q + 1 \<ge> Suc s" using Cons.prems by simp
    with Cons show ?thesis by (auto simp: word_less_nat_alt Suc_diff_le)
  qed
qed

lemma after_run:
  assumes "run_from (Suc n) (events r)" and "events r \<noteq> []" and "n < 2 ^ 64 - 1"
  shows "after r q = (if unat q < n then Err ResyncRequired else Ok (drop (unat q - n) (events r)))"
proof -
  obtain f fs where ev: "events r = f # fs" using assms(2) by (cases "events r") auto
  with assms(1) have f: "unat (sequence f) = Suc n" by simp
  have "saturating_add_u64 q 1 < sequence f \<longleftrightarrow> unat q < n"
    using f assms(3) by (auto simp: word_less_nat_alt unat_saturating_add_u64 min_def)
  then show ?thesis
    using filter_run_from [OF assms(1), of q] ev by (simp add: after_def not_less)
qed

lemma after_history:
  assumes "run_from 1 hist" and "hist \<noteq> []" and "event_size (last hist) \<le> lim"
    and "length hist < 2 ^ 64"
  shows "after (ring_log lim hist) seq =
    (if unat seq < length hist - length (events (ring_log lim hist)) then Err ResyncRequired
     else Ok (drop (unat seq) hist))"
proof -
  let ?r = "ring_log lim hist"
  obtain h where h: "hist = h @ events ?r" using ring_log_suffix by (metis suffixE)
  then have n: "length hist - length (events ?r) = length h" by (metis add_diff_cancel_right' length_append)
  have ne: "events ?r \<noteq> []" using assms by (intro ring_log_nonempty) auto
  have "run_from (Suc (length h)) (events ?r)"
    using assms(1) h run_from_append [of 1 h "events ?r"] by simp
  moreover have "length h < 2 ^ 64 - 1"
    using assms(4) ne arg_cong [OF h, of length] by (cases "events ?r") auto
  ultimately have "after ?r seq =
      (if unat seq < length h then Err ResyncRequired else Ok (drop (unat seq - length h) (events ?r)))"
    using ne by (intro after_run)
  then show ?thesis using n arg_cong [OF h, of "drop (unat seq)"] by (auto simp: not_less)
qed

text \<open>Whatever the sizes of the frames, an answer is either the exact rest of the history or empty.\<close>

lemma after_history_part:
  assumes "run_from 1 hist" "length hist < 2 ^ 64" "after (ring_log lim hist) seq = Ok fs"
  shows "fs = drop (unat seq) hist \<or> fs = []"
proof (cases "events (ring_log lim hist) = []")
  case True
  with assms(3) show ?thesis by (simp add: after_def)
next
  case False
  let ?r = "ring_log lim hist"
  obtain h where h: "hist = h @ events ?r" using ring_log_suffix by (metis suffixE)
  have "run_from (Suc (length h)) (events ?r)"
    using assms(1) h run_from_append [of 1 h "events ?r"] by simp
  moreover have "length h < 2 ^ 64 - 1"
    using assms(2) False arg_cong [OF h, of length] by (cases "events ?r") auto
  ultimately have "after ?r seq =
      (if unat seq < length h then Err ResyncRequired else Ok (drop (unat seq - length h) (events ?r)))"
    using False by (intro after_run)
  with assms(3) have "fs = drop (unat seq - length h) (events ?r)" "\<not> unat seq < length h"
    by (auto split: if_splits)
  then show ?thesis using arg_cong [OF h, of "drop (unat seq)"] by simp
qed

section \<open>Properties\<close>

text \<open>The ring keeps its budget and evicts no more than it must: from a well-formed ring,
  \<open>push\<close> leaves a well-formed ring (the byte counter is the exact size of the queue, the byte
  limit and the 4096-frame limit hold) whose frames are the longest suffix of the old frames
  followed by the new one that respects both limits. Frames are evicted whole.\<close>

theorem push_keeps_longest_fitting_suffix:
  assumes "ring_wf r"
  shows "ring_wf (fst (push r f)) \<and> limit (fst (push r f)) = limit r
    \<and> (\<exists>k. events (fst (push r f)) = drop k (events r @ [f])
        \<and> (\<forall>j<k. \<not> fits (limit r) (drop j (events r @ [f]))))"
  using assms ring_wf_push [OF assms, of f] push_spec [of r f] by (auto simp: ring_wf_def)

theorem push_keeps_longest_fitting_suffix_witness:
  "ring_wf (new 90)
    \<and> ring_wf (fst (push (new 90) (sample_frame 1 [104, 105])))
    \<and> limit (fst (push (new 90) (sample_frame 1 [104, 105]))) = 90"
  using push_keeps_longest_fitting_suffix [of "new 90" "sample_frame 1 [104, 105]"]
  by simp



end
