(* ===== verification/Utf8.thy ===== *)
theory Utf8
  imports Prelude
begin

text \<open>
  \<open>std::str::from_utf8\<close> as the sources use it: whether a byte sequence is well-formed UTF-8,
  and for an ill-formed one the \<open>error_len\<close> of the error, \<open>None\<close> when the input ends inside a
  character. The table of second bytes is the one of the standard library.
\<close>

section \<open>Model\<close>

datatype utf8_result = Utf8_Ok | Utf8_Err "nat option"

definition cont :: "u8 \<Rightarrow> bool" where
  "cont b \<longleftrightarrow> 0x80 \<le> b \<and> b \<le> 0xBF"

definition second_of_3 :: "u8 \<Rightarrow> u8 \<Rightarrow> bool" where
  "second_of_3 a b \<longleftrightarrow>
     a = 0xE0 \<and> 0xA0 \<le> b \<and> b \<le> 0xBF
   \<or> 0xE1 \<le> a \<and> a \<le> 0xEC \<and> cont b
   \<or> a = 0xED \<and> 0x80 \<le> b \<and> b \<le> 0x9F
   \<or> 0xEE \<le> a \<and> a \<le> 0xEF \<and> cont b"

definition second_of_4 :: "u8 \<Rightarrow> u8 \<Rightarrow> bool" where
  "second_of_4 a b \<longleftrightarrow>
     a = 0xF0 \<and> 0x90 \<le> b \<and> b \<le> 0xBF
   \<or> 0xF1 \<le> a \<and> a \<le> 0xF3 \<and> cont b
   \<or> a = 0xF4 \<and> 0x80 \<le> b \<and> b \<le> 0x8F"

text \<open>The width table \<open>UTF8_CHAR_WIDTH\<close> of the lead bytes.\<close>

definition width :: "u8 \<Rightarrow> nat" where
  "width b =
     (if b < 0x80 then 1 else if b < 0xC2 then 0 else if b < 0xE0 then 2
      else if b < 0xF0 then 3 else if b < 0xF5 then 4 else 0)"

text \<open>
  One character: its bytes are accepted, the input ends inside it, or it is ill-formed
  after the given number of bytes.
\<close>

fun first_char :: "bytes \<Rightarrow> utf8_result \<times> bytes" where
  "first_char [] = (Utf8_Err None, [])"
| "first_char (a # r) =
     (if width a = 1 then (Utf8_Ok, r)
      else if width a = 2 then
        (case r of [] \<Rightarrow> (Utf8_Err None, [])
         | b # r1 \<Rightarrow> if cont b then (Utf8_Ok, r1) else (Utf8_Err (Some 1), r))
      else if width a = 3 then
        (case r of [] \<Rightarrow> (Utf8_Err None, [])
         | b # r1 \<Rightarrow> if \<not> second_of_3 a b then (Utf8_Err (Some 1), r)
             else (case r1 of [] \<Rightarrow> (Utf8_Err None, [])
               | c # r2 \<Rightarrow> if cont c then (Utf8_Ok, r2) else (Utf8_Err (Some 2), r1)))
      else if width a = 4 then
        (case r of [] \<Rightarrow> (Utf8_Err None, [])
         | b # r1 \<Rightarrow> if \<not> second_of_4 a b then (Utf8_Err (Some 1), r)
             else (case r1 of [] \<Rightarrow> (Utf8_Err None, [])
               | c # r2 \<Rightarrow> if \<not> cont c then (Utf8_Err (Some 2), r1)
                   else (case r2 of [] \<Rightarrow> (Utf8_Err None, [])
                     | d # r3 \<Rightarrow> if cont d then (Utf8_Ok, r3) else (Utf8_Err (Some 3), r2))))
      else (Utf8_Err (Some 1), r))"

lemma first_char_shorter: "bs \<noteq> [] \<Longrightarrow> length (snd (first_char bs)) < length bs"
  by (cases bs) (auto split: list.splits)

declare first_char.simps [simp del]

function from_utf8 :: "bytes \<Rightarrow> utf8_result" where
  "from_utf8 [] = Utf8_Ok"
| "from_utf8 (a # r) =
     (case first_char (a # r) of
        (Utf8_Ok, rest) \<Rightarrow> from_utf8 rest
      | (Utf8_Err e, _) \<Rightarrow> Utf8_Err e)"
  by pat_completeness auto
termination
proof (relation "measure length", goal_cases)
  case (2 a r p y)
  then show ?case
    using first_char_shorter [of "a # r"] by (metis in_measure list.distinct(1) snd_conv)
qed simp

declare from_utf8.simps(2) [simp del]

abbreviation valid_utf8 :: "bytes \<Rightarrow> bool" where
  "valid_utf8 bs \<equiv> from_utf8 bs = Utf8_Ok"

section \<open>Lemmas\<close>

lemma first_char_append:
  "first_char bs = (Utf8_Ok, rest) \<Longrightarrow> first_char (bs @ ys) = (Utf8_Ok, rest @ ys)"
  by (cases bs) (auto simp: first_char.simps split: list.splits if_splits)

lemma first_char_suffix: "first_char bs = (Utf8_Ok, rest) \<Longrightarrow> \<exists>c. bs = c @ rest \<and> c \<noteq> []"
  by (cases bs) (auto simp: first_char.simps split: list.splits if_splits)

lemma from_utf8_Cons_Ok:
  "from_utf8 (a # r) = Utf8_Ok \<longleftrightarrow> (\<exists>rest. first_char (a # r) = (Utf8_Ok, rest) \<and> from_utf8 rest = Utf8_Ok)"
  by (auto simp: from_utf8.simps(2) split: prod.splits utf8_result.splits)

lemma valid_utf8_append: "valid_utf8 xs \<Longrightarrow> valid_utf8 ys \<Longrightarrow> valid_utf8 (xs @ ys)"
proof (induction xs rule: length_induct)
  case (1 xs)
  show ?case
  proof (cases xs)
    case Nil
    with "1.prems" show ?thesis by simp
  next
    case (Cons a r)
    with "1.prems"(1) obtain rest where rest: "first_char (a # r) = (Utf8_Ok, rest)" "valid_utf8 rest"
      by (auto simp: from_utf8_Cons_Ok)
    have "length rest < length xs" using first_char_shorter [of "a # r"] rest(1) Cons by simp
    then have "valid_utf8 (rest @ ys)" using "1.IH" rest(2) "1.prems"(2) by blast
    moreover have "first_char (a # r @ ys) = (Utf8_Ok, rest @ ys)"
      using first_char_append [OF rest(1), of ys] by simp
    ultimately show ?thesis using Cons by (auto simp: from_utf8_Cons_Ok)
  qed
qed

lemma valid_utf8_ascii [simp]: "b < 0x80 \<Longrightarrow> valid_utf8 [b]"
  by (simp add: from_utf8.simps(2) first_char.simps width_def)

lemma valid_utf8_replacement [simp]: "valid_utf8 [0xEF, 0xBF, 0xBD]"
  by (simp add: from_utf8.simps(2) first_char.simps width_def second_of_3_def cont_def)

lemma width_lead: "0xC2 \<le> (a::u8) \<Longrightarrow> width a \<noteq> 1"
  by (auto simp: width_def word_less_nat_alt word_le_nat_alt)

lemma cont_ge: "cont b \<Longrightarrow> 0x80 \<le> b"
  by (simp add: cont_def)

lemma second_of_3_ge: "second_of_3 a b \<Longrightarrow> 0x80 \<le> b"
  by (auto simp: second_of_3_def cont_def intro: order_trans [rotated])

lemma second_of_4_ge: "second_of_4 a b \<Longrightarrow> 0x80 \<le> b"
  by (auto simp: second_of_4_def cont_def intro: order_trans [rotated])

text \<open>
  The buffer of an unfinished character: a byte that can only lead a longer character, or a
  proper prefix of one.
\<close>

definition unfinished :: "bytes \<Rightarrow> bool" where
  "unfinished u \<longleftrightarrow> u = [] \<or> (0xC2 \<le> hd u \<and> (length u = 1 \<or> fst (first_char u) = Utf8_Err None))"

lemma unfinished_Nil [simp]: "unfinished []"
  by (simp add: unfinished_def)

lemma unfinished_lead [simp]: "0xC2 \<le> b \<Longrightarrow> unfinished [b]"
  by (simp add: unfinished_def)

text \<open>One more byte finishes the character, keeps it unfinished or makes it ill-formed.\<close>

lemma first_char_unfinished:
  assumes "u \<noteq> []" "unfinished u"
  shows "length u \<le> 3" "\<forall>x \<in> set u. 0x80 \<le> x"
    and "fst (first_char (u @ [b])) = Utf8_Ok \<Longrightarrow> first_char (u @ [b]) = (Utf8_Ok, []) \<and> 0x80 \<le> b"
proof -
  obtain a r where u: "u = a # r" using assms(1) by (cases u) auto
  have a: "0xC2 \<le> a" using assms u by (simp add: unfinished_def)
  then have w: "width a \<noteq> 1" by (rule width_lead)
  have a80: "0x80 \<le> a" by (rule order_trans [OF _ a]) simp
  have r: "r = [] \<or> fst (first_char (a # r)) = Utf8_Err None"
    using assms u by (auto simp: unfinished_def)
  show "length u \<le> 3"
    using r w u by (auto simp: first_char.simps split: list.splits if_splits)
  show "\<forall>x \<in> set u. 0x80 \<le> x"
    using r w u a80 by (auto simp: first_char.simps split: list.splits if_splits
        dest: cont_ge second_of_3_ge second_of_4_ge)
  show "fst (first_char (u @ [b])) = Utf8_Ok \<Longrightarrow> first_char (u @ [b]) = (Utf8_Ok, []) \<and> 0x80 \<le> b"
    using r w u by (auto simp: first_char.simps split: list.splits if_splits
        dest: cont_ge second_of_3_ge second_of_4_ge)
qed

lemma from_utf8_unfinished:
  assumes "u \<noteq> []" "unfinished u"
  shows "from_utf8 (u @ [b]) = fst (first_char (u @ [b]))"
proof -
  obtain a r where u: "u @ [b] = a # r" using assms(1) by (cases u) auto
  show ?thesis
  proof (cases "fst (first_char (u @ [b]))")
    case Utf8_Ok
    with first_char_unfinished(3) [OF assms, of b] have "first_char (a # r) = (Utf8_Ok, [])"
      by (simp add: u)
    then show ?thesis by (simp add: u from_utf8.simps(2))
  next
    case (Utf8_Err e)
    then show ?thesis by (cases "first_char (a # r)") (simp add: u from_utf8.simps(2))
  qed
qed

lemma unfinished_grows:
  assumes "u \<noteq> []" "unfinished u" "from_utf8 (u @ [b]) = Utf8_Err None"
  shows "unfinished (u @ [b])"
  using assms from_utf8_unfinished [OF assms(1,2), of b] by (auto simp: unfinished_def)

lemma unfinished_finishes:
  assumes "u \<noteq> []" "unfinished u" "from_utf8 (u @ [b]) = Utf8_Ok"
  shows "\<forall>x \<in> set (u @ [b]). 0x80 \<le> x"
  using assms from_utf8_unfinished [OF assms(1,2), of b] first_char_unfinished [OF assms(1,2)] by auto

end
