(* ===== verification/Vt_Fence.thy ===== *)
theory Vt_Fence
  imports Utf8
begin

text \<open>
  The VT fence of \<open>rc-core/src/vt_fence.rs\<close>, between the pseudo terminal and the replay log:
  it releases complete UTF-8 text and complete escape sequences, holds back what is
  incomplete, and drops OSC 52, OSC 8 and string sequences (DCS, APC, PM, SOS). The model is
  the byte loop of \<open>push_bytes\<close> with its two accumulators \<open>out\<close> and \<open>text\<close>.
\<close>

section \<open>Model\<close>

datatype fence_state = Ground | Esc | Csi | Osc | OscEsc | StringS | StringEsc

record vt_fence =
  fstate :: fence_state
  pending :: bytes
  utf8 :: bytes
  discard :: bool
  omitted :: u64

definition default_fence :: vt_fence where
  "default_fence = \<lparr>fstate = Ground, pending = [], utf8 = [], discard = False, omitted = 0\<rparr>"

definition fence_push :: "vt_fence \<Rightarrow> u8 \<Rightarrow> vt_fence" where
  "fence_push f b =
     (if length (pending f) < 16 * 1024 then f\<lparr>pending := pending f @ [b]\<rparr>
      else f\<lparr>discard := True\<rparr>)"

text \<open>The prefixes \<open>ESC ] 52 ;\<close> and \<open>ESC ] 8 ;\<close>.\<close>

definition unsafe_osc :: "bytes \<Rightarrow> bool" where
  "unsafe_osc p \<longleftrightarrow> prefix [0x1b, 0x5d, 0x35, 0x32, 0x3b] p \<or> prefix [0x1b, 0x5d, 0x38, 0x3b] p"

definition complete :: "vt_fence \<Rightarrow> bytes list \<Rightarrow> vt_fence \<times> bytes list" where
  "complete f out =
     (let (f1, out1) =
        (if discard f \<or> unsafe_osc (pending f) then (f\<lparr>omitted := omitted f + 1\<rparr>, out)
         else if pending f \<noteq> [] then (f, out @ [pending f])
         else (f, out))
      in (f1\<lparr>pending := [], fstate := Ground, discard := False\<rparr>, out1))"

text \<open>The UTF-8 encoding of U+FFFD.\<close>

definition REPLACEMENT :: bytes where
  "REPLACEMENT = [0xEF, 0xBF, 0xBD]"

text \<open>\<open>if !text.is_empty() { out.push(std::mem::take(&mut text)) }\<close>.\<close>

definition flush :: "bytes list \<Rightarrow> bytes \<Rightarrow> bytes list" where
  "flush out text = (if text \<noteq> [] then out @ [text] else out)"

type_synonym fence_loop = "vt_fence \<times> bytes list \<times> bytes"

text \<open>An ESC in ground state: the text is flushed and a sequence begins.\<close>

definition begin_esc :: "vt_fence \<Rightarrow> bytes list \<Rightarrow> bytes \<Rightarrow> fence_loop" where
  "begin_esc f out text = (f\<lparr>pending := pending f @ [0x1b], fstate := Esc\<rparr>, flush out text, [])"

definition completed :: "vt_fence \<Rightarrow> bytes list \<Rightarrow> bytes \<Rightarrow> fence_loop" where
  "completed f out text = (let (f1, out1) = complete f out in (f1, out1, text))"

definition fence_byte :: "fence_loop \<Rightarrow> u8 \<Rightarrow> fence_loop" where
  "fence_byte s b = (case s of (f, out, text) \<Rightarrow>
     (case fstate f of
        Ground \<Rightarrow>
          if utf8 f \<noteq> [] then
            (let u = utf8 f @ [b] in
             case from_utf8 u of
               Utf8_Ok \<Rightarrow> (f\<lparr>utf8 := []\<rparr>, out, text @ u)
             | Utf8_Err (Some _) \<Rightarrow>
                 (let text1 = text @ REPLACEMENT; f1 = f\<lparr>utf8 := []\<rparr> in
                  if b < 0x80 then
                    (if b = 0x1b then begin_esc f1 out text1 else (f1, out, text1 @ [b]))
                  else (f1, out, text1))
             | Utf8_Err None \<Rightarrow> (f\<lparr>utf8 := u\<rparr>, out, text))
          else if b = 0x1b then begin_esc f out text
          else if b \<ge> 0xc2 then (f\<lparr>utf8 := utf8 f @ [b]\<rparr>, out, text)
          else if b \<ge> 0x80 then (f, out, text @ REPLACEMENT)
          else (f, out, text @ [b])
      | Esc \<Rightarrow>
          (let f1 = fence_push f b in
           if b = 0x5b then (f1\<lparr>fstate := Csi\<rparr>, out, text)
           else if b = 0x5d then (f1\<lparr>fstate := Osc\<rparr>, out, text)
           else if b \<in> {0x50, 0x5f, 0x5e, 0x58} then (f1\<lparr>fstate := StringS, discard := True\<rparr>, out, text)
           else if 0x20 \<le> b \<and> b \<le> 0x2f then (f1, out, text)
           else completed f1 out text)
      | Csi \<Rightarrow>
          (let f1 = fence_push f b in
           if 0x40 \<le> b \<and> b \<le> 0x7e then completed f1 out text
           else if b = 0x18 \<or> b = 0x1a then completed (f1\<lparr>discard := True\<rparr>) out text
           else if length (pending f1) > 1024 then (f1\<lparr>discard := True\<rparr>, out, text)
           else (f1, out, text))
      | Osc \<Rightarrow>
          (let f1 = fence_push f b in
           if b = 7 then completed f1 out text
           else if b = 0x1b then (f1\<lparr>fstate := OscEsc\<rparr>, out, text)
           else (f1, out, text))
      | OscEsc \<Rightarrow>
          (let f1 = fence_push f b in
           if b = 0x5c then completed f1 out text
           else (f1\<lparr>fstate := Osc\<rparr>, out, text))
      | StringS \<Rightarrow>
          (let f1 = fence_push f b in
           if b = 0x1b then (f1\<lparr>fstate := StringEsc\<rparr>, out, text) else (f1, out, text))
      | StringEsc \<Rightarrow>
          (let f1 = fence_push f b in
           if b = 0x5c then completed f1 out text
           else (f1\<lparr>fstate := StringS\<rparr>, out, text))))"

definition push_bytes :: "vt_fence \<Rightarrow> bytes \<Rightarrow> vt_fence \<times> bytes list" where
  "push_bytes f bs = (case foldl fence_byte (f, [], []) bs of (f', out, text) \<Rightarrow> (f', flush out text))"

definition pending_len :: "vt_fence \<Rightarrow> nat" where
  "pending_len f = length (pending f) + length (utf8 f)"

text \<open>A stream is handed over in chunks, one \<open>push_bytes\<close> per read of the pseudo terminal.\<close>

fun push_chunks :: "vt_fence \<Rightarrow> bytes list \<Rightarrow> vt_fence \<times> bytes list" where
  "push_chunks f [] = (f, [])"
| "push_chunks f (c # cs) =
     (let (f1, o1) = push_bytes f c; (f2, o2) = push_chunks f1 cs in (f2, o1 @ o2))"

section \<open>Specification\<close>

text \<open>
  The grammar of complete escape sequences: \<open>complete_from s r\<close> holds when \<open>r\<close> completes a
  sequence whose beginning has led to state \<open>s\<close>.
\<close>

fun complete_from :: "fence_state \<Rightarrow> bytes \<Rightarrow> bool" where
  "complete_from s [] = False"
| "complete_from s (b # r) =
     (case s of
        Esc \<Rightarrow>
          if b = 0x5b then complete_from Csi r
          else if b = 0x5d then complete_from Osc r
          else if b \<in> {0x50, 0x5f, 0x5e, 0x58} then False
          else if 0x20 \<le> b \<and> b \<le> 0x2f then complete_from Esc r
          else r = []
      | Csi \<Rightarrow>
          if 0x40 \<le> b \<and> b \<le> 0x7e then r = []
          else if b = 0x18 \<or> b = 0x1a then False
          else complete_from Csi r
      | Osc \<Rightarrow>
          if b = 7 then r = [] else if b = 0x1b then complete_from OscEsc r else complete_from Osc r
      | OscEsc \<Rightarrow> if b = 0x5c then r = [] else complete_from Osc r
      | _ \<Rightarrow> False)"

declare complete_from.simps(2) [simp del]

text \<open>What may leave the fence: plain UTF-8 text, or a complete safe sequence.\<close>

definition plain_text :: "bytes \<Rightarrow> bool" where
  "plain_text t \<longleftrightarrow> valid_utf8 t \<and> 0x1b \<notin> set t"

definition safe_sequence :: "bytes \<Rightarrow> bool" where
  "safe_sequence t \<longleftrightarrow>
     t \<noteq> [] \<and> hd t = 0x1b \<and> complete_from Esc (tl t) \<and> length t \<le> 16 * 1024 \<and> \<not> unsafe_osc t"

definition token_ok :: "bytes \<Rightarrow> bool" where
  "token_ok t \<longleftrightarrow> t \<noteq> [] \<and> (plain_text t \<or> safe_sequence t)"

definition fence_wf :: "vt_fence \<Rightarrow> bool" where
  "fence_wf f \<longleftrightarrow>
     (if fstate f = Ground then pending f = [] \<and> \<not> discard f \<and> unfinished (utf8 f)
      else utf8 f = [] \<and> length (pending f) \<le> 16 * 1024
        \<and> (fstate f \<in> {StringS, StringEsc} \<longrightarrow> discard f) \<and> (\<exists>p. pending f = 0x1b # p
        \<and> (\<not> discard f \<longrightarrow> (\<forall>r. complete_from Esc (p @ r) = complete_from (fstate f) r))))"

section \<open>Lemmas\<close>

lemma concat_flush [simp]: "concat (flush out text) = concat out @ text"
  by (simp add: flush_def)

lemma plain_text_Nil [simp]: "plain_text []"
  by (simp add: plain_text_def)

lemma plain_text_append [simp]: "plain_text a \<Longrightarrow> plain_text b \<Longrightarrow> plain_text (a @ b)"
  by (auto simp: plain_text_def valid_utf8_append)

lemma plain_text_ascii [simp]: "b < 0x80 \<Longrightarrow> b \<noteq> 0x1b \<Longrightarrow> plain_text [b]"
  by (simp add: plain_text_def)

lemma plain_text_replacement [simp]: "plain_text REPLACEMENT"
  by (simp add: plain_text_def REPLACEMENT_def)

lemma plain_text_finished:
  "u \<noteq> [] \<Longrightarrow> unfinished u \<Longrightarrow> from_utf8 (u @ [b]) = Utf8_Ok \<Longrightarrow> plain_text (u @ [b])"
  using unfinished_finishes [of u b] by (auto simp: plain_text_def)

lemma token_ok_flush: "list_all token_ok out \<Longrightarrow> plain_text text \<Longrightarrow> list_all token_ok (flush out text)"
  by (simp add: flush_def token_ok_def)

lemma fence_push_simps [simp]:
  "fstate (fence_push f b) = fstate f" "utf8 (fence_push f b) = utf8 f"
  "omitted (fence_push f b) = omitted f"
  by (simp_all add: fence_push_def)

lemma length_fence_push: "length (pending f) \<le> 16 * 1024 \<Longrightarrow> length (pending (fence_push f b)) \<le> 16 * 1024"
  by (simp add: fence_push_def)

lemma fence_push_kept: "\<not> discard (fence_push f b) \<Longrightarrow> pending (fence_push f b) = pending f @ [b] \<and> \<not> discard f"
  by (simp add: fence_push_def split: if_splits)

lemma fence_push_hd: "pending f = 0x1b # p \<Longrightarrow> \<exists>q. pending (fence_push f b) = 0x1b # q"
  by (simp add: fence_push_def)

text \<open>A byte inside a sequence: the pending bytes follow the grammar.\<close>

lemma fence_wf_push:
  assumes "fence_wf f" "fstate f \<noteq> Ground" "s \<noteq> Ground"
    and "s \<in> {StringS, StringEsc} \<Longrightarrow> discard (fence_push f b)"
    and "\<And>r. complete_from (fstate f) (b # r) = complete_from s r"
  shows "fence_wf ((fence_push f b)\<lparr>fstate := s\<rparr>)"
proof -
  from assms(1,2) obtain p where p: "pending f = 0x1b # p" "utf8 f = []" "length (pending f) \<le> 16 * 1024"
      and g: "\<not> discard f \<Longrightarrow> complete_from Esc (p @ r) = complete_from (fstate f) r" for r
    by (auto simp: fence_wf_def)
  obtain q where q: "pending (fence_push f b) = 0x1b # q" using fence_push_hd p(1) by blast
  have "complete_from Esc (q @ r) = complete_from s r" if "\<not> discard (fence_push f b)" for r
  proof -
    from fence_push_kept [OF that] p(1) q have "q = p @ [b]" "\<not> discard f" by auto
    then show ?thesis using g [of "b # r"] assms(5) by simp
  qed
  then show ?thesis
    using assms(3,4) p q length_fence_push [of f b] by (simp add: fence_wf_def)
qed

lemma fence_wf_push_discard:
  assumes "fence_wf f" "fstate f \<noteq> Ground" "s \<noteq> Ground"
  shows "fence_wf ((fence_push f b)\<lparr>fstate := s, discard := True\<rparr>)"
proof -
  from assms(1,2) obtain p where "pending f = 0x1b # p" "utf8 f = []" "length (pending f) \<le> 16 * 1024"
    by (auto simp: fence_wf_def)
  then show ?thesis
    using assms(3) fence_push_hd [of f p b] length_fence_push [of f b] by (auto simp: fence_wf_def)
qed

lemma fence_wf_discard: "fence_wf f \<Longrightarrow> fstate f \<noteq> Ground \<Longrightarrow> fence_wf (f\<lparr>discard := True\<rparr>)"
  by (auto simp: fence_wf_def)

lemma complete_wf: "utf8 f = [] \<Longrightarrow> fence_wf (fst (complete f out))"
  by (simp add: complete_def fence_wf_def Let_def)

lemma complete_out:
  "snd (complete f out) =
     (if discard f \<or> unsafe_osc (pending f) \<or> pending f = [] then out else out @ [pending f])"
  by (simp add: complete_def Let_def)

lemma push_complete_token:
  assumes "fence_wf f" "fstate f \<noteq> Ground" "complete_from (fstate f) [b]"
    and "\<not> discard (fence_push f b)" "\<not> unsafe_osc (pending (fence_push f b))"
  shows "token_ok (pending (fence_push f b))"
proof -
  from assms(1,2) obtain p where p: "pending f = 0x1b # p" "length (pending f) \<le> 16 * 1024"
      and g: "\<not> discard f \<Longrightarrow> complete_from Esc (p @ r) = complete_from (fstate f) r" for r
    by (auto simp: fence_wf_def)
  from fence_push_kept [OF assms(4)] have "pending (fence_push f b) = 0x1b # p @ [b]" "\<not> discard f"
    using p(1) by auto
  then show ?thesis
    using g [of "[b]"] assms(3,5) length_fence_push [OF p(2), of b]
    by (simp add: token_ok_def safe_sequence_def)
qed

definition loop_ok :: "fence_loop \<Rightarrow> bool" where
  "loop_ok s \<longleftrightarrow> (case s of (f, out, text) \<Rightarrow>
     fence_wf f \<and> list_all token_ok out \<and> plain_text text \<and> (fstate f \<noteq> Ground \<longrightarrow> text = []))"

lemma loop_ok_completed:
  assumes "fence_wf f" "fstate f \<noteq> Ground" "list_all token_ok out"
    and "discard f1 \<or> (f1 = fence_push f b \<and> complete_from (fstate f) [b])" "utf8 f1 = []"
  shows "loop_ok (completed f1 out [])"
proof -
  have "list_all token_ok (snd (complete f1 out))"
    using assms push_complete_token [OF assms(1,2)] by (auto simp: complete_out)
  moreover have "fence_wf (fst (complete f1 out))" by (rule complete_wf [OF assms(5)])
  ultimately show ?thesis by (cases "complete f1 out") (simp add: completed_def loop_ok_def)
qed

lemma loop_ok_ground:
  assumes "loop_ok (f, out, text)" "fstate f = Ground"
  shows "loop_ok (fence_byte (f, out, text) b)"
proof -
  have wf: "pending f = []" "\<not> discard f" "unfinished (utf8 f)" "list_all token_ok out" "plain_text text"
    using assms by (auto simp: loop_ok_def fence_wf_def)
  have esc: "loop_ok (begin_esc g out t)" if "pending g = []" "utf8 g = []" "plain_text t" for g t
    using that wf(4) by (simp add: begin_esc_def loop_ok_def fence_wf_def token_ok_flush)
  show ?thesis
  proof (cases "utf8 f = []")
    case True
    then show ?thesis using assms wf esc by (auto simp: fence_byte_def loop_ok_def fence_wf_def not_le)
  next
    case False
    show ?thesis
    proof (cases "from_utf8 (utf8 f @ [b])")
      case Utf8_Ok
      with False plain_text_finished [OF False wf(3) Utf8_Ok] show ?thesis
        using assms wf by (simp add: fence_byte_def loop_ok_def fence_wf_def del: append_assoc)
    next
      case (Utf8_Err e)
      with False unfinished_grows [OF False wf(3)] show ?thesis
        using assms wf esc by (auto simp: fence_byte_def Let_def loop_ok_def fence_wf_def split: option.splits)
    qed
  qed
qed

lemma fence_push_state: "(fence_push f b)\<lparr>fstate := fstate f\<rparr> = fence_push f b"
  by (simp add: fence_push_def)

lemma discard_push: "discard f \<Longrightarrow> discard (fence_push f b)"
  by (simp add: fence_push_def)

lemma loop_ok_escape:
  assumes "loop_ok (f, out, text)" "fstate f \<noteq> Ground"
  shows "loop_ok (fence_byte (f, out, text) b)"
proof -
  have wf: "fence_wf f" "list_all token_ok out" "text = []" "utf8 f = []"
    and str: "fstate f \<in> {StringS, StringEsc} \<Longrightarrow> discard (fence_push f b)"
    using assms by (auto simp: loop_ok_def fence_wf_def intro: discard_push)
  have keep: "loop_ok (g, out, [])" if "fence_wf g" for g
    using that wf(2) by (simp add: loop_ok_def)
  have same: "fence_wf (fence_push f b)" if "\<And>r. complete_from (fstate f) (b # r) = complete_from (fstate f) r"
    using fence_wf_push [OF wf(1) assms(2) assms(2) str that] by (simp add: fence_push_state)
  note fin = loop_ok_completed [OF wf(1) assms(2) wf(2)]
  note go = fence_wf_push [OF wf(1) assms(2)] fence_wf_push_discard [OF wf(1) assms(2)]
  have stuck: "complete_from StringS r = False" "complete_from StringEsc r = False" for r
    by (cases r; simp add: complete_from.simps(2))+
  note step = fence_byte_def Let_def complete_from.simps(2) stuck
  show ?thesis
  proof (cases "fstate f")
    case Ground
    with assms show ?thesis by simp
  next
    case Esc
    with wf show ?thesis by (auto simp: step intro!: keep go same fin)
  next
    case Csi
    with wf show ?thesis by (auto simp: step intro!: keep fence_wf_discard same fin)
  next
    case Osc
    with wf show ?thesis by (auto simp: step intro!: keep go same fin)
  next
    case OscEsc
    with wf show ?thesis by (auto simp: step intro!: keep go fin)
  next
    case StringS
    with wf str show ?thesis by (auto simp: step intro!: keep go same fin)
  next
    case StringEsc
    with wf str show ?thesis by (auto simp: step intro!: keep go fin)
  qed
qed

lemma loop_ok_byte: "loop_ok s \<Longrightarrow> loop_ok (fence_byte s b)"
  using loop_ok_ground loop_ok_escape by (cases s) blast

lemma loop_ok_foldl: "loop_ok s \<Longrightarrow> loop_ok (foldl fence_byte s bs)"
  by (induction bs arbitrary: s) (simp_all add: loop_ok_byte)

lemma loop_ok_start: "fence_wf f \<Longrightarrow> loop_ok (f, [], [])"
  by (simp add: loop_ok_def)

lemma fence_wf_default [simp]: "fence_wf default_fence"
  by (simp add: default_fence_def fence_wf_def)

lemma push_bytes_ok:
  assumes "fence_wf f"
  shows "fence_wf (fst (push_bytes f bs))" "list_all token_ok (snd (push_bytes f bs))"
  using loop_ok_foldl [OF loop_ok_start [OF assms], of bs]
  by (auto simp: push_bytes_def loop_ok_def token_ok_flush split: prod.splits)

text \<open>What a byte emits does not depend on what was emitted before.\<close>

definition flat :: "fence_loop \<Rightarrow> bytes" where
  "flat s = (case s of (f, out, text) \<Rightarrow> concat out @ text)"

lemma flat_triple [simp]: "flat (f, out, text) = concat out @ text"
  by (simp add: flat_def)

lemma completed_shift [simp]:
  "fst (completed f out text) = fst (complete f [])"
  "flat (completed f out []) = concat out @ concat (snd (complete f []))"
  by (auto simp: completed_def complete_def Let_def)

lemma begin_esc_shift [simp]:
  "fst (begin_esc f out text) = f\<lparr>pending := pending f @ [0x1b], fstate := Esc\<rparr>"
  "flat (begin_esc f out text) = concat out @ text"
  by (auto simp: begin_esc_def)

lemma fence_byte_shift:
  assumes "fstate f \<noteq> Ground \<longrightarrow> tx = []"
  shows "fst (fence_byte (f, out, tx) b) = fst (fence_byte (f, [], []) b)
    \<and> flat (fence_byte (f, out, tx) b) = concat out @ tx @ flat (fence_byte (f, [], []) b)"
proof (cases "fstate f = Ground")
  case True
  then show ?thesis
    by (auto simp: fence_byte_def Let_def split: utf8_result.split option.split)
next
  case False
  with assms have "tx = []" by simp
  with False show ?thesis
    by (cases "fstate f") (simp_all add: fence_byte_def Let_def)
qed

text \<open>The loop splits at every byte: emitted bytes accumulate, the fence carries on.\<close>

lemma foldl_fence_shift:
  assumes "loop_ok (f, out, tx)"
  shows "fst (foldl fence_byte (f, out, tx) bs) = fst (foldl fence_byte (f, [], []) bs)
    \<and> flat (foldl fence_byte (f, out, tx) bs) = concat out @ tx @ flat (foldl fence_byte (f, [], []) bs)"
  using assms
proof (induction bs arbitrary: f out tx)
  case Nil
  then show ?case by simp
next
  case (Cons b bs)
  obtain f1 o1 t1 where s1: "fence_byte (f, [], []) b = (f1, o1, t1)" by (cases "fence_byte (f, [], []) b")
  obtain f2 o2 t2 where s2: "fence_byte (f, out, tx) b = (f2, o2, t2)" by (cases "fence_byte (f, out, tx) b")
  have *: "f2 = f1" "concat o2 @ t2 = concat out @ tx @ concat o1 @ t1"
    using fence_byte_shift [of f tx out b] Cons.prems by (auto simp: s1 s2 loop_ok_def)
  have ok2: "loop_ok (f1, o2, t2)" using loop_ok_byte [OF Cons.prems, of b] s2 * by simp
  have "loop_ok (f, [], [])" using Cons.prems by (simp add: loop_ok_def)
  then have ok1: "loop_ok (f1, o1, t1)" using loop_ok_byte [of "(f, [], [])" b] s1 by simp
  show ?case using Cons.IH [OF ok1] Cons.IH [OF ok2] * by (simp add: s1 s2)
qed

lemma push_bytes_foldl:
  "push_bytes f bs = (let s = foldl fence_byte (f, [], []) bs in (fst s, flush (fst (snd s)) (snd (snd s))))"
  by (simp add: push_bytes_def Let_def split: prod.splits)

lemma push_bytes_state: "fst (push_bytes f bs) = fst (foldl fence_byte (f, [], []) bs)"
  and push_bytes_flat: "concat (snd (push_bytes f bs)) = flat (foldl fence_byte (f, [], []) bs)"
  by (simp_all add: push_bytes_foldl Let_def flat_def split: prod.splits)

lemma push_bytes_append:
  assumes "fence_wf f"
  shows "fst (push_bytes f (a @ b)) = fst (push_bytes (fst (push_bytes f a)) b)"
    and "concat (snd (push_bytes f (a @ b))) =
      concat (snd (push_bytes f a)) @ concat (snd (push_bytes (fst (push_bytes f a)) b))"
proof -
  obtain f1 o1 t1 where s1: "foldl fence_byte (f, [], []) a = (f1, o1, t1)"
    by (cases "foldl fence_byte (f, [], []) a")
  have "loop_ok (f1, o1, t1)" using loop_ok_foldl [OF loop_ok_start [OF assms], of a] s1 by simp
  from foldl_fence_shift [OF this, of b]
  show "fst (push_bytes f (a @ b)) = fst (push_bytes (fst (push_bytes f a)) b)"
    and "concat (snd (push_bytes f (a @ b))) =
      concat (snd (push_bytes f a)) @ concat (snd (push_bytes (fst (push_bytes f a)) b))"
    by (simp_all add: push_bytes_state push_bytes_flat s1)
qed

lemma push_chunks_concat:
  "fence_wf f \<Longrightarrow> fst (push_chunks f cs) = fst (push_bytes f (concat cs))
    \<and> concat (snd (push_chunks f cs)) = concat (snd (push_bytes f (concat cs)))"
proof (induction cs arbitrary: f)
  case Nil
  then show ?case by (simp add: push_bytes_def flush_def)
next
  case (Cons c cs)
  from Cons.IH [OF push_bytes_ok(1) [OF Cons.prems, of c]] show ?case
    by (auto simp: push_bytes_append [OF Cons.prems] Let_def split: prod.splits)
qed

text \<open>A byte adds at most three bytes to what is emitted and held back.\<close>

lemma length_complete:
  "length (concat (snd (complete f []))) + pending_len (fst (complete f [])) \<le> pending_len f"
  by (auto simp: complete_def Let_def pending_len_def)

lemma pending_len_push: "pending_len (fence_push f b) \<le> Suc (pending_len f)"
  by (simp add: fence_push_def pending_len_def)

lemma pending_len_flags [simp]:
  "pending_len (f\<lparr>fstate := s\<rparr>) = pending_len f" "pending_len (f\<lparr>discard := d\<rparr>) = pending_len f"
  by (simp_all add: pending_len_def)

lemma fence_byte_size:
  "length (flat (fence_byte (f, [], []) b)) + pending_len (fst (fence_byte (f, [], []) b)) \<le> pending_len f + 3"
proof (cases "fstate f = Ground")
  case True
  then show ?thesis
    by (cases "utf8 f") (auto simp: fence_byte_def Let_def REPLACEMENT_def pending_len_def
        split: utf8_result.split option.split)
next
  case False
  note bounds = pending_len_push [of f b] length_complete [of "fence_push f b"]
    length_complete [of "(fence_push f b)\<lparr>discard := True\<rparr>"]
  from False show ?thesis
    by (cases "fstate f") (use bounds in \<open>auto simp: fence_byte_def Let_def\<close>)
qed

lemma push_bytes_size:
  "fence_wf f \<Longrightarrow> length (concat (snd (push_bytes f bs))) + pending_len (fst (push_bytes f bs))
    \<le> pending_len f + 3 * length bs"
proof (induction bs arbitrary: f)
  case Nil
  then show ?case by (simp add: push_bytes_def flush_def)
next
  case (Cons b bs)
  have one: "length (concat (snd (push_bytes f [b]))) + pending_len (fst (push_bytes f [b])) \<le> pending_len f + 3"
    using fence_byte_size [of f b] by (simp add: push_bytes_state push_bytes_flat)
  show ?case
    using Cons.IH [OF push_bytes_ok(1) [OF Cons.prems, of "[b]"]] one
      push_bytes_append [OF Cons.prems, of "[b]" bs] by simp
qed

lemma fence_wf_pending_len: "fence_wf f \<Longrightarrow> pending_len f \<le> 16 * 1024"
  using first_char_unfinished(1) [of "utf8 f"]
  by (cases "utf8 f = []") (auto simp: fence_wf_def pending_len_def split: if_splits)

section \<open>Transparency\<close>

text \<open>An idle fence holds nothing back.\<close>

definition idle :: "vt_fence \<Rightarrow> bool" where
  "idle f \<longleftrightarrow> fstate f = Ground \<and> utf8 f = [] \<and> pending f = [] \<and> \<not> discard f"

text \<open>The length limits of the fence: 16384 bytes, and 1025 for a CSI sequence.\<close>

definition is_csi :: "bytes \<Rightarrow> bool" where
  "is_csi t \<longleftrightarrow> (case dropWhile (\<lambda>b. 0x20 \<le> b \<and> b \<le> 0x2f) (tl t) of [] \<Rightarrow> False | b # _ \<Rightarrow> b = 0x5b)"

definition within_limits :: "bytes \<Rightarrow> bool" where
  "within_limits t \<longleftrightarrow> plain_text t \<or> (is_csi t \<longrightarrow> length t \<le> 1025)"

lemma first_char_parts:
  assumes "first_char (a # r) = (Utf8_Ok, rest)"
  shows "(a < 0x80 \<and> r = rest)
    \<or> (\<exists>b. width a = 2 \<and> cont b \<and> r = b # rest)
    \<or> (\<exists>b c. width a = 3 \<and> second_of_3 a b \<and> cont c \<and> r = b # c # rest)
    \<or> (\<exists>b c d. width a = 4 \<and> second_of_4 a b \<and> cont c \<and> cont d \<and> r = b # c # d # rest)"
  using assms by (auto simp: first_char.simps width_def split: list.splits if_splits)

lemma fence_char:
  assumes "idle f" "first_char (a # r) = (Utf8_Ok, rest)" "a \<noteq> 0x1b"
  shows "\<exists>c. a # r = c @ rest \<and> foldl fence_byte (f, [], []) c = (f, [], c)"
proof -
  have lead: "width a > 1 \<Longrightarrow> 0xC2 \<le> a" by (auto simp: width_def split: if_splits)
  have f: "fstate f = Ground" "utf8 f = []" "f\<lparr>utf8 := []\<rparr> = f"
    using assms(1) by (auto simp: idle_def)
  note step = fence_byte_def Let_def f from_utf8.simps(2) first_char.simps
  consider "a < 0x80" "r = rest"
    | b where "width a = 2" "cont b" "r = b # rest"
    | b c where "width a = 3" "second_of_3 a b" "cont c" "r = b # c # rest"
    | b c d where "width a = 4" "second_of_4 a b" "cont c" "cont d" "r = b # c # d # rest"
    using first_char_parts [OF assms(2)] by blast
  then show ?thesis
  proof cases
    case 1
    then have "foldl fence_byte (f, [], []) [a] = (f, [], [a])"
      using assms(3) by (auto simp: step word_le_nat_alt word_less_nat_alt)
    with 1 show ?thesis by (intro exI [of _ "[a]"]) simp
  next
    case 2
    then have "foldl fence_byte (f, [], []) [a, b] = (f, [], [a, b])"
      using assms(3) lead by (simp add: step)
    with 2 show ?thesis by (intro exI [of _ "[a, b]"]) simp
  next
    case 3
    then have "foldl fence_byte (f, [], []) [a, b, c] = (f, [], [a, b, c])"
      using assms(3) lead by (simp add: step)
    with 3 show ?thesis by (intro exI [of _ "[a, b, c]"]) simp
  next
    case 4
    then have "foldl fence_byte (f, [], []) [a, b, c, d] = (f, [], [a, b, c, d])"
      using assms(3) lead by (simp add: step)
    with 4 show ?thesis by (intro exI [of _ "[a, b, c, d]"]) simp
  qed
qed

lemma idle_wf: "idle f \<Longrightarrow> fence_wf f"
  by (simp add: idle_def fence_wf_def)

definition passes :: "vt_fence \<Rightarrow> bytes \<Rightarrow> bool" where
  "passes f t \<longleftrightarrow> fst (push_bytes f t) = f \<and> concat (snd (push_bytes f t)) = t"

lemma passes_append: "fence_wf f \<Longrightarrow> passes f a \<Longrightarrow> passes f b \<Longrightarrow> passes f (a @ b)"
  by (simp add: passes_def push_bytes_append)

lemma passes_Nil [simp]: "passes f []"
  by (simp add: passes_def push_bytes_def flush_def)

lemma passes_loop: "foldl fence_byte (f, [], []) c = (f, [], c) \<Longrightarrow> passes f c"
  by (simp add: passes_def push_bytes_state push_bytes_flat)

lemma passes_plain_text: "idle f \<Longrightarrow> plain_text t \<Longrightarrow> passes f t"
proof (induction t rule: length_induct)
  case (1 t)
  show ?case
  proof (cases t)
    case Nil
    then show ?thesis by simp
  next
    case (Cons a r)
    with "1.prems" obtain rest where rest: "first_char (a # r) = (Utf8_Ok, rest)" "valid_utf8 rest"
      by (auto simp: plain_text_def from_utf8_Cons_Ok)
    obtain c where c: "a # r = c @ rest" "foldl fence_byte (f, [], []) c = (f, [], c)"
      using fence_char [OF "1.prems"(1) rest(1)] "1.prems"(2) Cons by (auto simp: plain_text_def)
    have "length rest < length t" using first_char_shorter [of "a # r"] rest(1) Cons by simp
    moreover have "plain_text rest" using "1.prems"(2) rest(2) c(1) Cons by (simp add: plain_text_def)
    ultimately have "passes f rest" using "1.IH" "1.prems"(1) by blast
    with passes_append [OF idle_wf [OF "1.prems"(1)] passes_loop [OF c(2)]] show ?thesis
      using c(1) Cons by simp
  qed
qed

text \<open>A sequence inside its limits runs to its last byte without being discarded.\<close>

definition csi_fits :: "fence_state \<Rightarrow> bytes \<Rightarrow> nat \<Rightarrow> bool" where
  "csi_fits s r n \<longleftrightarrow> (case s of Csi \<Rightarrow> n \<le> 1025 | Esc \<Rightarrow> is_csi (0x1b # r) \<longrightarrow> n \<le> 1025 | _ \<Rightarrow> True)"

lemma sequence_step:
  assumes "complete_from (fstate f) (b # r)" "length (pending f) < 16 * 1024"
    and "csi_fits (fstate f) (b # r) (length (pending f) + Suc (length r))"
  shows "(r = [] \<and> fence_byte (f, [], []) b = completed (f\<lparr>pending := pending f @ [b]\<rparr>) [] [])
    \<or> (\<exists>s. s \<noteq> Ground \<and> complete_from s r
        \<and> csi_fits s r (length (pending f) + Suc (length r))
        \<and> fence_byte (f, [], []) b = (f\<lparr>pending := pending f @ [b], fstate := s\<rparr>, [], []))"
proof -
  have push: "fence_push f b = f\<lparr>pending := pending f @ [b]\<rparr>"
    using assms(2) by (simp add: fence_push_def)
  have self: "f\<lparr>pending := q\<rparr> = f\<lparr>pending := q, fstate := fstate f\<rparr>" for q by simp
  have csi: "\<not> 1024 < Suc (length (pending f))" if "complete_from Csi r" "fstate f = Csi"
    using that assms(3) by (cases r) (auto simp: csi_fits_def)
  show ?thesis
    using assms(1,3) csi
    by (cases "fstate f")
      (auto simp: fence_byte_def Let_def push complete_from.simps(2) csi_fits_def is_csi_def
        intro: self [symmetric] split: if_splits)
qed

lemma fence_sequence:
  assumes "complete_from (fstate f) r" "\<not> discard f" "length (pending f @ r) \<le> 16 * 1024"
    and "csi_fits (fstate f) r (length (pending f @ r))" "\<not> unsafe_osc (pending f @ r)"
  shows "foldl fence_byte (f, [], []) r = (f\<lparr>pending := [], fstate := Ground\<rparr>, [pending f @ r], [])"
  using assms
proof (induction r arbitrary: f)
  case Nil
  then show ?case by simp
next
  case (Cons b r)
  let ?g = "\<lambda>s. f\<lparr>pending := pending f @ [b], fstate := s\<rparr>"
  from sequence_step [of f b r] Cons.prems(1,3,4) consider
      "r = []" "fence_byte (f, [], []) b = completed (f\<lparr>pending := pending f @ [b]\<rparr>) [] []"
    | s where "complete_from s r" "csi_fits s r (length (pending f) + Suc (length r))"
        "fence_byte (f, [], []) b = (?g s, [], [])"
    by auto
  then show ?case
  proof cases
    case 1
    with Cons.prems(2,5) show ?thesis by (simp add: completed_def complete_def Let_def)
  next
    case 2
    then have "foldl fence_byte (?g s, [], []) r = ((?g s)\<lparr>pending := [], fstate := Ground\<rparr>, [pending (?g s) @ r], [])"
      using Cons.prems(2,3,5) by (intro Cons.IH) simp_all
    with 2(3) show ?thesis by simp
  qed
qed

lemma passes_safe_sequence:
  assumes "idle f" "safe_sequence t" "is_csi t \<longrightarrow> length t \<le> 1025"
  shows "passes f t"
proof -
  obtain r where t: "t = 0x1b # r" "complete_from Esc r" using assms(2)
    by (cases t) (auto simp: safe_sequence_def)
  let ?g = "f\<lparr>pending := [0x1b], fstate := Esc\<rparr>"
  have "fence_byte (f, [], []) 0x1b = (?g, [], [])"
    using assms(1) by (simp add: fence_byte_def idle_def begin_esc_def flush_def)
  moreover have "foldl fence_byte (?g, [], []) r = (?g\<lparr>pending := [], fstate := Ground\<rparr>, [pending ?g @ r], [])"
    using assms t by (intro fence_sequence) (simp_all add: idle_def safe_sequence_def csi_fits_def)
  moreover have "?g\<lparr>pending := [], fstate := Ground\<rparr> = f"
    using assms(1) by (simp add: idle_def)
  ultimately show ?thesis by (simp add: passes_def push_bytes_state push_bytes_flat t(1))
qed

lemma passes_token: "idle f \<Longrightarrow> token_ok t \<Longrightarrow> within_limits t \<Longrightarrow> passes f t"
  using passes_plain_text passes_safe_sequence by (auto simp: token_ok_def within_limits_def)

lemma passes_tokens:
  "idle f \<Longrightarrow> list_all (\<lambda>t. token_ok t \<and> within_limits t) ts \<Longrightarrow> passes f (concat ts)"
  by (induction ts) (auto simp: passes_token intro!: passes_append idle_wf)

section \<open>Properties\<close>

text \<open>C10. The fence is independent of how the stream is cut: whatever the reads of the pseudo
  terminal, two ways of cutting the same bytes leave the fence in the same state and release the
  same bytes. A character or a sequence that is split between two reads is never lost or altered.\<close>

theorem fence_is_chunking_independent:
  assumes "fence_wf f" "concat cs = concat ds"
  shows "fst (push_chunks f cs) = fst (push_chunks f ds)
    \<and> concat (snd (push_chunks f cs)) = concat (snd (push_chunks f ds))"
  using push_chunks_concat [OF assms(1), of cs] push_chunks_concat [OF assms(1), of ds] assms(2) by simp

theorem fence_is_chunking_independent_witness:
  "fst (push_chunks default_fence [[0xED, 0x95], [0x9C, 0x1b], [0x5b, 0x6d]])
     = fst (push_chunks default_fence [[0xED, 0x95, 0x9C, 0x1b, 0x5b, 0x6d]])
   \<and> concat (snd (push_chunks default_fence [[0xED, 0x95], [0x9C, 0x1b], [0x5b, 0x6d]]))
     = concat (snd (push_chunks default_fence [[0xED, 0x95, 0x9C, 0x1b, 0x5b, 0x6d]]))"
  by (rule fence_is_chunking_independent) simp_all



text \<open>The fence is transparent to benign output: a stream made of UTF-8 text and complete safe
  sequences within the length limits comes out of an idle fence unchanged, however it is cut
  into reads, and the fence is idle again with nothing omitted.\<close>

theorem fence_is_transparent:
  assumes "idle f" "list_all (\<lambda>t. token_ok t \<and> within_limits t) ts" "concat cs = concat ts"
  shows "fst (push_chunks f cs) = f \<and> concat (snd (push_chunks f cs)) = concat ts"
  using push_chunks_concat [OF idle_wf [OF assms(1)], of cs] passes_tokens [OF assms(1,2)] assms(3)
  by (simp add: passes_def)

theorem fence_is_transparent_witness:
  "fst (push_chunks default_fence [[0x41, 0x1b], [0x5b, 0x33, 0x31], [0x6d]]) = default_fence
   \<and> concat (snd (push_chunks default_fence [[0x41, 0x1b], [0x5b, 0x33, 0x31], [0x6d]]))
     = concat [[0x41], [0x1b, 0x5b, 0x33, 0x31, 0x6d]]"
  by (rule fence_is_transparent)
    (simp_all add: idle_def default_fence_def token_ok_def safe_sequence_def within_limits_def
      complete_from.simps(2) unsafe_osc_def is_csi_def plain_text_def)

text \<open>Bounded memory and bounded amplification: a well-formed fence never holds back more than
  16384 bytes, and what a read releases together with what is then held back is at most what was
  held back before plus three bytes per byte read.\<close>

theorem fence_is_bounded:
  assumes "fence_wf f"
  shows "pending_len f \<le> 16 * 1024
    \<and> length (concat (snd (push_bytes f bs))) + pending_len (fst (push_bytes f bs))
        \<le> pending_len f + 3 * length bs"
  using fence_wf_pending_len [OF assms] push_bytes_size [OF assms, of bs] by simp

theorem fence_is_bounded_witness:
  "pending_len default_fence \<le> 16 * 1024
   \<and> length (concat (snd (push_bytes default_fence [0x80, 0x80])))
      + pending_len (fst (push_bytes default_fence [0x80, 0x80])) \<le> pending_len default_fence + 3 * length [0x80::u8, 0x80]"
  by (rule fence_is_bounded) simp

text \<open>
  The fence judges each sequence by itself. The bytes \<open>ESC ESC\<close> are a complete sequence to it,
  and what follows is text: the stream \<open>ESC ESC ] 52 ; c BEL\<close> is released whole, and it contains
  the clipboard sequence \<open>ESC ] 52 ; c BEL\<close> that the fence means to omit.
\<close>

lemma fence_lets_osc52_through_after_esc:
  "concat (snd (push_bytes default_fence [0x1b, 0x1b, 0x5d, 0x35, 0x32, 0x3b, 0x63, 7]))
     = [0x1b] @ [0x1b, 0x5d, 0x35, 0x32, 0x3b, 0x63, 7]"
  by (simp add: push_bytes_def default_fence_def fence_byte_def begin_esc_def flush_def Let_def
      fence_push_def completed_def complete_def unsafe_osc_def)

end
