(* ===== verification/Rust_Strings.thy ===== *)
theory Rust_Strings
  imports Prelude
begin

text \<open>
  The string operations of the standard library that the sources call. A \<open>String\<close> is the list
  of its UTF-8 bytes, so \<open>len\<close> is the length of the list; literals are written with \<open>lit\<close>.
\<close>

section \<open>Model\<close>

type_synonym str = bytes

definition lit :: "string \<Rightarrow> str" where
  "lit s = map (\<lambda>c. of_nat (of_char c)) s"

text \<open>\<open>char::is_whitespace\<close>: the encodings of the characters with the property White_Space.\<close>

definition ws1 :: "u8 \<Rightarrow> bool" where
  "ws1 a \<longleftrightarrow> 9 \<le> a \<and> a \<le> 13 \<or> a = 0x20"

definition ws2 :: "u8 \<Rightarrow> u8 \<Rightarrow> bool" where
  "ws2 a b \<longleftrightarrow> a = 0xC2 \<and> (b = 0x85 \<or> b = 0xA0)"

definition ws3 :: "u8 \<Rightarrow> u8 \<Rightarrow> u8 \<Rightarrow> bool" where
  "ws3 a b c \<longleftrightarrow>
     a = 0xE1 \<and> b = 0x9A \<and> c = 0x80
   \<or> a = 0xE2 \<and> b = 0x80 \<and> (0x80 \<le> c \<and> c \<le> 0x8A \<or> c = 0xA8 \<or> c = 0xA9 \<or> c = 0xAF)
   \<or> a = 0xE2 \<and> b = 0x81 \<and> c = 0x9F
   \<or> a = 0xE3 \<and> b = 0x80 \<and> c = 0x80"

text \<open>\<open>str::trim\<close> drops the whitespace characters of both ends.\<close>

fun trim_start :: "str \<Rightarrow> str" where
  "trim_start (a # b # c # r) =
     (if ws1 a then trim_start (b # c # r)
      else if ws2 a b then trim_start (c # r)
      else if ws3 a b c then trim_start r
      else a # b # c # r)"
| "trim_start [a, b] = (if ws1 a then trim_start [b] else if ws2 a b then [] else [a, b])"
| "trim_start [a] = (if ws1 a then [] else [a])"
| "trim_start [] = []"

text \<open>The same from the end, on the reversed string.\<close>

fun trim_rev :: "str \<Rightarrow> str" where
  "trim_rev (c # b # a # r) =
     (if ws1 c then trim_rev (b # a # r)
      else if ws2 b c then trim_rev (a # r)
      else if ws3 a b c then trim_rev r
      else c # b # a # r)"
| "trim_rev [c, b] = (if ws1 c then trim_rev [b] else if ws2 b c then [] else [c, b])"
| "trim_rev [c] = (if ws1 c then [] else [c])"
| "trim_rev [] = []"

definition trim_end :: "str \<Rightarrow> str" where
  "trim_end s = rev (trim_rev (rev s))"

definition trim :: "str \<Rightarrow> str" where
  "trim s = trim_end (trim_start s)"

definition strip_prefix :: "str \<Rightarrow> str \<Rightarrow> str option" where
  "strip_prefix p s = (if prefix p s then Some (drop (length p) s) else None)"

definition strip_suffix :: "str \<Rightarrow> str \<Rightarrow> str option" where
  "strip_suffix p s = (if suffix p s then Some (take (length s - length p) s) else None)"

text \<open>\<open>str::split\<close> at a one-byte separator: the pieces, at least one.\<close>

fun split_on :: "u8 \<Rightarrow> str \<Rightarrow> str list" where
  "split_on d [] = [[]]"
| "split_on d (b # r) =
     (if b = d then [] # split_on d r
      else (case split_on d r of p # ps \<Rightarrow> (b # p) # ps | [] \<Rightarrow> [[b]]))"

definition is_digit :: "u8 \<Rightarrow> bool" where
  "is_digit b \<longleftrightarrow> 0x30 \<le> b \<and> b \<le> 0x39"

definition dec_val :: "str \<Rightarrow> nat" where
  "dec_val ds = foldl (\<lambda>n d. 10 * n + (unat d - 0x30)) 0 ds"

text \<open>\<open>str::parse\<close> for an unsigned integer below the bound: an optional \<open>+\<close>, then digits.\<close>

definition parse_uint :: "nat \<Rightarrow> str \<Rightarrow> nat option" where
  "parse_uint bound s =
     (let ds = (if s \<noteq> [] \<and> hd s = 0x2B then tl s else s) in
      if ds \<noteq> [] \<and> list_all is_digit ds \<and> dec_val ds < bound then Some (dec_val ds) else None)"

text \<open>\<open>to_string\<close> of an unsigned integer.\<close>

fun dec :: "nat \<Rightarrow> str" where
  "dec n = (if n < 10 then [0x30 + of_nat n] else dec (n div 10) @ [0x30 + of_nat (n mod 10)])"

declare dec.simps [simp del]

text \<open>The number of UTF-16 units of a string given by its UTF-8 bytes.\<close>

definition utf16_len :: "str \<Rightarrow> nat" where
  "utf16_len s = length (filter (\<lambda>b. \<not> (0x80 \<le> b \<and> b \<le> 0xBF)) s) + length (filter (\<lambda>b. 0xF0 \<le> b) s)"

definition trim_end_matches :: "u8 \<Rightarrow> str \<Rightarrow> str" where
  "trim_end_matches c s = rev (dropWhile (\<lambda>b. b = c) (rev s))"

text \<open>\<open>str::split_whitespace\<close>: the maximal pieces without whitespace; the accumulator is the piece read so far.\<close>

definition piece :: "str \<Rightarrow> str list" where
  "piece acc = (if acc = [] then [] else [acc])"

fun words_from :: "str \<Rightarrow> str \<Rightarrow> str list" where
  "words_from acc (a # b # c # r) =
     (if ws1 a then piece acc @ words_from [] (b # c # r)
      else if ws2 a b then piece acc @ words_from [] (c # r)
      else if ws3 a b c then piece acc @ words_from [] r
      else words_from (acc @ [a]) (b # c # r))"
| "words_from acc [a, b] =
     (if ws1 a then piece acc @ words_from [] [b] else if ws2 a b then piece acc else words_from (acc @ [a]) [b])"
| "words_from acc [a] = (if ws1 a then piece acc else piece (acc @ [a]))"
| "words_from acc [] = piece acc"

definition split_whitespace :: "str \<Rightarrow> str list" where
  "split_whitespace s = words_from [] s"

text \<open>\<open>str::lines\<close>: a carriage return before a line feed belongs to the line ending.\<close>

definition strip_cr :: "str \<Rightarrow> str" where
  "strip_cr l = (if l \<noteq> [] \<and> last l = 13 then butlast l else l)"

definition str_lines :: "str \<Rightarrow> str list" where
  "str_lines s =
     (let ps = split_on 10 s in
      if last ps = [] then map strip_cr (butlast ps) else map strip_cr (butlast ps) @ [last ps])"

definition to_ascii_upper :: "u8 \<Rightarrow> u8" where
  "to_ascii_upper b = (if 0x61 \<le> b \<and> b \<le> 0x7A then b - 0x20 else b)"

definition is_hexdigit :: "u8 \<Rightarrow> bool" where
  "is_hexdigit b \<longleftrightarrow> is_digit b \<or> 0x41 \<le> b \<and> b \<le> 0x46 \<or> 0x61 \<le> b \<and> b \<le> 0x66"

text \<open>\<open>join\<close> with a separator.\<close>

fun join_with :: "str \<Rightarrow> str list \<Rightarrow> str" where
  "join_with d [] = []"
| "join_with d [p] = p"
| "join_with d (p # q # r) = p @ d @ join_with d (q # r)"

definition to_ascii_lower :: "u8 \<Rightarrow> u8" where
  "to_ascii_lower b = (if 0x41 \<le> b \<and> b \<le> 0x5A then b + 0x20 else b)"

definition eq_ignore_ascii_case :: "str \<Rightarrow> str \<Rightarrow> bool" where
  "eq_ignore_ascii_case a b \<longleftrightarrow> map to_ascii_lower a = map to_ascii_lower b"

section \<open>Lemmas\<close>

lemma lit_inj: "lit s = lit t \<longleftrightarrow> s = t"
proof -
  have "inj (\<lambda>c::char. of_nat (of_char c) :: u8)"
  proof (rule injI)
    fix c d :: char
    assume "(of_nat (of_char c) :: u8) = of_nat (of_char d)"
    then have "unat (of_nat (of_char c) :: u8) = unat (of_nat (of_char d) :: u8)" by simp
    then have "(of_char c :: nat) = of_char d" by (simp add: unat_of_nat)
    then show "c = d" by simp
  qed
  then show ?thesis by (simp add: lit_def inj_map_eq_map)
qed

lemma length_trim_start: "length (trim_start s) \<le> length s"
  by (induction s rule: trim_start.induct) auto

lemma length_trim_rev: "length (trim_rev s) \<le> length s"
  by (induction s rule: trim_rev.induct) auto

lemma length_trim: "length (trim s) \<le> length s"
  using length_trim_start [of s] length_trim_rev [of "rev (trim_start s)"]
  by (simp add: trim_def trim_end_def)

lemma dec_val_snoc [simp]: "dec_val (ds @ [d]) = 10 * dec_val ds + (unat d - 0x30)"
  by (simp add: dec_val_def)

lemma digit_byte: "n < 10 \<Longrightarrow> unat (0x30 + of_nat n :: u8) = 0x30 + n"
  by (simp add: unat_word_ariths unat_of_nat)

lemma is_digit_byte: "n < 10 \<Longrightarrow> is_digit (0x30 + of_nat n)"
  by (simp add: is_digit_def word_le_nat_alt digit_byte)

lemma dec_digits: "list_all is_digit (dec n) \<and> dec n \<noteq> [] \<and> dec_val (dec n) = n"
proof (induction n rule: dec.induct)
  case (1 n)
  then show ?case
    by (cases "n < 10") (simp_all add: dec.simps [of n] is_digit_byte digit_byte dec_val_def)
qed

lemma parse_dec: "n < bound \<Longrightarrow> parse_uint bound (dec n) = Some n"
proof -
  assume n: "n < bound"
  have d: "list_all is_digit (dec n)" "dec n \<noteq> []" "dec_val (dec n) = n" using dec_digits by auto
  then have "hd (dec n) \<noteq> 0x2B"
    by (cases "dec n") (auto simp: is_digit_def)
  with d n show ?thesis by (simp add: parse_uint_def)
qed

lemma dec_inj: "dec m = dec n \<Longrightarrow> m = n"
  using dec_digits by metis

lemma split_on_nonempty [simp]: "split_on d s \<noteq> []"
  by (induction s) (auto split: list.splits)

lemma split_on_no_sep: "p \<in> set (split_on d s) \<Longrightarrow> d \<notin> set p"
  by (induction s arbitrary: p) (auto split: list.splits if_splits)

lemma split_on_append: "d \<notin> set p \<Longrightarrow> split_on d (p @ d # s) = p # split_on d s"
  by (induction p) auto

lemma split_on_single: "d \<notin> set p \<Longrightarrow> split_on d p = [p]"
  by (induction p) auto

lemma str_join_split: "join_with [d] (split_on d s) = s"
proof (induction s)
  case (Cons b s)
  obtain p ps where "split_on d s = p # ps" by (cases "split_on d s") auto
  with Cons show ?case by (cases ps) auto
qed simp

lemma str_split_join:
  "ps \<noteq> [] \<Longrightarrow> (\<And>p. p \<in> set ps \<Longrightarrow> d \<notin> set p) \<Longrightarrow> split_on d (join_with [d] ps) = ps"
proof (induction "[d]" ps rule: join_with.induct)
  case (3 p q r)
  then show ?case using split_on_append [of d p "join_with [d] (q # r)"] by simp
qed (auto simp: split_on_single)

text \<open>A decimal numeral without a leading zero is the text of its value.\<close>

lemma dec_val_Cons: "dec_val (d # ds) = (unat d - 0x30) * 10 ^ length ds + dec_val ds"
proof (induction ds rule: rev_induct)
  case (snoc x ds)
  have "dec_val (d # ds @ [x]) = 10 * dec_val (d # ds) + (unat x - 0x30)" using dec_val_snoc [of "d # ds" x] by simp
  with snoc show ?case by simp
qed (simp add: dec_val_def)

lemma dec_of_digits:
  "list_all is_digit ds \<Longrightarrow> ds \<noteq> [] \<Longrightarrow> (length ds > 1 \<longrightarrow> hd ds \<noteq> 0x30) \<Longrightarrow> dec (dec_val ds) = ds"
proof (induction ds rule: rev_induct)
  case (snoc x ds)
  have x: "0x30 \<le> unat x" "unat x \<le> 0x39" using snoc.prems(1) by (simp_all add: is_digit_def word_le_nat_alt)
  have "(of_nat 0x30 :: u8) + of_nat (unat x - 0x30) = of_nat (unat x)"
    using x(1) by (simp only: of_nat_add [symmetric] le_add_diff_inverse)
  then have byte: "0x30 + of_nat (unat x - 0x30) = x" by simp
  show ?case
  proof (cases "ds = []")
    case True
    then show ?thesis using x byte by (simp add: dec_val_def dec.simps)
  next
    case False
    then have d: "list_all is_digit ds" "hd ds \<noteq> 0x30" using snoc.prems by auto
    have ih: "dec (dec_val ds) = ds" using snoc.IH d False by simp
    have "0 < dec_val ds"
    proof (rule ccontr)
      assume "\<not> 0 < dec_val ds"
      then have "ds = [0x30]" using ih by (simp add: dec.simps [of 0])
      then show False using d(2) by simp
    qed
    moreover obtain v where v: "unat x - 0x30 = v" "v < 10" using x by simp
    moreover have "(10 * dec_val ds + v) div 10 = dec_val ds" "(10 * dec_val ds + v) mod 10 = v"
      using v(2) by simp_all
    ultimately show ?thesis using ih byte by (simp add: dec.simps [of "10 * dec_val ds + v"])
  qed
qed simp

end
