(* ===== verification/Input_Lease.thy ===== *)
theory Input_Lease
  imports Prelude
begin

text \<open>
  The input lease of \<open>rc-core/src/lease.rs\<close>: at most one connection of one client owns
  the input of a session, until it is released, revoked, taken over or 15 seconds pass
  without a renewal. Every grant carries an epoch. Operations that call \<open>unwrap\<close> return
  an \<open>option\<close>: \<open>None\<close> is the panic, and \<open>acquire_total\<close>, \<open>renew_total\<close> show that it does
  not happen.
\<close>

section \<open>Model\<close>

definition LEASE_TTL :: duration where
  "LEASE_TTL = secs 15"

record owner =
  client :: uuid
  connection :: uuid
  until :: instant

record lease =
  epoch :: u64
  owner :: "owner option"

text \<open>\<open>LeaseView\<close> of \<open>rc-core/src/protocol.rs\<close>.\<close>

record lease_view =
  client_id :: uuid
  connection_id :: uuid
  view_epoch :: u64
  remaining_ms :: u64

definition default_lease :: lease where
  "default_lease = \<lparr>epoch = 0, owner = None\<rparr>"

definition view :: "lease \<Rightarrow> instant \<Rightarrow> lease_view option" where
  "view l now =
     (case owner l of
        None \<Rightarrow> None
      | Some own \<Rightarrow>
          if until own > now then
            Some \<lparr>client_id = client own, connection_id = connection own, view_epoch = epoch l,
                  remaining_ms = of_nat (as_millis (duration_since (until own) now))\<rparr>
          else None)"

text \<open>\<open>Ok(self.view(now).unwrap())\<close>.\<close>

definition granted :: "lease \<Rightarrow> instant \<Rightarrow> (lease \<times> lease_view result) option" where
  "granted l now = (case view l now of None \<Rightarrow> None | Some v \<Rightarrow> Some (l, Ok v))"

definition set_until :: "instant \<Rightarrow> lease \<Rightarrow> lease" where
  "set_until t l = l\<lparr>owner := map_option (\<lambda>own. own\<lparr>until := t\<rparr>) (owner l)\<rparr>"

text \<open>The tail of \<open>acquire\<close>: a new epoch for a new owner.\<close>

definition grant_new :: "lease \<Rightarrow> uuid \<Rightarrow> uuid \<Rightarrow> instant \<Rightarrow> (lease \<times> lease_view result) option" where
  "grant_new l cl conn now =
     (case checked_add_u64 (epoch l) 1 of
        None \<Rightarrow> Some (l, Err Internal)
      | Some e \<Rightarrow>
          granted (l\<lparr>epoch := e,
                     owner := Some \<lparr>client = cl, connection = conn, until = now + LEASE_TTL\<rparr>\<rparr>) now)"

definition acquire ::
  "lease \<Rightarrow> uuid \<Rightarrow> uuid \<Rightarrow> bool \<Rightarrow> instant \<Rightarrow> (lease \<times> lease_view result) option" where
  "acquire l cl conn takeover now =
     (case owner l of
        Some own \<Rightarrow>
          if until own > now then
            if client own = cl \<and> connection own = conn then
              granted (set_until (now + LEASE_TTL) l) now
            else if \<not> takeover then Some (l, Err LeaseBusy)
            else grant_new l cl conn now
          else grant_new l cl conn now
      | None \<Rightarrow> grant_new l cl conn now)"

definition verify :: "lease \<Rightarrow> uuid \<Rightarrow> uuid \<Rightarrow> u64 \<Rightarrow> instant \<Rightarrow> unit result" where
  "verify l cl conn e now =
     (case owner l of
        None \<Rightarrow> Err LeaseRequired
      | Some own \<Rightarrow>
          if until own \<le> now \<or> client own \<noteq> cl \<or> connection own \<noteq> conn \<or> epoch l \<noteq> e
          then Err LeaseStale
          else Ok ())"

definition renew ::
  "lease \<Rightarrow> uuid \<Rightarrow> uuid \<Rightarrow> u64 \<Rightarrow> instant \<Rightarrow> (lease \<times> lease_view result) option" where
  "renew l cl conn e now =
     (case verify l cl conn e now of
        Err er \<Rightarrow> Some (l, Err er)
      | Ok _ \<Rightarrow> granted (set_until (now + LEASE_TTL) l) now)"

definition release :: "lease \<Rightarrow> uuid \<Rightarrow> uuid \<Rightarrow> u64 \<Rightarrow> instant \<Rightarrow> lease \<times> unit result" where
  "release l cl conn e now =
     (case verify l cl conn e now of
        Err er \<Rightarrow> (l, Err er)
      | Ok _ \<Rightarrow> (l\<lparr>owner := None\<rparr>, Ok ()))"

definition revoke_connection :: "lease \<Rightarrow> uuid \<Rightarrow> lease" where
  "revoke_connection l i =
     (if (case owner l of None \<Rightarrow> False | Some own \<Rightarrow> connection own = i)
      then l\<lparr>owner := None\<rparr> else l)"

definition revoke_client :: "lease \<Rightarrow> uuid \<Rightarrow> lease" where
  "revoke_client l i =
     (if (case owner l of None \<Rightarrow> False | Some own \<Rightarrow> client own = i)
      then l\<lparr>owner := None\<rparr> else l)"

definition revoke_all :: "lease \<Rightarrow> lease" where
  "revoke_all l = l\<lparr>owner := None\<rparr>"

text \<open>
  The operations as events on a clock: a run is a list of timed operations. An operation
  that panics leaves the lease unchanged in the model of the run; the totality lemmas show
  that this case is empty.
\<close>

datatype lease_op =
    Acquire uuid uuid bool
  | Renew uuid uuid u64
  | Release uuid uuid u64
  | RevokeConnection uuid
  | RevokeClient uuid
  | RevokeAll

fun apply_op :: "instant \<Rightarrow> lease_op \<Rightarrow> lease \<Rightarrow> lease" where
  "apply_op now (Acquire cl conn t) l = (case acquire l cl conn t now of None \<Rightarrow> l | Some r \<Rightarrow> fst r)"
| "apply_op now (Renew cl conn e) l = (case renew l cl conn e now of None \<Rightarrow> l | Some r \<Rightarrow> fst r)"
| "apply_op now (Release cl conn e) l = fst (release l cl conn e now)"
| "apply_op now (RevokeConnection i) l = revoke_connection l i"
| "apply_op now (RevokeClient i) l = revoke_client l i"
| "apply_op now RevokeAll l = revoke_all l"

text \<open>Runs over a clock that does not go back (\<open>Instant\<close> is monotonic).\<close>

inductive lease_run :: "instant \<Rightarrow> lease \<Rightarrow> instant \<Rightarrow> lease \<Rightarrow> bool" where
  run_refl: "t \<le> t' \<Longrightarrow> lease_run t l t' l"
| run_step: "lease_run t l t1 l1 \<Longrightarrow> t1 \<le> t2 \<Longrightarrow> lease_run t l t2 (apply_op t2 op l1)"

definition holds :: "lease \<Rightarrow> uuid \<Rightarrow> uuid \<Rightarrow> u64 \<Rightarrow> instant \<Rightarrow> bool" where
  "holds l cl conn e now \<longleftrightarrow> verify l cl conn e now = Ok ()"

section \<open>Operations\<close>

lemmas lease_defs = acquire_def renew_def release_def verify_def granted_def grant_new_def view_def
  set_until_def revoke_connection_def revoke_client_def revoke_all_def

lemma TTL_pos [simp]: "0 < LEASE_TTL"
  by (simp add: LEASE_TTL_def)

lemma holds_iff:
  "holds l cl conn e now \<longleftrightarrow>
     (\<exists>own. owner l = Some own \<and> now < until own \<and> client own = cl \<and> connection own = conn \<and> epoch l = e)"
  by (auto simp: holds_def verify_def split: option.splits)

lemma acquire_total: "acquire l cl conn t now \<noteq> None"
  by (auto simp: lease_defs split: option.splits)

lemma renew_total: "renew l cl conn e now \<noteq> None"
  by (auto simp: lease_defs split: option.splits if_splits)

lemma acquire_Ok:
  assumes "acquire l cl conn t now = Some (l', Ok v)"
  shows "owner l' = Some \<lparr>client = cl, connection = conn, until = now + LEASE_TTL\<rparr>"
    and "view_epoch v = epoch l'" and "client_id v = cl" and "connection_id v = conn"
    and "remaining_ms v = 15000"
    and "epoch l' = epoch l \<and> (\<exists>own. owner l = Some own \<and> now < until own \<and> client own = cl \<and> connection own = conn)
      \<or> unat (epoch l') = unat (epoch l) + 1"
  using assms
  by (auto simp: lease_defs duration_since_def LEASE_TTL_def secs_def as_millis_def
      dest: checked_add_u64_unat split: option.splits if_splits)

lemma apply_op_epoch_mono: "epoch l \<le> epoch (apply_op now op l)"
proof (cases op)
  case (Acquire cl conn t)
  then show ?thesis
    by (auto simp: lease_defs word_le_nat_alt dest: checked_add_u64_unat split: option.splits if_splits)
qed (auto simp: lease_defs split: option.splits if_splits)

lemma apply_op_same_epoch:
  assumes "epoch (apply_op now op l) = epoch l" and "owner (apply_op now op l) = Some own'"
  shows "\<exists>own. owner l = Some own \<and> client own = client own' \<and> connection own = connection own'
    \<and> (until own' = until own \<or> now < until own)"
  using assms
  by (cases op)
    (auto simp: lease_defs dest: checked_add_u64_unat split: option.splits if_splits)

lemma dead_epoch_step:
  assumes "e \<le> epoch l" and "\<not> holds l cl conn e t" and "t \<le> t'"
  shows "\<not> holds (apply_op t' op l) cl conn e t'"
proof
  assume "holds (apply_op t' op l) cl conn e t'"
  then obtain own' where own': "owner (apply_op t' op l) = Some own'" "t' < until own'"
    "client own' = cl" "connection own' = conn" "epoch (apply_op t' op l) = e"
    by (auto simp: holds_iff)
  have eq: "epoch (apply_op t' op l) = epoch l"
    using apply_op_epoch_mono [of l t' op] own'(5) assms(1) by simp
  obtain own where "owner l = Some own" "client own = cl" "connection own = conn"
    "until own' = until own \<or> t' < until own"
    using apply_op_same_epoch [OF eq own'(1)] own'(3,4) by auto
  moreover from this have "t < until own" using own'(2) assms(3) by auto
  ultimately show False using assms(2) own'(5) eq by (auto simp: holds_iff)
qed

lemma holds_expires: "\<not> holds l cl conn e t \<Longrightarrow> t \<le> t' \<Longrightarrow> \<not> holds l cl conn e t'"
  by (auto simp: holds_iff)

lemma lease_run_epoch_mono: "lease_run t l t' l' \<Longrightarrow> t \<le> t' \<and> epoch l \<le> epoch l'"
  by (induction rule: lease_run.induct) (auto intro: order_trans apply_op_epoch_mono)

section \<open>Properties\<close>

text \<open>The contract of \<open>acquire\<close>: it never panics; on success the caller, with the returned
  epoch, is the only holder of the lease and remains so for exactly 15 seconds; on an error
  the lease is unchanged, and the error is \<open>LeaseBusy\<close>, when another connection holds the
  lease and no takeover was asked for, or \<open>Internal\<close>, when the epoch counter is exhausted.\<close>

theorem acquire_contract:
  "\<exists>l' r. acquire l cl conn takeover now = Some (l', r) \<and>
     (case r of
        Ok v \<Rightarrow> (\<forall>cl' conn' e t'. now \<le> t' \<longrightarrow>
          holds l' cl' conn' e t' = (cl' = cl \<and> conn' = conn \<and> e = view_epoch v \<and> t' < now + LEASE_TTL))
      | Err er \<Rightarrow> l' = l \<and>
          (er = LeaseBusy \<and> \<not> takeover
             \<and> (\<exists>cl' conn' e'. (cl', conn') \<noteq> (cl, conn) \<and> holds l cl' conn' e' now)
           \<or> er = Internal \<and> unat (epoch l) = 2 ^ 64 - 1))"
proof -
  obtain l' r where res: "acquire l cl conn takeover now = Some (l', r)"
    using acquire_total by (metis not_None_eq surj_pair)
  show ?thesis
  proof (cases r)
    case (Inr v)
    with res acquire_Ok(1,2) [of l cl conn takeover now l' v] show ?thesis
      by (auto simp: holds_iff)
  next
    case (Inl er)
    then have "l' = l \<and> (er = LeaseBusy \<and> \<not> takeover
        \<and> (\<exists>cl' conn' e'. (cl', conn') \<noteq> (cl, conn) \<and> holds l cl' conn' e' now)
      \<or> er = Internal \<and> unat (epoch l) = 2 ^ 64 - 1)"
      using res
      by (auto simp: lease_defs holds_iff checked_add_u64_def dest!: u64_at_max split: option.splits if_splits)
    with res Inl show ?thesis by auto
  qed
qed

theorem acquire_contract_witness:
  "(\<exists>l' v. acquire \<lparr>epoch = 4, owner = Some \<lparr>client = 1, connection = 2, until = 10\<rparr>\<rparr> 1 3 True 5 = Some (l', Ok v)
      \<and> holds l' 1 3 5 6 \<and> \<not> holds l' 1 2 4 6)"
proof -
  let ?l = "\<lparr>epoch = 4, owner = Some \<lparr>client = 1, connection = 2, until = 10\<rparr>\<rparr>"
  obtain l' r where r: "acquire ?l 1 3 True 5 = Some (l', r)"
    "(case r of
        Ok v \<Rightarrow> (\<forall>cl' conn' e t'. 5 \<le> t' \<longrightarrow>
          holds l' cl' conn' e t' = (cl' = 1 \<and> conn' = 3 \<and> e = view_epoch v \<and> t' < 5 + LEASE_TTL))
      | Err er \<Rightarrow> l' = ?l \<and>
          (er = LeaseBusy \<and> \<not> True
             \<and> (\<exists>cl' conn' e'. (cl', conn') \<noteq> (1, 3) \<and> holds ?l cl' conn' e' 5)
           \<or> er = Internal \<and> unat (epoch ?l) = 2 ^ 64 - 1))"
    using acquire_contract [of ?l 1 3 True 5] by blast
  then obtain v where v: "r = Ok v" by (cases r) auto
  have "view_epoch v = 5"
    using r(1) v
    by (auto simp: lease_defs checked_add_u64_def LEASE_TTL_def secs_def split: option.splits if_splits)
  with r v show ?thesis by (auto simp: LEASE_TTL_def secs_def)
qed

text \<open>C13. A lost lease never comes back: once a client's grant of epoch \<open>e\<close> no longer holds (it was
  released, revoked, taken over or has expired), then in every later state, after any sequence
  of acquisitions, renewals, releases and revocations, that epoch is not accepted again.\<close>

theorem lost_epoch_is_never_accepted_again:
  assumes "lease_run t l t' l'" and "e \<le> epoch l" and "\<not> holds l cl conn e t"
  shows "\<not> holds l' cl conn e t'"
  using assms
proof (induction rule: lease_run.induct)
  case (run_refl t t' l)
  from run_refl(3,1) show ?case by (rule holds_expires)
next
  case (run_step t l t1 l1 t2 op)
  then have "e \<le> epoch l1" using lease_run_epoch_mono by (meson order_trans)
  with run_step show ?case by (intro dead_epoch_step) auto
qed

theorem lost_epoch_is_never_accepted_again_witness:
  "lease_run 0 \<lparr>epoch = 4, owner = None\<rparr> 1 (apply_op 1 (Acquire 1 2 False) \<lparr>epoch = 4, owner = None\<rparr>)
   \<and> \<not> holds (apply_op 1 (Acquire 1 2 False) \<lparr>epoch = 4, owner = None\<rparr>) 1 2 4 1"
proof -
  let ?l = "\<lparr>epoch = 4, owner = None\<rparr> :: lease"
  have run: "lease_run 0 ?l 1 (apply_op 1 (Acquire 1 2 False) ?l)"
    by (rule run_step [OF run_refl [of 0 0]]) simp_all
  then have "\<not> holds (apply_op 1 (Acquire 1 2 False) ?l) 1 2 4 1"
    by (rule lost_epoch_is_never_accepted_again) (simp_all add: holds_iff)
  with run show ?thesis by simp
qed

end
