(* ===== verification/Input_Ledger.thy ===== *)
theory Input_Ledger
  imports Prelude
begin

text \<open>
  The replay guard of \<open>rc-core/src/input.rs\<close>: per session, the identifiers of the last 1024
  accepted inputs with their delivery status, and the highest accepted sequence number of
  the current lease. The specification of the identifier queue is the list of all accepted
  identifiers, of which it keeps the most recent ones.
\<close>

section \<open>Model\<close>

text \<open>Limits of \<open>rc-core/src/protocol.rs\<close>.\<close>

definition MAX_INPUT :: nat where "MAX_INPUT = 8 * 1024"
definition MAX_PASTE :: nat where "MAX_PASTE = 256 * 1024"
definition MAX_JS_INTEGER :: u64 where "MAX_JS_INTEGER = 9007199254740991"

record input_ledger =
  highest :: "(uuid \<times> u64, u64) hmap"
  ids :: "uuid list"
  outcomes :: "(uuid, string) hmap"
  id_limit :: nat

definition default_ledger :: input_ledger where
  "default_ledger = \<lparr>highest = [], ids = [], outcomes = [], id_limit = 1024\<rparr>"

text \<open>The \<open>while self.ids.len() > self.limit\<close> loop.\<close>

fun trim_ids :: "nat \<Rightarrow> uuid list \<Rightarrow> (uuid, string) hmap \<Rightarrow> uuid list \<times> (uuid, string) hmap" where
  "trim_ids lim [] oc = ([], oc)"
| "trim_ids lim (x # xs) oc =
     (if length (x # xs) > lim then trim_ids lim xs (hm_remove x oc) else (x # xs, oc))"

definition accept_limit ::
  "input_ledger \<Rightarrow> uuid \<Rightarrow> u64 \<Rightarrow> uuid \<Rightarrow> u64 \<Rightarrow> nat \<Rightarrow> nat \<Rightarrow> input_ledger \<times> unit result" where
  "accept_limit l conn lease iid seq nbytes cap =
     (if nbytes = 0 \<or> nbytes > cap \<or> seq = 0 \<or> seq > MAX_JS_INTEGER then (l, Err FrameTooLarge)
      else if hm_contains (outcomes l) iid
           \<or> (case hm_get (highest l) (conn, lease) of None \<Rightarrow> False | Some s \<Rightarrow> seq \<le> s)
      then (l, Err DuplicateInput)
      else
        let hi = hm_insert (conn, lease) seq
                   (hm_retain (\<lambda>k _. fst k = conn \<and> snd k = lease) (highest l));
            (is, oc) = trim_ids (id_limit l) (ids l @ [iid]) (hm_insert iid ''accepted'' (outcomes l))
        in (l\<lparr>highest := hi, ids := is, outcomes := oc\<rparr>, Ok ()))"

definition accept ::
  "input_ledger \<Rightarrow> uuid \<Rightarrow> u64 \<Rightarrow> uuid \<Rightarrow> u64 \<Rightarrow> nat \<Rightarrow> input_ledger \<times> unit result" where
  "accept l conn lease iid seq nbytes = accept_limit l conn lease iid seq nbytes MAX_INPUT"

definition accept_paste ::
  "input_ledger \<Rightarrow> uuid \<Rightarrow> u64 \<Rightarrow> uuid \<Rightarrow> u64 \<Rightarrow> nat \<Rightarrow> input_ledger \<times> unit result" where
  "accept_paste l conn lease iid seq nbytes = accept_limit l conn lease iid seq nbytes MAX_PASTE"

definition finish :: "input_ledger \<Rightarrow> uuid \<Rightarrow> string \<Rightarrow> input_ledger" where
  "finish l iid status =
     (case hm_get (outcomes l) iid of
        None \<Rightarrow> l
      | Some _ \<Rightarrow> l\<lparr>outcomes := hm_insert iid status (outcomes l)\<rparr>)"

definition status :: "input_ledger \<Rightarrow> uuid \<Rightarrow> string option" where
  "status l iid = hm_get (outcomes l) iid"

text \<open>The invariant: the queue and the status table have the same identifiers.\<close>

definition ledger_wf :: "input_ledger \<Rightarrow> bool" where
  "ledger_wf l \<longleftrightarrow> distinct (ids l) \<and> hm_wf (outcomes l) \<and> fst ` set (outcomes l) = set (ids l)
     \<and> length (ids l) \<le> id_limit l \<and> hm_wf (highest l) \<and> length (highest l) \<le> 1"

section \<open>The identifier window\<close>

lemma trim_ids_fst: "fst (trim_ids lim xs oc) = drop (length xs - lim) xs"
  by (induction lim xs oc rule: trim_ids.induct) (auto simp: Suc_diff_le)

lemma fst_set_remove: "fst ` set (hm_remove x m) = fst ` set m - {x}"
  by (force simp: hm_remove_def)

lemma fst_set_insert: "fst ` set (hm_insert k v m) = insert k (fst ` set m)"
  by (simp add: hm_insert_def dom_update)

lemma trim_ids_outcomes:
  assumes "distinct xs" and "hm_wf oc" and "fst ` set oc = set xs"
  shows "hm_wf (snd (trim_ids lim xs oc))
    \<and> fst ` set (snd (trim_ids lim xs oc)) = set (fst (trim_ids lim xs oc))"
  using assms
  by (induction lim xs oc rule: trim_ids.induct) (auto simp: fst_set_remove)

lemma hm_contains_iff: "hm_contains m k \<longleftrightarrow> k \<in> fst ` set m"
  by (simp add: map_of_eq_None_iff)

lemma ledger_wf_default [simp]: "ledger_wf default_ledger"
  by (simp add: ledger_wf_def default_ledger_def)

lemma accept_limit_Ok_iff:
  "snd (accept_limit l conn lease iid seq n cap) = Ok () \<longleftrightarrow>
     0 < n \<and> n \<le> cap \<and> seq \<noteq> 0 \<and> seq \<le> MAX_JS_INTEGER \<and> \<not> hm_contains (outcomes l) iid
     \<and> (case hm_get (highest l) (conn, lease) of None \<Rightarrow> True | Some s \<Rightarrow> s < seq)"
  by (auto simp: accept_limit_def Let_def not_less not_le split: option.splits prod.splits)

lemma accept_limit_Err:
  "snd (accept_limit l conn lease iid seq n cap) = Err e \<Longrightarrow> fst (accept_limit l conn lease iid seq n cap) = l"
  by (auto simp: accept_limit_def Let_def split: if_splits prod.splits)

lemma accept_limit_fields:
  assumes "snd (accept_limit l conn lease iid seq n cap) = Ok ()"
  defines "l' \<equiv> fst (accept_limit l conn lease iid seq n cap)"
  shows "ids l' = drop (length (ids l) + 1 - id_limit l) (ids l @ [iid])"
    and "id_limit l' = id_limit l"
    and "highest l' = hm_insert (conn, lease) seq
           (hm_retain (\<lambda>k _. fst k = conn \<and> snd k = lease) (highest l))"
    and "outcomes l' = snd (trim_ids (id_limit l) (ids l @ [iid]) (hm_insert iid ''accepted'' (outcomes l)))"
proof -
  have "l' = l\<lparr>highest := hm_insert (conn, lease) seq
           (hm_retain (\<lambda>k _. fst k = conn \<and> snd k = lease) (highest l)),
      ids := fst (trim_ids (id_limit l) (ids l @ [iid]) (hm_insert iid ''accepted'' (outcomes l))),
      outcomes := snd (trim_ids (id_limit l) (ids l @ [iid]) (hm_insert iid ''accepted'' (outcomes l)))\<rparr>"
    using assms(1) unfolding l'_def
    by (auto simp: accept_limit_def Let_def split: if_splits prod.splits)
  then show "ids l' = drop (length (ids l) + 1 - id_limit l) (ids l @ [iid])"
    and "id_limit l' = id_limit l"
    and "highest l' = hm_insert (conn, lease) seq
           (hm_retain (\<lambda>k _. fst k = conn \<and> snd k = lease) (highest l))"
    and "outcomes l' = snd (trim_ids (id_limit l) (ids l @ [iid]) (hm_insert iid ''accepted'' (outcomes l)))"
    by (simp_all add: trim_ids_fst)
qed

lemma retain_same_key:
  assumes "hm_wf m"
  shows "hm_retain (\<lambda>k _. fst k = fst key \<and> snd k = snd key) m =
    (case hm_get m key of None \<Rightarrow> [] | Some v \<Rightarrow> [(key, v)])"
  using assms
proof (induction m)
  case Nil
  then show ?case by (simp add: hm_retain_def)
next
  case (Cons e m)
  have "hm_retain (\<lambda>k _. fst k = fst key \<and> snd k = snd key) m = []" if "fst e = key"
    using that Cons.prems by (auto simp: hm_retain_def hm_wf_def filter_empty_conv prod_eq_iff image_iff)
  with Cons show ?case
    by (auto simp: hm_retain_def hm_wf_def prod_eq_iff split: option.splits)
qed

lemma highest_after_accept:
  assumes "hm_wf (highest l)" and "snd (accept_limit l conn lease iid seq n cap) = Ok ()"
  shows "highest (fst (accept_limit l conn lease iid seq n cap)) = [((conn, lease), seq)]"
  using retain_same_key [OF assms(1), of "(conn, lease)"] accept_limit_fields(3) [OF assms(2)]
  by (auto simp: hm_insert_def split: option.splits)

lemma ledger_wf_accept_limit:
  assumes wf: "ledger_wf l"
  shows "ledger_wf (fst (accept_limit l conn lease iid seq n cap))"
proof (cases "snd (accept_limit l conn lease iid seq n cap)")
  case (Inl e)
  then show ?thesis using accept_limit_Err wf by metis
next
  case (Inr u)
  then have ok: "snd (accept_limit l conn lease iid seq n cap) = Ok ()" by simp
  let ?l' = "fst (accept_limit l conn lease iid seq n cap)"
  let ?oc = "hm_insert iid ''accepted'' (outcomes l)"
  have new: "iid \<notin> set (ids l)"
    using ok wf unfolding accept_limit_Ok_iff hm_contains_iff ledger_wf_def by simp
  have "hm_wf (snd (trim_ids (id_limit l) (ids l @ [iid]) ?oc))
    \<and> fst ` set (snd (trim_ids (id_limit l) (ids l @ [iid]) ?oc)) = set (fst (trim_ids (id_limit l) (ids l @ [iid]) ?oc))"
    using wf new by (intro trim_ids_outcomes) (auto simp: ledger_wf_def fst_set_insert)
  moreover have "distinct (ids ?l')"
    unfolding accept_limit_fields(1) [OF ok]
    by (rule distinct_drop) (use wf new in \<open>auto simp: ledger_wf_def\<close>)
  ultimately show ?thesis
    using wf new accept_limit_fields(1,2,4) [OF ok] highest_after_accept [OF _ ok]
    by (auto simp: ledger_wf_def trim_ids_fst hm_wf_def [of "[_]"])
qed

lemma ledger_wf_finish: "ledger_wf l \<Longrightarrow> ledger_wf (finish l iid st)"
  using hm_contains_iff [of "outcomes l" iid]
  by (auto simp: finish_def ledger_wf_def fst_set_insert insert_absorb split: option.splits)

lemma finish_fields [simp]:
  "ids (finish l i st) = ids l" "highest (finish l i st) = highest l" "id_limit (finish l i st) = id_limit l"
  by (simp_all add: finish_def split: option.splits)

section \<open>Histories of accepted inputs\<close>

text \<open>Any sequence of calls on the ledger, with the identifiers it accepted, oldest first.\<close>

inductive ledger_run :: "input_ledger \<Rightarrow> uuid list \<Rightarrow> bool" where
  ledger_start: "ledger_run default_ledger []"
| ledger_accept: "ledger_run l hist \<Longrightarrow> accept_limit l conn lease iid seq n cap = (l', Ok ())
    \<Longrightarrow> ledger_run l' (hist @ [iid])"
| ledger_reject: "ledger_run l hist \<Longrightarrow> accept_limit l conn lease iid seq n cap = (l', Err e)
    \<Longrightarrow> ledger_run l' hist"
| ledger_finish: "ledger_run l hist \<Longrightarrow> ledger_run (finish l iid st) hist"

lemma ledger_run_window:
  "ledger_run l hist \<Longrightarrow> ledger_wf l \<and> id_limit l = 1024 \<and> ids l = drop (length hist - 1024) hist"
proof (induction rule: ledger_run.induct)
  case ledger_start
  then show ?case by (simp add: default_ledger_def)
     (simp add: default_ledger_def [symmetric])
next
  case (ledger_accept l hist conn lease iid seq n cap l')
  then have ok: "snd (accept_limit l conn lease iid seq n cap) = Ok ()"
    and l': "l' = fst (accept_limit l conn lease iid seq n cap)" by simp_all
  have "ledger_wf l'" using ledger_accept.IH by (simp add: l' ledger_wf_accept_limit)
  moreover have "ids l' = drop (Suc (length hist) - 1024) (hist @ [iid])"
  proof (cases "length hist \<le> 1024")
    case True
    then show ?thesis using accept_limit_fields(1) [OF ok] ledger_accept.IH by (simp add: l')
  next
    case False
    then have "length hist - 1023 = Suc (length hist - 1024)" by simp
    with False show ?thesis
      using accept_limit_fields(1) [OF ok] ledger_accept.IH by (simp add: l')
  qed
  ultimately show ?case using accept_limit_fields(2) [OF ok] ledger_accept.IH by (simp add: l')
next
  case (ledger_reject l hist conn lease iid seq n cap l' e)
  then show ?case using accept_limit_Err [of l conn lease iid seq n cap e] by simp
next
  case (ledger_finish l hist iid st)
  then show ?case by (simp add: ledger_wf_finish)
qed

section \<open>Properties\<close>

text \<open>The exact acceptance condition of the ledger and its effect: \<open>accept_limit\<close> accepts an
  input if and only if its size and sequence number are in range, its identifier is not among
  the remembered ones and its sequence number exceeds the last one accepted under the same
  lease; a rejected input changes nothing; and the well-formedness of the ledger (status table
  and identifier queue agree, at most \<open>id_limit\<close> identifiers, one sequence counter) is kept.\<close>

theorem accept_limit_contract:
  assumes "ledger_wf l"
  shows "(snd (accept_limit l conn lease iid seq n cap) = Ok ()) =
      (0 < n \<and> n \<le> cap \<and> seq \<noteq> 0 \<and> seq \<le> MAX_JS_INTEGER \<and> iid \<notin> set (ids l)
       \<and> (case hm_get (highest l) (conn, lease) of None \<Rightarrow> True | Some s \<Rightarrow> s < seq))
    \<and> (snd (accept_limit l conn lease iid seq n cap) = Ok ()
       \<or> fst (accept_limit l conn lease iid seq n cap) = l)
    \<and> ledger_wf (fst (accept_limit l conn lease iid seq n cap))"
proof -
  have "hm_contains (outcomes l) iid \<longleftrightarrow> iid \<in> set (ids l)"
    using assms unfolding hm_contains_iff by (simp add: ledger_wf_def)
  moreover have "snd (accept_limit l conn lease iid seq n cap) = Ok ()
       \<or> fst (accept_limit l conn lease iid seq n cap) = l"
    using accept_limit_Err [of l conn lease iid seq n cap]
    by (cases "snd (accept_limit l conn lease iid seq n cap)") auto
  ultimately show ?thesis using ledger_wf_accept_limit [OF assms] by (simp add: accept_limit_Ok_iff)
qed

theorem accept_limit_contract_witness:
  "ledger_wf default_ledger \<and> snd (accept default_ledger 1 1 9 1 5) = Ok ()
   \<and> ledger_wf (fst (accept default_ledger 1 1 9 1 5))"
  using accept_limit_contract [of default_ledger 1 1 9 1 5 MAX_INPUT]
  by (simp add: accept_def) (simp add: default_ledger_def MAX_INPUT_def MAX_JS_INTEGER_def)

text \<open>C14. No replay within the window: after any history of accepted inputs, an input whose
  identifier is one of the last 1024 accepted is never accepted again, whatever connection,
  lease, sequence number or size it carries.\<close>

theorem recent_input_ids_are_not_accepted_again:
  assumes "ledger_run l hist" and "iid \<in> set (drop (length hist - 1024) hist)"
  shows "snd (accept_limit l conn lease iid seq n cap) \<noteq> Ok ()"
proof -
  have "ledger_wf l" "iid \<in> set (ids l)" using ledger_run_window [OF assms(1)] assms(2) by auto
  then have "hm_contains (outcomes l) iid" unfolding hm_contains_iff by (simp add: ledger_wf_def)
  then show ?thesis unfolding accept_limit_Ok_iff by blast
qed

theorem recent_input_ids_are_not_accepted_again_witness:
  "ledger_run (fst (accept default_ledger 1 1 9 1 5)) [9]
   \<and> snd (accept (fst (accept default_ledger 1 1 9 1 5)) 1 1 9 2 5) \<noteq> Ok ()"
proof -
  have "accept_limit default_ledger 1 1 9 1 5 MAX_INPUT = (fst (accept default_ledger 1 1 9 1 5), Ok ())"
    by (simp add: accept_def accept_limit_def default_ledger_def MAX_INPUT_def MAX_JS_INTEGER_def Let_def)
  from ledger_accept [OF ledger_start this]
  have run: "ledger_run (fst (accept default_ledger 1 1 9 1 5)) [9]" by simp
  from recent_input_ids_are_not_accepted_again [OF run, of 9 1 1 2 5 MAX_INPUT] run
  show ?thesis by (simp add: accept_def)
qed

end
