(* ===== verification/Protocol.thy ===== *)
theory Protocol
  imports Rust_Strings Input_Lease Input_Ledger
begin

text \<open>
  The data exchanged with clients: \<open>rc-core/src/protocol.rs\<close> and the error body of
  \<open>rc-core/src/error.rs\<close>. Session identifiers, sequences and epochs keep their widths; a
  \<open>String\<close> is its bytes.
\<close>

section \<open>Model\<close>

definition PROTOCOL_MAJOR :: u16 where "PROTOCOL_MAJOR = 1"
definition MAX_SESSIONS :: nat where "MAX_SESSIONS = 8"
definition MAX_COLS :: u16 where "MAX_COLS = 400"
definition MAX_ROWS :: u16 where "MAX_ROWS = 150"

datatype scope =
    TerminalRead
  | TerminalWrite
  | TerminalCreate
  | TerminalClose
  | PreviewRead
  | WindowView
  | WindowControl
  | DesktopView
  | DesktopControl
  | AdminDevices
  | AdminSettings

definition owner_scopes :: "scope list" where
  "owner_scopes =
     [TerminalRead, TerminalWrite, TerminalCreate, TerminalClose, PreviewRead, AdminDevices, AdminSettings]"

record create_session =
  cs_label :: str
  cs_project_id :: "uuid option"
  cs_cwd :: str
  cs_profile :: str
  cs_cols :: u16
  cs_rows :: u16

datatype lifecycle = Starting | Running | Closing | Exited | Lost

record session_info =
  si_session_id :: uuid
  si_project_id :: "uuid option"
  si_label :: str
  si_initial_cwd :: str
  si_profile :: str
  si_agent_epoch :: uuid
  si_generation :: u32
  si_state :: lifecycle
  si_cols :: u16
  si_rows :: u16
  si_output_seq :: str
  si_pid :: "u32 option"
  si_process_created :: "str option"
  si_program_path :: "str option"
  si_last_activity_at :: "str option"
  si_composer_allowed :: bool
  si_lease :: "lease_view option"

datatype input_payload =
    Utf8_payload str
  | Binary_payload str

datatype control_message =
    LeaseAcquire uuid uuid bool
  | LeaseRenew uuid uuid u64
  | LeaseRelease uuid uuid u64
  | Input uuid uuid uuid u32 u64 uuid u64 input_payload
  | Resize uuid uuid uuid u32 u64 u16 u16
  | RefreshAuth uuid str
  | Ping uuid

fun request_id :: "control_message \<Rightarrow> uuid" where
  "request_id (LeaseAcquire r _ _) = r"
| "request_id (LeaseRenew r _ _) = r"
| "request_id (LeaseRelease r _ _) = r"
| "request_id (Input r _ _ _ _ _ _ _) = r"
| "request_id (Resize r _ _ _ _ _ _) = r"
| "request_id (RefreshAuth r _) = r"
| "request_id (Ping r) = r"

datatype stream_message =
    StreamRefreshAuth str
  | Applied str u32
  | StreamPing

record snapshot_meta =
  sm_cols :: u16
  sm_rows :: u16
  sm_sequence :: str
  sm_generation :: u32
  sm_agent_epoch :: uuid
  sm_fidelity :: str
  sm_warnings :: "str list"
  sm_bytes :: nat

text \<open>\<open>ApiError\<close> and its conversion from \<open>ErrorCode\<close> (the text of a code is its \<open>Display\<close>).\<close>

fun error_text :: "error_code \<Rightarrow> string" where
  "error_text Unauthenticated = ''Authentication is required''"
| "error_text Forbidden = ''This device does not have permission''"
| "error_text DeviceRevoked = ''Device authorization was revoked''"
| "error_text LeaseRequired = ''Input control is required''"
| "error_text LeaseStale = ''The input lease is no longer valid''"
| "error_text LeaseBusy = ''Another connection owns input control''"
| "error_text SessionGenerationMismatch = ''Session generation mismatch''"
| "error_text HostRestarted = ''Host restarted; reconnect before sending input''"
| "error_text SessionLost = ''Session is not running''"
| "error_text InputDeliveryUnknown = ''Input may have been partially delivered; do not replay automatically''"
| "error_text DuplicateInput = ''Input ID or sequence was already consumed''"
| "error_text InputCanceled = ''Queued input was canceled before PTY write''"
| "error_text FrameTooLarge = ''Message or buffer exceeds its limit''"
| "error_text RateLimited = ''Rate or resource limit reached''"
| "error_text ResyncRequired = ''A new terminal snapshot is required''"
| "error_text PreviewNotApproved = ''Preview is not approved''"
| "error_text UpstreamChanged = ''Upstream process identity changed''"
| "error_text CaptureUnsupported = ''Capture is not available on this build''"
| "error_text SourceStale = ''Source geometry or frame is stale''"
| "error_text DesktopLocked = ''The interactive desktop is locked or unavailable''"
| "error_text ElevationRequired = ''Target integrity or foreground does not permit input''"
| "error_text MediaUnavailable = ''The media pipeline has not passed the platform gate''"
| "error_text OriginRejected = ''Origin or Host is not approved''"
| "error_text InvalidRequest = ''Invalid request''"
| "error_text Internal = ''Service failure; see local diagnostic metadata''"

record api_error =
  code :: error_code
  message :: string
  retryable :: bool
  ae_request_id :: "str option"

definition api_error_from :: "error_code \<Rightarrow> api_error" where
  "api_error_from c =
     \<lparr>code = c, message = error_text c, retryable = (c \<in> {RateLimited, ResyncRequired}), ae_request_id = None\<rparr>"

end
