(* ===== verification/Session_Output.thy ===== *)
theory Session_Output
  imports Event_Ring Vt_Fence Protocol
begin

text \<open>
  The output side of a session, \<open>OutputState\<close> of \<open>rc-agent/src/session.rs\<close>: the reader thread
  pushes what it reads through the fence, batches the tokens into frames with consecutive
  sequence numbers, keeps them in the replay ring and broadcasts them; a resize adds a frame of
  its own.

  \<^item> The terminal emulator is third-party code: the record \<open>emulator\<close> has the operations of
    \<open>TerminalModel\<close> that the session calls.
  \<^item> The broadcast channel is the list of the frames sent so far.
\<close>

section \<open>Model\<close>

record 'm emulator =
  em_apply :: "'m \<Rightarrow> bytes \<Rightarrow> 'm"
  em_resize :: "'m \<Rightarrow> u16 \<Rightarrow> u16 \<Rightarrow> 'm"
  em_size :: "'m \<Rightarrow> u16 \<times> u16"
  em_snapshot :: "'m \<Rightarrow> bytes"
  em_bracketed :: "'m \<Rightarrow> bool"
  em_warnings :: "'m \<Rightarrow> str list"

record 'm output_state =
  model :: 'm
  fence :: vt_fence
  ring :: event_ring
  out_seq :: u64
  broadcast :: "frame list"

definition new_output :: "'m \<Rightarrow> nat \<Rightarrow> 'm output_state" where
  "new_output m ring_limit =
     \<lparr>model = m, fence = default_fence, ring = new ring_limit, out_seq = 0, broadcast = []\<rparr>"

text \<open>The common tail of \<open>emit\<close> and \<open>commit_resize\<close>: number the frame, keep it, broadcast it.\<close>

definition publish :: "u8 \<Rightarrow> session_info \<Rightarrow> bytes \<Rightarrow> 'm output_state \<Rightarrow> 'm output_state" where
  "publish k m data o' =
     (let seq = out_seq o' + 1;
          (r, event) = push (ring o') \<lparr>kind = k, session_id = si_session_id m, generation = si_generation m,
            sequence = seq, payload = data\<rparr>
      in o'\<lparr>out_seq := seq, ring := r, broadcast := broadcast o' @ [event]\<rparr>)"

text \<open>The session's metadata, shared by its threads, with its output state.\<close>

type_synonym 'm live = "session_info \<times> 'm output_state"

text \<open>\<open>emit\<close> also notes the activity time; \<open>wall\<close> is the system time in milliseconds.\<close>

definition emit :: "nat \<Rightarrow> session_info \<Rightarrow> bytes \<Rightarrow> 'm live \<Rightarrow> 'm live" where
  "emit wall m data s = (case s of (meta, o') \<Rightarrow>
     (meta\<lparr>si_last_activity_at := Some (dec wall)\<rparr>, publish OUTPUT m data o'))"

text \<open>One token of the batching loop of \<open>reader_loop\<close>.\<close>

definition batch_token ::
    "'m emulator \<Rightarrow> nat \<Rightarrow> session_info \<Rightarrow> 'm live \<times> bytes \<Rightarrow> bytes \<Rightarrow> 'm live \<times> bytes" where
  "batch_token em wall m s tok = (case s of ((meta, o'), batch) \<Rightarrow>
     (let o1 = o'\<lparr>model := em_apply em (model o') tok\<rparr> in
      if length batch + length tok > MAX_PAYLOAD \<and> batch \<noteq> []
      then (emit wall m batch (meta, o1), tok)
      else ((meta, o1), batch @ tok)))"

text \<open>One iteration of \<open>reader_loop\<close> for the bytes of one read.\<close>

definition read_chunk :: "'m emulator \<Rightarrow> nat \<Rightarrow> bytes \<Rightarrow> 'm live \<Rightarrow> 'm live" where
  "read_chunk em wall buf s = (case s of (m, o') \<Rightarrow>
     (let (f, tokens) = push_bytes (fence o') buf;
          (s1, batch) = foldl (batch_token em wall m) ((m, o'\<lparr>fence := f\<rparr>), []) tokens
      in if batch \<noteq> [] then emit wall m batch s1 else s1))"

text \<open>The loop ends at the first read that fails or returns no bytes; each read has its time.\<close>

fun reader_loop :: "'m emulator \<Rightarrow> (nat \<times> bytes) list \<Rightarrow> 'm live \<Rightarrow> 'm live" where
  "reader_loop em [] s = s"
| "reader_loop em ((wall, buf) # reads) s =
     (if buf = [] then s else reader_loop em reads (read_chunk em wall buf s))"

definition commit_resize ::
    "'m emulator \<Rightarrow> u16 \<Rightarrow> u16 \<Rightarrow> 'm live \<Rightarrow> 'm live" where
  "commit_resize em cols rows s = (case s of (m, o') \<Rightarrow>
     (let o1 = o'\<lparr>model := em_resize em (model o') cols rows\<rparr>;
          m1 = m\<lparr>si_cols := cols, si_rows := rows\<rparr>
      in (m1, publish RESIZE m1 (be_bytes 2 (unat cols) @ be_bytes 2 (unat rows)) o1)))"

definition subscribe_snapshot ::
    "'m emulator \<Rightarrow> session_info \<Rightarrow> 'm output_state \<Rightarrow> (snapshot_meta \<times> bytes) result" where
  "subscribe_snapshot em m o' =
     (let data = em_snapshot em (model o') in
      if length data > 4 * 1024 * 1024 then Err FrameTooLarge
      else Ok (\<lparr>sm_cols = fst (em_size em (model o')), sm_rows = snd (em_size em (model o')),
                sm_sequence = dec (unat (out_seq o')), sm_generation = si_generation m,
                sm_agent_epoch = si_agent_epoch m, sm_fidelity = lit ''experimental_vt_snapshot'',
                sm_warnings = em_warnings em (model o'), sm_bytes = length data\<rparr>, data))"

definition ring_after :: "'m output_state \<Rightarrow> u64 \<Rightarrow> frame list result" where
  "ring_after o' seq = after (ring o') seq"

section \<open>Invariant\<close>

text \<open>The ring is the log of the broadcast frames, which are numbered from one without a gap.\<close>

definition out_wf :: "'m output_state \<Rightarrow> bool" where
  "out_wf o' \<longleftrightarrow> fence_wf (fence o') \<and> ring o' = ring_log (limit (ring o')) (broadcast o')
     \<and> unat (out_seq o') = length (broadcast o') \<and> run_from 1 (broadcast o')"

text \<open>Room in the 64-bit sequence for the frames that a step publishes.\<close>

definition out_room :: "nat \<Rightarrow> 'm output_state \<Rightarrow> bool" where
  "out_room n o' \<longleftrightarrow> length (broadcast o') + n < 2 ^ 64"

section \<open>Lemmas\<close>

lemma publish_fields [simp]:
  "model (publish k m d o') = model o'" "fence (publish k m d o') = fence o'"
  "broadcast (publish k m d o') = broadcast o' @ [\<lparr>kind = k, session_id = si_session_id m,
     generation = si_generation m, sequence = out_seq o' + 1, payload = d\<rparr>]"
  "out_seq (publish k m d o') = out_seq o' + 1"
  by (simp_all add: publish_def push_def Let_def)

lemma ring_publish: "ring (publish k m d o') = fst (push (ring o') \<lparr>kind = k, session_id = si_session_id m,
     generation = si_generation m, sequence = out_seq o' + 1, payload = d\<rparr>)"
  by (simp add: publish_def Let_def split: prod.splits)

lemma limit_ring_log [simp]: "limit (ring_log lim h) = lim"
  using ring_log_wf by blast

lemma out_wf_new [simp]: "out_wf (new_output m lim)"
  by (simp add: out_wf_def new_output_def ring_log_def)

lemma out_wf_publish:
  assumes "out_wf o'" "out_room 1 o'"
  shows "out_wf (publish k m d o') \<and> limit (ring (publish k m d o')) = limit (ring o')"
proof -
  have wf: "ring o' = ring_log (limit (ring o')) (broadcast o')" "unat (out_seq o') = length (broadcast o')"
    using assms(1) by (simp_all add: out_wf_def)
  have r: "ring (publish k m d o') = ring_log (limit (ring o')) (broadcast (publish k m d o'))"
    unfolding ring_publish publish_fields(3) ring_log_snoc wf(1) [symmetric] ..
  have s: "unat (out_seq o' + 1) = Suc (length (broadcast o'))"
    using assms(2) wf(2) unat_add_u64 [of "out_seq o'" 1] by (simp add: out_room_def)
  have "limit (ring (publish k m d o')) = limit (ring o')" unfolding r by simp
  then show ?thesis using assms(1) r s by (simp add: out_wf_def run_from_append)
qed

lemma out_wf_model [simp]: "out_wf (o'\<lparr>model := x\<rparr>) = out_wf o'"
  by (simp add: out_wf_def)

lemma out_wf_fence: "out_wf o' \<Longrightarrow> fence_wf f \<Longrightarrow> out_wf (o'\<lparr>fence := f\<rparr>)"
  by (simp add: out_wf_def)

text \<open>The payloads of the output frames, in order.\<close>

definition output_bytes :: "frame list \<Rightarrow> bytes" where
  "output_bytes fs = concat (map payload (filter (\<lambda>f. kind f = OUTPUT) fs))"

lemma output_bytes_append [simp]: "output_bytes (a @ b) = output_bytes a @ output_bytes b"
  by (simp add: output_bytes_def)

text \<open>
  The batching loop: the frames it publishes and the batch it leaves hold the bytes of the
  tokens in order, and a batch is within the payload limit or is a single token.
\<close>

definition small :: "bytes set \<Rightarrow> bytes \<Rightarrow> bool" where
  "small T b \<longleftrightarrow> length b \<le> MAX_PAYLOAD \<or> b \<in> T"

definition output_frame :: "bytes set \<Rightarrow> session_info \<Rightarrow> frame \<Rightarrow> bool" where
  "output_frame T m f \<longleftrightarrow> kind f = OUTPUT \<and> session_id f = si_session_id m \<and> generation f = si_generation m
     \<and> payload f \<noteq> [] \<and> small T (payload f)"

definition same_identity :: "session_info \<Rightarrow> session_info \<Rightarrow> bool" where
  "same_identity m m' \<longleftrightarrow> (\<exists>t. m' = m\<lparr>si_last_activity_at := t\<rparr>)"

definition batched ::
    "'m emulator \<Rightarrow> bytes set \<Rightarrow> session_info \<Rightarrow> bytes list \<Rightarrow> 'm live \<times> bytes \<Rightarrow> 'm live \<times> bytes \<Rightarrow> bool" where
  "batched em T m toks x y \<longleftrightarrow> (\<exists>fs. broadcast (snd (fst y)) = broadcast (snd (fst x)) @ fs
     \<and> length fs \<le> length toks \<and> list_all (output_frame T m) fs \<and> small T (snd y)
     \<and> output_bytes fs @ snd y = snd x @ concat toks
     \<and> out_wf (snd (fst y)) \<and> limit (ring (snd (fst y))) = limit (ring (snd (fst x)))
     \<and> fence (snd (fst y)) = fence (snd (fst x))
     \<and> model (snd (fst y)) = foldl (em_apply em) (model (snd (fst x))) toks
     \<and> same_identity (fst (fst x)) (fst (fst y)))"

lemma same_identity_refl [simp]: "same_identity m m"
  unfolding same_identity_def by (intro exI [of _ "si_last_activity_at m"]) simp

lemma same_identity_trans: "same_identity a b \<Longrightarrow> same_identity b c \<Longrightarrow> same_identity a c"
  by (auto simp: same_identity_def)

lemma emit_simps [simp]:
  "snd (emit wall m d s) = publish OUTPUT m d (snd s)" "same_identity (fst s) (fst (emit wall m d s))"
  by (auto simp: emit_def same_identity_def split: prod.splits)

lemma output_bytes_publish [simp]:
  "output_bytes (broadcast (publish OUTPUT m d o')) = output_bytes (broadcast o') @ d"
  by (simp add: output_bytes_def)

lemma batched_trans: "batched em T m ts x y \<Longrightarrow> batched em T m us y z \<Longrightarrow> batched em T m (ts @ us) x z"
proof -
  assume "batched em T m ts x y" "batched em T m us y z"
  then obtain fs gs where
    "broadcast (snd (fst y)) = broadcast (snd (fst x)) @ fs" "length fs \<le> length ts" "list_all (output_frame T m) fs"
    "output_bytes fs @ snd y = snd x @ concat ts" "same_identity (fst (fst x)) (fst (fst y))"
    "broadcast (snd (fst z)) = broadcast (snd (fst y)) @ gs" "length gs \<le> length us" "list_all (output_frame T m) gs"
    "output_bytes gs @ snd z = snd y @ concat us" "same_identity (fst (fst y)) (fst (fst z))"
    unfolding batched_def by blast
  moreover from this have "output_bytes (fs @ gs) @ snd z = snd x @ concat (ts @ us)"
    by (metis append_assoc concat_append output_bytes_append)
  ultimately show ?thesis
    using \<open>batched em T m ts x y\<close> \<open>batched em T m us y z\<close> unfolding batched_def
    by (intro exI [of _ "fs @ gs"]) (auto intro: same_identity_trans)
qed

lemma batch_token_eq:
  "batch_token em wall m ((meta, o'), b) t =
     (if length b + length t > MAX_PAYLOAD \<and> b \<noteq> []
      then (emit wall m b (meta, o'\<lparr>model := em_apply em (model o') t\<rparr>), t)
      else ((meta, o'\<lparr>model := em_apply em (model o') t\<rparr>), b @ t))"
  by (simp add: batch_token_def Let_def)

lemma batched_token:
  assumes "out_wf (snd s)" "out_room 1 (snd s)" "small T b" "t \<in> T"
  shows "batched em T m [t] (s, b) (batch_token em wall m (s, b) t)"
proof -
  obtain meta o' where s: "s = (meta, o')" by (cases s)
  let ?o1 = "o'\<lparr>model := em_apply em (model o') t\<rparr>"
  have wf: "out_wf ?o1" "out_room 1 ?o1" using assms by (simp_all add: s out_room_def)
  show ?thesis
  proof (cases "length b + length t > MAX_PAYLOAD \<and> b \<noteq> []")
    case True
    let ?f = "\<lparr>kind = OUTPUT, session_id = si_session_id m, generation = si_generation m, sequence = out_seq o' + 1, payload = b\<rparr>"
    have "output_frame T m ?f" using True assms(3) by (simp add: output_frame_def)
    then show ?thesis
      using True assms(4) out_wf_publish [OF wf, of OUTPUT m b] emit_simps(2) [of "(meta, ?o1)" wall m b]
      unfolding batched_def s batch_token_eq by (intro exI [of _ "[?f]"]) (auto simp: small_def output_bytes_def)
  next
    case False
    then show ?thesis
      using assms wf unfolding batched_def s batch_token_eq
      by (intro exI [of _ "[]"]) (auto simp: small_def output_bytes_def)
  qed
qed

lemma batched_refl: "out_wf (snd s) \<Longrightarrow> small T b \<Longrightarrow> batched em T m [] (s, b) (s, b)"
  unfolding batched_def by (intro exI [of _ "[]"]) (simp add: output_bytes_def)

lemma batched_loop:
  assumes "out_wf (snd s)" "out_room (length toks) (snd s)" "small T b" "set toks \<subseteq> T"
  shows "batched em T m toks (s, b) (foldl (batch_token em wall m) (s, b) toks)"
  using assms
proof (induction toks arbitrary: s b)
  case Nil
  then show ?case by (simp add: batched_refl)
next
  case (Cons t toks)
  obtain s1 b1 where s1: "batch_token em wall m (s, b) t = (s1, b1)" by (cases "batch_token em wall m (s, b) t")
  have one: "batched em T m [t] (s, b) (s1, b1)"
    using batched_token [of s T b t em m wall] Cons.prems s1 by (simp add: out_room_def)
  then have "out_wf (snd s1)" "small T b1" "out_room (length toks) (snd s1)"
    using Cons.prems(2) by (auto simp: batched_def out_room_def)
  with Cons.IH Cons.prems(4) have "batched em T m toks (s1, b1) (foldl (batch_token em wall m) (s1, b1) toks)" by simp
  from batched_trans [OF one this] show ?case by (simp add: s1)
qed

text \<open>One read: the frames it publishes carry exactly what the fence released.\<close>

definition published ::
    "'m emulator \<Rightarrow> bytes list \<Rightarrow> vt_fence \<Rightarrow> 'm live \<Rightarrow> 'm live \<Rightarrow> frame list \<Rightarrow> bool" where
  "published em toks f x y fs \<longleftrightarrow> broadcast (snd y) = broadcast (snd x) @ fs
     \<and> list_all (output_frame (set toks) (fst x)) fs \<and> output_bytes fs = concat toks
     \<and> out_wf (snd y) \<and> limit (ring (snd y)) = limit (ring (snd x)) \<and> fence (snd y) = f
     \<and> model (snd y) = foldl (em_apply em) (model (snd x)) toks \<and> same_identity (fst x) (fst y)"

lemma small_Nil [simp]: "small T []"
  by (simp add: small_def)

lemma read_chunk_published:
  assumes "out_wf (snd s)" "out_room (Suc (length toks)) (snd s)" "push_bytes (fence (snd s)) buf = (f, toks)"
  shows "\<exists>fs. published em toks f s (read_chunk em wall buf s) fs"
proof -
  obtain m o' where s: "s = (m, o')" by (cases s)
  let ?o = "o'\<lparr>fence := f\<rparr>"
  have "fence_wf f" using push_bytes_ok(1) [of "fence o'" buf] assms(1,3) by (simp add: s out_wf_def)
  then have wf: "out_wf ?o" "out_room (length toks) ?o" using assms(1,2) by (simp_all add: s out_wf_fence out_room_def)
  obtain s1 b where s1: "foldl (batch_token em wall m) ((m, ?o), []) toks = (s1, b)"
    by (cases "foldl (batch_token em wall m) ((m, ?o), []) toks")
  from batched_loop [of "(m, ?o)" toks "set toks" "[]" em m wall] wf s1
  have "batched em (set toks) m toks ((m, ?o), []) (s1, b)" by simp
  then obtain fs where fs: "broadcast (snd s1) = broadcast o' @ fs" "length fs \<le> length toks"
      "list_all (output_frame (set toks) m) fs" "small (set toks) b" "output_bytes fs @ b = concat toks"
      "out_wf (snd s1)" "limit (ring (snd s1)) = limit (ring o')" "fence (snd s1) = f"
      "model (snd s1) = foldl (em_apply em) (model o') toks" "same_identity m (fst s1)"
    by (auto simp: batched_def)
  have rc: "read_chunk em wall buf s = (if b \<noteq> [] then emit wall m b s1 else s1)"
    using assms(3) s1 by (simp add: read_chunk_def s)
  show ?thesis
  proof (cases "b = []")
    case True
    then show ?thesis using fs rc by (auto simp: published_def s)
  next
    case False
    let ?f = "\<lparr>kind = OUTPUT, session_id = si_session_id m, generation = si_generation m, sequence = out_seq (snd s1) + 1, payload = b\<rparr>"
    have "out_room 1 (snd s1)" using assms(2) fs(1,2) by (simp add: s out_room_def)
    from out_wf_publish [OF fs(6) this, of OUTPUT m b] have
      "out_wf (publish OUTPUT m b (snd s1))" "limit (ring (publish OUTPUT m b (snd s1))) = limit (ring o')"
      using fs(7) by simp_all
    moreover have "output_frame (set toks) m ?f" using False fs(4) by (simp add: output_frame_def)
    moreover have "same_identity m (fst (emit wall m b s1))"
      using same_identity_trans [OF fs(10) emit_simps(2)] .
    moreover have "output_bytes (fs @ [?f]) = concat toks" using fs(5) by (simp add: output_bytes_def)
    ultimately show ?thesis
      using fs rc False by (intro exI [of _ "fs @ [?f]"]) (simp add: published_def s)
  qed
qed

lemma length_le_concat: "\<forall>t \<in> set ts. t \<noteq> [] \<Longrightarrow> length ts \<le> length (concat ts)"
proof (induction ts)
  case (Cons t ts)
  then show ?case by (cases t) auto
qed simp

lemma token_count:
  assumes "fence_wf f" "push_bytes f buf = (f', toks)"
  shows "length toks \<le> length (concat toks)" "length (concat toks) + pending_len f' \<le> pending_len f + 3 * length buf"
  using push_bytes_ok(2) [OF assms(1), of buf] push_bytes_size [OF assms(1), of buf] assms(2)
  by (auto intro!: length_le_concat simp: token_ok_def list_all_iff)

lemma published_count: "published em toks f x y fs \<Longrightarrow> length fs \<le> length (concat toks)"
proof -
  assume a: "published em toks f x y fs"
  then have "\<forall>f \<in> set fs. kind f = OUTPUT \<and> payload f \<noteq> []"
    by (auto simp: published_def output_frame_def list_all_iff)
  then have "output_bytes fs = concat (map payload fs)" "\<forall>t \<in> set (map payload fs). t \<noteq> []"
    by (auto simp: output_bytes_def)
  with a length_le_concat [of "map payload fs"] show ?thesis by (simp add: published_def)
qed

text \<open>Room for the frames of the reads to come.\<close>

definition room_for :: "bytes list \<Rightarrow> 'm live \<Rightarrow> bool" where
  "room_for bufs s \<longleftrightarrow> out_room (Suc (pending_len (fence (snd s)) + 3 * length (concat bufs))) (snd s)"

lemma published_trans:
  assumes "published em ts f x y fs" "published em us g y z gs"
  shows "published em (ts @ us) g x z (fs @ gs)"
  using assms
  by (auto simp: published_def list_all_iff output_frame_def small_def same_identity_def)

lemma reader_loop_published:
  assumes "out_wf (snd s)" "room_for (map snd reads) s" "\<forall>r \<in> set reads. snd r \<noteq> []"
  shows "\<exists>fs. published em (snd (push_chunks (fence (snd s)) (map snd reads)))
    (fst (push_chunks (fence (snd s)) (map snd reads))) s (reader_loop em reads s) fs"
  using assms
proof (induction reads arbitrary: s)
  case Nil
  then show ?case by (simp add: published_def output_bytes_def)
next
  case (Cons r reads)
  obtain wall buf where r: "r = (wall, buf)" by (cases r)
  obtain f toks where pb: "push_bytes (fence (snd s)) buf = (f, toks)" by (cases "push_bytes (fence (snd s)) buf")
  have fwf: "fence_wf (fence (snd s))" using Cons.prems(1) by (simp add: out_wf_def)
  note cnt = token_count [OF fwf pb]
  have "out_room (Suc (length toks)) (snd s)"
    using Cons.prems(2) cnt by (simp add: room_for_def out_room_def r)
  from read_chunk_published [OF Cons.prems(1) this pb, of em wall] obtain fs
    where fs: "published em toks f s (read_chunk em wall buf s) fs" by blast
  let ?s = "read_chunk em wall buf s"
  have p: "out_wf (snd ?s)" "fence (snd ?s) = f" "broadcast (snd ?s) = broadcast (snd s) @ fs"
    using fs by (auto simp: published_def)
  have "room_for (map snd reads) ?s"
    using Cons.prems(2) p cnt published_count [OF fs] by (simp add: room_for_def out_room_def r)
  from Cons.IH [OF p(1) this] Cons.prems(3) obtain gs where
    "published em (snd (push_chunks f (map snd reads))) (fst (push_chunks f (map snd reads))) ?s (reader_loop em reads ?s) gs"
    using p(2) by auto
  from published_trans [OF fs this] show ?case
    using Cons.prems(3) pb by (auto simp: r Let_def split: prod.splits)
qed

section \<open>The log of a session as a source of replays\<close>

text \<open>
  What a viewer relies on: the frames of the log are numbered from one, and an answer to a replay
  request is the exact rest of the log, or empty when even the newest frame exceeds the ring.
\<close>

locale replay_source =
  fixes hist :: "'s \<Rightarrow> frame list"
    and replay :: "'s \<Rightarrow> u64 \<Rightarrow> frame list result"
    and good :: "'s \<Rightarrow> bool"
  assumes numbered: "good s \<Longrightarrow> run_from 1 (hist s)"
    and replay_part: "good s \<Longrightarrow> replay s q = Ok fs \<Longrightarrow> fs = drop (unat q) (hist s) \<or> fs = []"
begin

lemma replay_contiguous: "good s \<Longrightarrow> replay s q = Ok fs \<Longrightarrow> run_from (Suc (unat q)) fs"
  using replay_part [of s q fs] run_from_drop [OF numbered, of s "unat q"] by auto

lemma replay_in_log: "good s \<Longrightarrow> replay s q = Ok fs \<Longrightarrow> \<exists>k. fs = take k (drop (unat q) (hist s))"
  using replay_part [of s q fs] by (metis take0 take_all order_refl)

end

interpretation session_log: replay_source broadcast ring_after out_wf
proof
  fix o' :: "'a output_state" and q fs
  assume wf: "out_wf o'"
  then show "run_from 1 (broadcast o')" by (simp add: out_wf_def)
  assume "ring_after o' q = Ok fs"
  moreover have "length (broadcast o') < 2 ^ 64"
    using wf unat_u64_lt [of "out_seq o'"] by (simp add: out_wf_def)
  ultimately show "fs = drop (unat q) (broadcast o') \<or> fs = []"
    using wf after_history_part [of "broadcast o'" "limit (ring o')" q fs]
    by (simp add: out_wf_def ring_after_def)
qed

lemma out_wf_commit_resize:
  assumes "out_wf (snd s)" "out_room 1 (snd s)"
  shows "out_wf (snd (commit_resize em c r s))"
    and "limit (ring (snd (commit_resize em c r s))) = limit (ring (snd s))"
proof -
  obtain m o' where s: "s = (m, o')" by (cases s)
  have "out_wf (o'\<lparr>model := em_resize em (model o') c r\<rparr>)" "out_room 1 (o'\<lparr>model := em_resize em (model o') c r\<rparr>)"
    using assms by (simp_all add: s out_room_def)
  from out_wf_publish [OF this] show "out_wf (snd (commit_resize em c r s))"
    and "limit (ring (snd (commit_resize em c r s))) = limit (ring (snd s))"
    by (simp_all add: commit_resize_def s Let_def)
qed

text \<open>An emulator that keeps what it is fed, for the concrete instances.\<close>

definition tape :: "bytes emulator" where
  "tape = \<lparr>em_apply = (@), em_resize = (\<lambda>m _ _. m), em_size = (\<lambda>_. (80, 24)), em_snapshot = (\<lambda>m. m),
     em_bracketed = (\<lambda>_. False), em_warnings = (\<lambda>_. [])\<rparr>"

definition sample_info :: session_info where
  "sample_info = \<lparr>si_session_id = 5, si_project_id = None, si_label = [], si_initial_cwd = [], si_profile = [],
     si_agent_epoch = 1, si_generation = 1, si_state = Running, si_cols = 80, si_rows = 24, si_output_seq = [],
     si_pid = None, si_process_created = None, si_program_path = None, si_last_activity_at = None,
     si_composer_allowed = False, si_lease = None\<rparr>"

definition sample_live :: "bytes live" where
  "sample_live = (sample_info, new_output [] 65536)"

lemma sample_live_wf: "out_wf (snd sample_live)" "broadcast (snd sample_live) = []" "fence (snd sample_live) = default_fence"
    "limit (ring (snd sample_live)) = 65536"
  by (simp_all add: sample_live_def) (simp_all add: new_output_def)

section \<open>Properties\<close>

text \<open>C17. The reader publishes the stream, whole and in order: whatever the pseudo terminal delivers in
  whatever reads, the frames broadcast are output frames of this session and generation with
  consecutive sequence numbers, their payloads concatenate to exactly what the fence releases for
  the concatenated input, and the emulator is fed the same bytes in the same order.\<close>

theorem reader_publishes_the_stream:
  assumes "out_wf (snd s)" "room_for (map snd reads) s" "\<forall>r \<in> set reads. snd r \<noteq> []"
  shows "\<exists>fs. broadcast (snd (reader_loop em reads s)) = broadcast (snd s) @ fs
    \<and> run_from (Suc (length (broadcast (snd s)))) fs
    \<and> (\<forall>f \<in> set fs. kind f = OUTPUT \<and> session_id f = si_session_id (fst s) \<and> generation f = si_generation (fst s))
    \<and> output_bytes fs = concat (snd (push_bytes (fence (snd s)) (concat (map snd reads))))
    \<and> (\<exists>toks. concat toks = output_bytes fs \<and> model (snd (reader_loop em reads s)) = foldl (em_apply em) (model (snd s)) toks)
    \<and> out_wf (snd (reader_loop em reads s))"
proof -
  from reader_loop_published [OF assms] obtain fs where
    fs: "published em (snd (push_chunks (fence (snd s)) (map snd reads)))
      (fst (push_chunks (fence (snd s)) (map snd reads))) s (reader_loop em reads s) fs" by blast
  have "fence_wf (fence (snd s))" using assms(1) by (simp add: out_wf_def)
  from push_chunks_concat [OF this] fs show ?thesis
    by (intro exI [of _ fs])
      (auto simp: published_def list_all_iff output_frame_def out_wf_def run_from_append)
qed

theorem reader_publishes_the_stream_witness:
  "\<exists>fs. broadcast (snd (reader_loop tape [(0, [0x41, 0x1b]), (1, [0x5b, 0x6d])] sample_live))
      = broadcast (snd sample_live) @ fs
    \<and> run_from (Suc (length (broadcast (snd sample_live)))) fs
    \<and> (\<forall>f \<in> set fs. kind f = OUTPUT \<and> session_id f = si_session_id (fst sample_live)
        \<and> generation f = si_generation (fst sample_live))
    \<and> output_bytes fs = concat (snd (push_bytes (fence (snd sample_live))
        (concat (map snd [(0::nat, [0x41, 0x1b]), (1, [0x5b, 0x6d])]))))
    \<and> (\<exists>toks. concat toks = output_bytes fs \<and> model (snd (reader_loop tape [(0, [0x41, 0x1b]), (1, [0x5b, 0x6d])]
        sample_live)) = foldl (em_apply tape) (model (snd sample_live)) toks)
    \<and> out_wf (snd (reader_loop tape [(0, [0x41, 0x1b]), (1, [0x5b, 0x6d])] sample_live))"
  by (rule reader_publishes_the_stream)
    (simp_all add: room_for_def out_room_def sample_live_wf default_fence_def pending_len_def)

text \<open>Frames fit the wire for moderate reads: a read of at most 5461 bytes publishes only frames
  that \<open>encode\<close> accepts, so no viewer is disconnected by the size of a frame.\<close>

theorem moderate_reads_publish_encodable_frames:
  assumes "out_wf (snd s)" "room_for [buf] s" "length buf \<le> 5461"
  shows "\<exists>fs. broadcast (snd (read_chunk em wall buf s)) = broadcast (snd s) @ fs \<and> (\<forall>f \<in> set fs. is_ok (encode f))"
proof -
  obtain f toks where pb: "push_bytes (fence (snd s)) buf = (f, toks)" by (cases "push_bytes (fence (snd s)) buf")
  have fwf: "fence_wf (fence (snd s))" using assms(1) by (simp add: out_wf_def)
  note cnt = token_count [OF fwf pb]
  have tok: "length t \<le> MAX_PAYLOAD" if "t \<in> set toks" for t
    using cnt(2) fence_wf_pending_len [OF fwf] assms(3) member_le_sum_list [of "length t" "map length toks"] that
    by (simp add: length_concat MAX_PAYLOAD_def)
  have "out_room (Suc (length toks)) (snd s)" using assms(2) cnt by (simp add: room_for_def out_room_def)
  from read_chunk_published [OF assms(1) this pb, of em wall] obtain fs
    where fs: "published em toks f s (read_chunk em wall buf s) fs" by blast
  then have "\<forall>f \<in> set fs. kind f = OUTPUT \<and> length (payload f) \<le> MAX_PAYLOAD"
    using tok by (fastforce simp: published_def list_all_iff output_frame_def small_def)
  then have "\<forall>f \<in> set fs. is_ok (encode f)"
    by (simp add: encode_def OUTPUT_def kind_ok_def not_less)
  with fs show ?thesis by (auto simp: published_def)
qed

theorem moderate_reads_publish_encodable_frames_witness:
  "\<exists>fs. broadcast (snd (read_chunk tape 0 [0x41] sample_live))
      = broadcast (snd sample_live) @ fs \<and> (\<forall>f \<in> set fs. is_ok (encode f))"
  by (rule moderate_reads_publish_encodable_frames)
    (simp_all add: room_for_def out_room_def sample_live_wf default_fence_def pending_len_def)

text \<open>Replay refines the broadcast: an answer of \<open>ring_after\<close> is contiguous from the asked sequence on;
  when the newest frame fits the ring it is the complete rest of what was broadcast, and it is
  refused exactly when a frame of that rest is gone from the ring.\<close>

lemma ring_after_refines_broadcast:
  assumes "out_wf o'" "broadcast o' \<noteq> []" "event_size (last (broadcast o')) \<le> limit (ring o')"
  shows "ring_after o' q =
    (if unat q < length (broadcast o') - length (events (ring o')) then Err ResyncRequired
     else Ok (drop (unat q) (broadcast o')))
    \<and> run_from (Suc (unat q)) (drop (unat q) (broadcast o'))"
proof -
  have "ring o' = ring_log (limit (ring o')) (broadcast o')" "run_from 1 (broadcast o')"
    "length (broadcast o') < 2 ^ 64"
    using assms(1) unat_u64_lt [of "out_seq o'"] by (simp_all add: out_wf_def)
  with after_history [OF this(2) assms(2,3) this(3), of q] run_from_drop [OF this(2), of "unat q"]
  show ?thesis by (simp add: ring_after_def)
qed

text \<open>
  The bound on the read is needed: the reader's buffer has 32768 bytes, and each stray
  continuation byte becomes a three-byte replacement character of one and the same text token. A
  read of 10923 such bytes is one frame above the payload limit, which \<open>encode\<close> refuses, so every
  viewer that reaches it is disconnected.
\<close>

lemma stray_bytes_become_one_token:
  "foldl fence_byte (default_fence, [], tx) (replicate n 0x80) = (default_fence, [], tx @ concat (replicate n REPLACEMENT))"
proof (induction n arbitrary: tx)
  case (Suc n)
  have "fence_byte (default_fence, [], tx) 0x80 = (default_fence, [], tx @ REPLACEMENT)"
    by (simp add: fence_byte_def default_fence_def)
  with Suc show ?case by simp
qed simp

lemma oversized_read_publishes_an_unencodable_frame:
  "\<exists>f. broadcast (snd (read_chunk tape 0 (replicate 10923 0x80) sample_live)) = [f] \<and> encode f = Err FrameTooLarge"
proof -
  let ?t = "concat (replicate 10923 REPLACEMENT)"
  have len: "length ?t = 32769" by (simp add: length_concat map_replicate REPLACEMENT_def sum_list_replicate)
  then have ne: "?t \<noteq> []" by fastforce
  have pb: "push_bytes default_fence (replicate 10923 0x80) = (default_fence, [?t])"
    using ne by (simp add: push_bytes_def stray_bytes_become_one_token flush_def)
  have "read_chunk tape 0 (replicate 10923 0x80) sample_live
      = emit 0 sample_info ?t (sample_info, (snd sample_live)\<lparr>model := em_apply tape (model (snd sample_live)) ?t\<rparr>)"
    using ne by (simp add: read_chunk_def sample_live_def new_output_def pb batch_token_eq)
  then show ?thesis
    using len by (simp add: emit_def sample_live_wf encode_def MAX_PAYLOAD_def)
qed

end
