(* ===== verification/Store.thy ===== *)
theory Store
  imports Protocol
begin

text \<open>
  The SQLite store of \<open>rc-agent/src/store.rs\<close>, as the relational state its statements work on.
  A table is an association list over its primary key, with the columns the statements use; the
  JSON and text columns hold the values they encode. A statement that fails is \<open>None\<close>: a
  violated uniqueness constraint is computed here, an I/O failure of the database is an argument
  of the operations that call the store. A transaction that fails leaves the store unchanged.
\<close>

section \<open>Model\<close>

record device =
  d_client_id :: uuid
  d_public_key :: bytes
  d_label :: str
  d_scopes :: "scope list"
  d_revoked :: bool

record audit_event =
  event_id :: nat
  ev_at :: nat
  ev_client :: "uuid option"
  ev_action :: str
  ev_resource :: "uuid option"

record store =
  settings :: "(str, str) hmap"
  preview_slots :: "(str, uuid) hmap"
  dev_rows :: "(uuid, device) hmap"
  projects :: "(uuid, str) hmap"
  sess_rows :: "(uuid, session_info \<times> str) hmap"
  audit_events :: "audit_event list"
  audit_seq :: nat

definition empty_store :: store where
  "empty_store = \<lparr>settings = [], preview_slots = [], dev_rows = [], projects = [], sess_rows = [],
     audit_events = [], audit_seq = 0\<rparr>"

text \<open>Opening marks the sessions of a previous process as lost.\<close>

definition open_store :: "store \<Rightarrow> store" where
  "open_store st = st\<lparr>sess_rows := hm_map (\<lambda>(m, l).
     (m, if l \<in> {lit ''starting'', lit ''running'', lit ''closing''} then lit ''lost'' else l)) (sess_rows st)\<rparr>"

definition devices_of :: "store \<Rightarrow> device list" where
  "devices_of st = map snd (dev_rows st)"

text \<open>The upsert keeps the key and the label of a known device.\<close>

definition save_device :: "store \<Rightarrow> device \<Rightarrow> store" where
  "save_device st d = st\<lparr>dev_rows :=
     (case hm_get (dev_rows st) (d_client_id d) of
        None \<Rightarrow> hm_insert (d_client_id d) d (dev_rows st)
      | Some old \<Rightarrow> hm_insert (d_client_id d) (old\<lparr>d_scopes := d_scopes d, d_revoked := d_revoked d\<rparr>) (dev_rows st))\<rparr>"

text \<open>
  \<open>project_for_cwd\<close>: \<open>fresh\<close> is the value of \<open>Uuid::new_v4\<close>. \<open>COLLATE NOCASE\<close> compares ASCII letters
  without case; the primary key refuses an identifier that is already in the table.
\<close>

definition project_for_cwd :: "store \<Rightarrow> str \<Rightarrow> uuid option \<Rightarrow> uuid \<Rightarrow> (store \<times> uuid) option" where
  "project_for_cwd st cwd requested fresh =
     (case find (\<lambda>(i, c). eq_ignore_ascii_case c cwd) (projects st) of
        Some (i, c) \<Rightarrow> (case requested of Some r \<Rightarrow> if r \<noteq> i then None else Some (st, i) | None \<Rightarrow> Some (st, i))
      | None \<Rightarrow>
          (let i = (case requested of Some r \<Rightarrow> r | None \<Rightarrow> fresh) in
           if hm_contains (projects st) i then None
           else Some (st\<lparr>projects := hm_insert i cwd (projects st)\<rparr>, i)))"

fun lifecycle_text :: "lifecycle \<Rightarrow> str" where
  "lifecycle_text Starting = lit ''starting''"
| "lifecycle_text Running = lit ''running''"
| "lifecycle_text Closing = lit ''closing''"
| "lifecycle_text Exited = lit ''exited''"
| "lifecycle_text Lost = lit ''lost''"

definition save_session :: "store \<Rightarrow> session_info \<Rightarrow> store" where
  "save_session st s = st\<lparr>sess_rows := hm_insert (si_session_id s) (s, lifecycle_text (si_state s)) (sess_rows st)\<rparr>"

definition rename_session_label :: "store \<Rightarrow> uuid \<Rightarrow> str \<Rightarrow> store option" where
  "rename_session_label st sid label =
     (case hm_get (sess_rows st) sid of
        None \<Rightarrow> None
      | Some (m, l) \<Rightarrow> Some (st\<lparr>sess_rows := hm_insert sid (m\<lparr>si_label := label\<rparr>, l) (sess_rows st)\<rparr>))"

definition remote_blocked :: "store \<Rightarrow> bool" where
  "remote_blocked st \<longleftrightarrow> hm_get (settings st) (lit ''remote_blocked'') = Some (lit ''true'')"

definition set_remote_blocked :: "store \<Rightarrow> bool \<Rightarrow> store" where
  "set_remote_blocked st v = st\<lparr>settings :=
     hm_insert (lit ''remote_blocked'') (if v then lit ''true'' else lit ''false'') (settings st)\<rparr>"

definition reserve_preview_slot :: "store \<Rightarrow> str \<Rightarrow> uuid \<Rightarrow> store option" where
  "reserve_preview_slot st origin project =
     (case hm_get (preview_slots st) origin of
        Some old \<Rightarrow> if old \<noteq> project then None else Some st
      | None \<Rightarrow> Some (st\<lparr>preview_slots := hm_insert origin project (preview_slots st)\<rparr>))"

text \<open>
  \<open>audit\<close>: \<open>now\<close> in seconds. The identifier is the next value of the \<open>AUTOINCREMENT\<close> counter;
  events older than seven days or more than 10000 behind the newest are deleted.
\<close>

definition audit :: "store \<Rightarrow> nat \<Rightarrow> uuid option \<Rightarrow> str \<Rightarrow> uuid option \<Rightarrow> store" where
  "audit st now cl action resource =
     (let i = Suc (audit_seq st);
          evs = audit_events st @ [\<lparr>event_id = i, ev_at = now, ev_client = cl, ev_action = action, ev_resource = resource\<rparr>]
      in st\<lparr>audit_seq := i,
            audit_events := filter (\<lambda>e. \<not> (ev_at e < now - 7 * 86400
              \<or> int (event_id e) < int (Max (set (map event_id evs))) - 10000)) evs\<rparr>)"

section \<open>Invariant\<close>

definition store_wf :: "store \<Rightarrow> bool" where
  "store_wf st \<longleftrightarrow>
     hm_wf (settings st) \<and> hm_wf (preview_slots st) \<and> hm_wf (dev_rows st) \<and> hm_wf (sess_rows st)
   \<and> hm_wf (projects st) \<and> distinct (map (map to_ascii_lower \<circ> snd) (projects st))
   \<and> distinct (map event_id (audit_events st)) \<and> (\<forall>e \<in> set (audit_events st). event_id e \<le> audit_seq st)
   \<and> (\<forall>e \<in> set (audit_events st). audit_seq st < event_id e + 10001)"

lemmas store_fields = save_device_def save_session_def set_remote_blocked_def

section \<open>Lemmas\<close>

lemma empty_store_wf [simp]: "store_wf empty_store"
  by (simp add: store_wf_def empty_store_def)

lemma store_wf_save_device [simp]: "store_wf st \<Longrightarrow> store_wf (save_device st d)"
  by (auto simp: store_wf_def save_device_def split: option.split)

lemma store_wf_set_blocked [simp]: "store_wf st \<Longrightarrow> store_wf (set_remote_blocked st v)"
  by (auto simp: store_wf_def set_remote_blocked_def)

lemma remote_blocked_set [simp]: "remote_blocked (set_remote_blocked st v) = v"
  by (simp add: remote_blocked_def set_remote_blocked_def lit_inj)

lemma find_nocase_None:
  "find (\<lambda>(i, c). eq_ignore_ascii_case c cwd) ps = None \<longleftrightarrow> map to_ascii_lower cwd \<notin> set (map (map to_ascii_lower \<circ> snd) ps)"
  by (induction ps) (auto simp: eq_ignore_ascii_case_def split: if_splits)

lemma hm_insert_fresh: "\<not> hm_contains m k \<Longrightarrow> hm_insert k v m = m @ [(k, v)]"
  unfolding hm_insert_def by (induction m) (auto split: if_splits)

lemma project_for_cwd_wf:
  assumes "store_wf st" "project_for_cwd st cwd rq fresh = Some (st', i)"
  shows "store_wf st'"
proof (cases "find (\<lambda>(i, c). eq_ignore_ascii_case c cwd) (projects st)")
  case None
  with assms(2) have "\<not> hm_contains (projects st) i" "st' = st\<lparr>projects := projects st @ [(i, cwd)]\<rparr>"
    by (auto simp: project_for_cwd_def Let_def hm_insert_fresh split: if_splits)
  moreover have "hm_wf (projects st @ [(i, cwd)])"
    using assms(1) calculation(1) by (auto simp: store_wf_def hm_wf_def map_of_eq_None_iff)
  ultimately show ?thesis using assms(1) None by (auto simp: store_wf_def find_nocase_None)
next
  case (Some p)
  with assms(2) have "st' = st" by (auto simp: project_for_cwd_def split: prod.splits option.splits if_splits)
  with assms(1) show ?thesis by simp
qed

lemma Max_snoc_event:
  assumes "\<forall>e \<in> set es. event_id e \<le> n"
  shows "Max (set (map event_id (es @ [\<lparr>event_id = Suc n, ev_at = a, ev_client = c, ev_action = x, ev_resource = r\<rparr>]))) = Suc n"
  using assms by (intro Max_eqI) (auto intro: le_SucI)

lemma audit_wf:
  assumes "store_wf st"
  shows "store_wf (audit st now cl action resource)"
proof -
  have le: "\<forall>e \<in> set (audit_events st). event_id e \<le> audit_seq st"
    and dist: "distinct (map event_id (audit_events st))"
    using assms by (auto simp: store_wf_def)
  then have "Suc (audit_seq st) \<notin> set (map event_id (audit_events st))" by force
  with dist have "distinct (map event_id (audit_events st @ [\<lparr>event_id = Suc (audit_seq st), ev_at = now,
      ev_client = cl, ev_action = action, ev_resource = resource\<rparr>]))" by simp
  from distinct_map_filter [OF this] show ?thesis
    using assms le unfolding audit_def Let_def Max_snoc_event [OF le]
    by (auto simp: store_wf_def intro: le_SucI)
qed

lemma distinct_nat_window:
  assumes "distinct (xs :: nat list)" "\<forall>x \<in> set xs. x \<le> n \<and> n < x + k"
  shows "length xs \<le> k"
proof -
  have "set xs \<subseteq> {Suc n - k..n}" using assms(2) by auto
  then have "card (set xs) \<le> card {Suc n - k..n}" by (intro card_mono) auto
  with assms(1) show ?thesis by (simp add: distinct_card)
qed

text \<open>Any sequence of store operations.\<close>

inductive store_step :: "store \<Rightarrow> store \<Rightarrow> bool" where
  step_open: "store_step st (open_store st)"
| step_device: "store_step st (save_device st d)"
| step_project: "project_for_cwd st cwd rq fresh = Some (st', i) \<Longrightarrow> store_step st st'"
| step_session: "store_step st (save_session st m)"
| step_rename: "rename_session_label st sid label = Some st' \<Longrightarrow> store_step st st'"
| step_blocked: "store_step st (set_remote_blocked st v)"
| step_slot: "reserve_preview_slot st origin p = Some st' \<Longrightarrow> store_step st st'"
| step_audit: "store_step st (audit st now cl action resource)"

definition bindings_kept :: "store \<Rightarrow> store \<Rightarrow> bool" where
  "bindings_kept st st' \<longleftrightarrow>
     (\<forall>i d. hm_get (dev_rows st) i = Some d \<longrightarrow>
        (\<exists>d'. hm_get (dev_rows st') i = Some d' \<and> d_public_key d' = d_public_key d \<and> d_label d' = d_label d))
   \<and> (\<forall>i c. hm_get (projects st) i = Some c \<longrightarrow> hm_get (projects st') i = Some c)
   \<and> (\<forall>o' p. hm_get (preview_slots st) o' = Some p \<longrightarrow> hm_get (preview_slots st') o' = Some p)"

lemma bindings_kept_refl [simp]: "bindings_kept st st"
  by (simp add: bindings_kept_def)

lemma bindings_kept_trans: "bindings_kept a b \<Longrightarrow> bindings_kept b c \<Longrightarrow> bindings_kept a c"
  unfolding bindings_kept_def by (intro conjI allI impI; (elim conjE)?, fastforce)

lemma find_SomeD:
  assumes "find P xs = Some x"
  shows "x \<in> set xs" "P x"
  using assms by (induction xs) (auto split: if_splits)

lemma project_for_cwd_cases:
  assumes "project_for_cwd st cwd rq fresh = Some (st', i)"
  obtains (known) c where "st' = st" "(i, c) \<in> set (projects st)" "eq_ignore_ascii_case c cwd" "rq = None \<or> rq = Some i"
    | (created) "st' = st\<lparr>projects := projects st @ [(i, cwd)]\<rparr>" "\<not> hm_contains (projects st) i"
        "find (\<lambda>(i, c). eq_ignore_ascii_case c cwd) (projects st) = None" "rq = None \<or> rq = Some i"
proof (cases "find (\<lambda>(i, c). eq_ignore_ascii_case c cwd) (projects st)")
  case None
  with assms show ?thesis
    by (intro created) (auto simp: project_for_cwd_def Let_def hm_insert_fresh split: if_splits option.splits)
next
  case (Some p)
  then have "p \<in> set (projects st)" "(\<lambda>(i, c). eq_ignore_ascii_case c cwd) p"
    by (rule find_SomeD)+
  with Some assms show ?thesis
    by (cases p) (auto simp: project_for_cwd_def intro: known split: if_splits option.splits)
qed

lemma store_step_wf: "store_step st st' \<Longrightarrow> store_wf st \<Longrightarrow> store_wf st'"
  by (induction rule: store_step.induct)
    (auto simp: project_for_cwd_wf audit_wf, auto simp: store_wf_def open_store_def save_session_def
      rename_session_label_def reserve_preview_slot_def split: option.splits if_splits)

lemma store_step_bindings: "store_step st st' \<Longrightarrow> bindings_kept st st'"
proof (induction rule: store_step.induct)
  case (step_project st cwd rq fresh st' i)
  then show ?case
    by (cases rule: project_for_cwd_cases) (auto simp: bindings_kept_def map_add_def split: option.splits)
qed (auto simp: bindings_kept_def open_store_def save_device_def save_session_def rename_session_label_def
    set_remote_blocked_def reserve_preview_slot_def audit_def Let_def split: option.splits if_splits)

lemma store_run_kept: "store_step\<^sup>*\<^sup>* st st' \<Longrightarrow> store_wf st \<Longrightarrow> store_wf st' \<and> bindings_kept st st'"
  by (induction rule: rtranclp_induct) (auto intro: store_step_wf store_step_bindings bindings_kept_trans)

lemma store_wf_audit_length: "store_wf st \<Longrightarrow> length (audit_events st) \<le> 10001"
  using distinct_nat_window [of "map event_id (audit_events st)" "audit_seq st" 10001]
  by (auto simp: store_wf_def)

section \<open>Properties\<close>

text \<open>Bindings in the store are permanent: along any sequence of store operations the public
  key and the label of a paired device, the folder of a project and the project of a preview
  origin never change; the uniqueness constraints keep holding, and the audit log never holds
  more than 10001 events.\<close>

theorem store_bindings_are_permanent:
  assumes "store_wf st" "store_step\<^sup>*\<^sup>* st st'"
  shows "store_wf st' \<and> bindings_kept st st' \<and> length (audit_events st') \<le> 10001"
  using store_run_kept [OF assms(2,1)] store_wf_audit_length by blast

theorem store_bindings_are_permanent_witness:
  "store_wf (set_remote_blocked empty_store True) \<and> bindings_kept empty_store (set_remote_blocked empty_store True)
   \<and> length (audit_events (set_remote_blocked empty_store True)) \<le> 10001"
  by (rule store_bindings_are_permanent) (auto intro: step_blocked)

text \<open>One project per folder: \<open>project_for_cwd\<close> answers with a project that is bound to the
  folder up to ASCII case, honours a requested identifier or fails, and asking again for any
  spelling of the same folder answers the same project without changing the store.\<close>

theorem project_for_cwd_is_functional:
  assumes "store_wf st" "project_for_cwd st cwd rq fresh = Some (st', i)" "eq_ignore_ascii_case cwd2 cwd"
  shows "(rq = None \<or> rq = Some i) \<and> project_for_cwd st' cwd2 None fresh2 = Some (st', i)
    \<and> (\<exists>c. hm_get (projects st') i = Some c \<and> eq_ignore_ascii_case c cwd)"
proof -
  have wf: "store_wf st'" by (rule project_for_cwd_wf [OF assms(1,2)])
  obtain c where c: "(i, c) \<in> set (projects st')" "eq_ignore_ascii_case c cwd" and rq: "rq = None \<or> rq = Some i"
    using assms(2) by (cases rule: project_for_cwd_cases) (auto simp: eq_ignore_ascii_case_def)
  have uniq: "q = (i, c)" if "q \<in> set (projects st')" "eq_ignore_ascii_case (snd q) cwd2" for q
  proof -
    have "(map to_ascii_lower \<circ> snd) q = (map to_ascii_lower \<circ> snd) (i, c)"
      using that(2) c(2) assms(3) by (simp add: eq_ignore_ascii_case_def)
    moreover have "inj_on (map to_ascii_lower \<circ> snd) (set (projects st'))"
      using wf by (simp add: store_wf_def distinct_map)
    ultimately show ?thesis using that(1) c(1) by (blast dest: inj_onD)
  qed
  have "find (\<lambda>(i, c). eq_ignore_ascii_case c cwd2) (projects st') = Some (i, c)"
  proof (cases "find (\<lambda>(i, c). eq_ignore_ascii_case c cwd2) (projects st')")
    case None
    with c assms(3) show ?thesis by (auto simp: find_None_iff eq_ignore_ascii_case_def)
  next
    case (Some q)
    then have "q \<in> set (projects st')" "eq_ignore_ascii_case (snd q) cwd2"
      using find_SomeD [OF Some] by (auto split: prod.splits)
    with uniq Some show ?thesis by blast
  qed
  with c wf rq show ?thesis
    by (auto simp: project_for_cwd_def store_wf_def hm_in_set_get)
qed

theorem project_for_cwd_is_functional_witness:
  "let st = empty_store\<lparr>projects := [(7, [0x43, 0x3A])]\<rparr> in
   (None = (None :: uuid option) \<or> None = Some (7 :: uuid)) \<and> project_for_cwd st [0x63, 0x3A] None 9 = Some (st, 7)
    \<and> (\<exists>c. hm_get (projects st) 7 = Some c \<and> eq_ignore_ascii_case c [0x43, 0x3A])"
  unfolding Let_def
  by (rule project_for_cwd_is_functional [where st = "empty_store\<lparr>projects := [(7, [0x43, 0x3A])]\<rparr>" and fresh = 1])
    (simp_all add: store_wf_def empty_store_def hm_wf_def project_for_cwd_def eq_ignore_ascii_case_def to_ascii_lower_def)

end
