(* ===== verification/Auth.thy ===== *)
theory Auth
  imports Store
begin

text \<open>
  Device authentication, \<open>rc-agent/src/auth.rs\<close>: pairing tickets, challenge and response, access
  tokens and single-use WebSocket tickets, with revocation and the remote block.

  \<^item> Randomness, the clocks and the outcome of a database write are arguments of the operations:
    a \<open>secret()\<close> is a string argument, \<open>now\<close> is the monotonic clock (one reading per call), \<open>wall\<close>
    is \<open>unix_ms()\<close>, and \<open>db_ok\<close> says whether the statement succeeded.
  \<^item> The cryptographic crates are the record \<open>crypto\<close>: the digest of a token, base64 decoding,
    key and signature parsing, signature verification, and the text of a \<open>Uuid\<close>.
  \<^item> A \<open>CancellationToken\<close> is a number; the state has the next fresh number and the tokens that
    are cancelled. Clones of a token are equal numbers, so a cancel reaches every clone.
\<close>

section \<open>Model\<close>

record 'h crypto =
  digest :: "str \<Rightarrow> 'h"
  b64_decode :: "str \<Rightarrow> bytes option"
  key_valid :: "bytes \<Rightarrow> bool"
  sig_valid :: "bytes \<Rightarrow> bool"
  sig_verify :: "bytes \<Rightarrow> bytes \<Rightarrow> bytes \<Rightarrow> bool"
  uuid_text :: "uuid \<Rightarrow> str"

type_synonym token = nat

record principal =
  p_client :: uuid
  p_scopes :: "scope list"
  p_expires :: instant
  p_revoked :: token

definition require :: "token list \<Rightarrow> instant \<Rightarrow> principal \<Rightarrow> scope \<Rightarrow> unit result" where
  "require cancelled now p s =
     (if p_revoked p \<in> set cancelled then Err DeviceRevoked
      else if p_expires p \<le> now then Err Unauthenticated
      else if s \<notin> set (p_scopes p) then Err Forbidden
      else Ok ())"

record pair_ticket =
  pt_scopes :: "scope list"
  pt_until :: instant

record challenge_rec =
  ch_client :: uuid
  ch_message :: str
  ch_until :: instant

record access_rec =
  ac_client :: uuid
  ac_until :: instant

record ws_ticket =
  wt_principal :: principal
  wt_channel :: str
  wt_session :: "uuid option"
  wt_until :: instant

record device_state =
  ds_device :: device
  ds_cancel :: token

record 'h auth =
  blocked :: bool
  a_devices :: "(uuid, device_state) hmap"
  pairs :: "('h, pair_ticket) hmap"
  challenges :: "(str, challenge_rec) hmap"
  access :: "('h, access_rec) hmap"
  wst :: "('h, ws_ticket) hmap"
  window_start :: instant
  requests :: u32
  a_store :: store
  audience :: str
  next_token :: token
  cancelled :: "token list"

text \<open>\<open>Auth::new\<close>: every device gets a token, cancelled at once for a revoked one.\<close>

fun load_devices :: "device list \<Rightarrow> token \<Rightarrow> (uuid, device_state) hmap \<times> token list" where
  "load_devices [] t = ([], [])"
| "load_devices (d # ds) t =
     (let (m, c) = load_devices ds (Suc t) in
      ((d_client_id d, \<lparr>ds_device = d, ds_cancel = t\<rparr>) # m, if d_revoked d then t # c else c))"

definition new_auth :: "store \<Rightarrow> str \<Rightarrow> instant \<Rightarrow> 'h auth" where
  "new_auth st aud now =
     (let (m, c) = load_devices (devices_of st) 0 in
      \<lparr>blocked = remote_blocked st, a_devices = m, pairs = [], challenges = [], access = [], wst = [],
       window_start = now, requests = 0, a_store = st, audience = aud,
       next_token = length (devices_of st), cancelled = c\<rparr>)"

definition prune :: "instant \<Rightarrow> 'h auth \<Rightarrow> 'h auth" where
  "prune now a =
     a\<lparr>pairs := hm_retain (\<lambda>_ v. pt_until v > now) (pairs a),
       challenges := hm_retain (\<lambda>_ v. ch_until v > now) (challenges a),
       access := hm_retain (\<lambda>_ v. ac_until v > now) (access a),
       wst := hm_retain (\<lambda>_ v. wt_until v > now) (wst a)\<rparr>"

definition anonymous_limit :: "instant \<Rightarrow> 'h auth \<Rightarrow> 'h auth \<times> unit result" where
  "anonymous_limit now a =
     (let a1 = (if duration_since now (window_start a) \<ge> secs 60 then a\<lparr>window_start := now, requests := 0\<rparr> else a);
          a2 = a1\<lparr>requests := requests a1 + 1\<rparr>
      in if requests a2 > 120 then (a2, Err RateLimited) else (prune now a2, Ok ()))"

definition ensure_open :: "'h auth \<Rightarrow> unit result" where
  "ensure_open a = (if blocked a then Err Forbidden else Ok ())"

text \<open>A new token for each device that is not revoked, in the order of the map.\<close>

fun fresh_tokens :: "(uuid, device_state) hmap \<Rightarrow> token \<Rightarrow> (uuid, device_state) hmap \<times> token" where
  "fresh_tokens [] t = ([], t)"
| "fresh_tokens ((i, d) # r) t =
     (if d_revoked (ds_device d) then (let (m, t') = fresh_tokens r t in ((i, d) # m, t'))
      else (let (m, t') = fresh_tokens r (Suc t) in ((i, d\<lparr>ds_cancel := t\<rparr>) # m, t')))"

definition resume_local :: "bool \<Rightarrow> 'h auth \<Rightarrow> 'h auth" where
  "resume_local db_ok a =
     (if \<not> db_ok then a
      else let (m, t) = fresh_tokens (a_devices a) (next_token a) in
        a\<lparr>a_store := set_remote_blocked (a_store a) False, a_devices := m, next_token := t, blocked := False\<rparr>)"

definition has_owner :: "'h auth \<Rightarrow> bool" where
  "has_owner a \<longleftrightarrow> list_ex (\<lambda>(_, d). \<not> d_revoked (ds_device d) \<and> AdminDevices \<in> set (d_scopes (ds_device d))) (a_devices a)"

definition issue_pair_ticket ::
    "'h crypto \<Rightarrow> instant \<Rightarrow> str \<Rightarrow> scope list \<Rightarrow> 'h auth \<Rightarrow> 'h auth \<times> str result" where
  "issue_pair_ticket cr now sec scopes a =
     (case ensure_open a of Err e \<Rightarrow> (a, Err e) | Ok _ \<Rightarrow>
      if scopes = [] then (a, Err InvalidRequest)
      else let a1 = prune now a in
        if hm_len (pairs a1) \<ge> 16 then (a1, Err RateLimited)
        else (a1\<lparr>pairs := hm_insert (digest cr sec) \<lparr>pt_scopes = scopes, pt_until = now + secs 300\<rparr> (pairs a1)\<rparr>, Ok sec))"

definition active_devices :: "'h auth \<Rightarrow> nat" where
  "active_devices a = length (filter (\<lambda>(_, d). \<not> d_revoked (ds_device d)) (a_devices a))"

definition pair ::
    "'h crypto \<Rightarrow> instant \<Rightarrow> uuid \<Rightarrow> bool \<Rightarrow> str \<Rightarrow> str \<Rightarrow> str \<Rightarrow> 'h auth \<Rightarrow> 'h auth \<times> device result" where
  "pair cr now fresh db_ok ticket public_key label a =
     (case ensure_open a of Err e \<Rightarrow> (a, Err e) | Ok _ \<Rightarrow>
      if length ticket > 128 \<or> trim label = [] \<or> length label > 160 \<or> length public_key > 256
      then (a, Err InvalidRequest)
      else (case b64_decode cr public_key of
        None \<Rightarrow> (a, Err InvalidRequest)
      | Some raw \<Rightarrow>
        if \<not> key_valid cr raw then (a, Err InvalidRequest)
        else (case anonymous_limit now a of
          (a1, Err e) \<Rightarrow> (a1, Err e)
        | (a1, Ok _) \<Rightarrow>
          (case hm_get (pairs a1) (digest cr ticket) of
            None \<Rightarrow> (a1, Err Unauthenticated)
          | Some p \<Rightarrow>
            (let a2 = a1\<lparr>pairs := hm_remove (digest cr ticket) (pairs a1)\<rparr> in
             if active_devices a2 \<ge> 64 then (a2, Err RateLimited)
             else (let d = \<lparr>d_client_id = fresh, d_public_key = raw, d_label = trim label,
                            d_scopes = pt_scopes p, d_revoked = False\<rparr> in
               if \<not> db_ok then (a2, Err Internal)
               else (a2\<lparr>a_store := save_device (a_store a2) d,
                        a_devices := hm_insert fresh \<lparr>ds_device = d, ds_cancel = next_token a2\<rparr> (a_devices a2),
                        next_token := Suc (next_token a2)\<rparr>, Ok d)))))))"

text \<open>The device of a client, when it is known and not revoked.\<close>

definition active_device :: "'h auth \<Rightarrow> uuid \<Rightarrow> device_state option" where
  "active_device a c =
     (case hm_get (a_devices a) c of None \<Rightarrow> None | Some d \<Rightarrow> if d_revoked (ds_device d) then None else Some d)"

definition challenge_message :: "'h crypto \<Rightarrow> str \<Rightarrow> uuid \<Rightarrow> str \<Rightarrow> nat \<Rightarrow> str" where
  "challenge_message cr aud c nonce expiry =
     lit ''RemoteCodex/v1'' @ [10] @ aud @ [10] @ uuid_text cr c @ [10] @ nonce @ [10] @ dec expiry"

definition challenge ::
    "'h crypto \<Rightarrow> instant \<Rightarrow> nat \<Rightarrow> str \<Rightarrow> str \<Rightarrow> uuid \<Rightarrow> 'h auth \<Rightarrow> 'h auth \<times> (str \<times> str) result" where
  "challenge cr now wall iid nonce c a =
     (case ensure_open a of Err e \<Rightarrow> (a, Err e) | Ok _ \<Rightarrow>
      (case anonymous_limit now a of
        (a1, Err e) \<Rightarrow> (a1, Err e)
      | (a1, Ok _) \<Rightarrow>
        if active_device a1 c = None then (a1, Err Unauthenticated)
        else if hm_len (challenges a1) \<ge> 128 then (a1, Err RateLimited)
        else (let m = challenge_message cr (audience a1) c nonce (wall + 30000) in
          (a1\<lparr>challenges := hm_insert iid \<lparr>ch_client = c, ch_message = m, ch_until = now + secs 30\<rparr> (challenges a1)\<rparr>,
           Ok (iid, m)))))"

definition verify_challenge ::
    "'h crypto \<Rightarrow> instant \<Rightarrow> str \<Rightarrow> str \<Rightarrow> str \<Rightarrow> 'h auth \<Rightarrow> 'h auth \<times> str result" where
  "verify_challenge cr now sec iid sig a =
     (case ensure_open a of Err e \<Rightarrow> (a, Err e) | Ok _ \<Rightarrow>
      if length iid > 128 \<or> length sig > 256 then (a, Err InvalidRequest)
      else (case anonymous_limit now a of
        (a1, Err e) \<Rightarrow> (a1, Err e)
      | (a1, Ok _) \<Rightarrow>
        (case hm_get (challenges a1) iid of
          None \<Rightarrow> (a1, Err Unauthenticated)
        | Some ch \<Rightarrow>
          (let a2 = a1\<lparr>challenges := hm_remove iid (challenges a1)\<rparr> in
           case active_device a2 (ch_client ch) of
             None \<Rightarrow> (a2, Err Unauthenticated)
           | Some d \<Rightarrow>
             if \<not> key_valid cr (d_public_key (ds_device d)) then (a2, Err Unauthenticated)
             else (case b64_decode cr sig of
               None \<Rightarrow> (a2, Err Unauthenticated)
             | Some bs \<Rightarrow>
               if \<not> sig_valid cr bs then (a2, Err Unauthenticated)
               else if \<not> sig_verify cr (d_public_key (ds_device d)) (ch_message ch) bs then (a2, Err Unauthenticated)
               else if hm_len (access a2) \<ge> 256 then (a2, Err RateLimited)
               else (a2\<lparr>access := hm_insert (digest cr sec) \<lparr>ac_client = ch_client ch, ac_until = now + secs 600\<rparr> (access a2)\<rparr>,
                     Ok sec))))))"

definition authorize :: "'h crypto \<Rightarrow> instant \<Rightarrow> str \<Rightarrow> 'h auth \<Rightarrow> principal result" where
  "authorize cr now tok a =
     (case ensure_open a of Err e \<Rightarrow> Err e | Ok _ \<Rightarrow>
      if length tok > 128 then Err Unauthenticated
      else (case hm_get (access a) (digest cr tok) of
        None \<Rightarrow> Err Unauthenticated
      | Some r \<Rightarrow>
        if \<not> ac_until r > now then Err Unauthenticated
        else (case active_device a (ac_client r) of
          None \<Rightarrow> Err DeviceRevoked
        | Some d \<Rightarrow> Ok \<lparr>p_client = ac_client r, p_scopes = d_scopes (ds_device d),
                          p_expires = ac_until r, p_revoked = ds_cancel d\<rparr>)))"

definition device_principal :: "instant \<Rightarrow> uuid \<Rightarrow> 'h auth \<Rightarrow> principal result" where
  "device_principal now c a =
     (case ensure_open a of Err e \<Rightarrow> Err e | Ok _ \<Rightarrow>
      (case active_device a c of
        None \<Rightarrow> Err DeviceRevoked
      | Some d \<Rightarrow> Ok \<lparr>p_client = c, p_scopes = d_scopes (ds_device d),
                        p_expires = now + secs 60, p_revoked = ds_cancel d\<rparr>))"

definition issue_ws ::
    "'h crypto \<Rightarrow> instant \<Rightarrow> str \<Rightarrow> principal \<Rightarrow> str \<Rightarrow> uuid option \<Rightarrow> 'h auth \<Rightarrow> 'h auth \<times> str result" where
  "issue_ws cr now sec p channel sess a =
     (if channel \<notin> {lit ''control'', lit ''terminal'', lit ''media''} then (a, Err InvalidRequest)
      else (case require (cancelled a) now p TerminalRead of
        Err e \<Rightarrow> (a, Err e)
      | Ok _ \<Rightarrow>
        if channel \<in> {lit ''terminal'', lit ''media''} \<and> sess = None then (a, Err InvalidRequest)
        else let a1 = prune now a in
          if hm_len (wst a1) \<ge> 128 then (a1, Err RateLimited)
          else (a1\<lparr>wst := hm_insert (digest cr sec) \<lparr>wt_principal = p, wt_channel = channel, wt_session = sess,
                 wt_until = now + secs 30\<rparr> (wst a1)\<rparr>, Ok sec)))"

definition consume_ws ::
    "'h crypto \<Rightarrow> instant \<Rightarrow> str \<Rightarrow> str \<Rightarrow> 'h auth \<Rightarrow> 'h auth \<times> (principal \<times> uuid option) result" where
  "consume_ws cr now tok channel a =
     (case ensure_open a of Err e \<Rightarrow> (a, Err e) | Ok _ \<Rightarrow>
      if length tok > 128 then (a, Err Unauthenticated)
      else let a1 = prune now a in
        (case hm_get (wst a1) (digest cr tok) of
          None \<Rightarrow> (a1, Err Unauthenticated)
        | Some t \<Rightarrow>
          (let a2 = a1\<lparr>wst := hm_remove (digest cr tok) (wst a1)\<rparr> in
           if wt_channel t \<noteq> channel then (a2, Err Forbidden)
           else (case require (cancelled a2) now (wt_principal t) TerminalRead of
             Err e \<Rightarrow> (a2, Err e)
           | Ok _ \<Rightarrow> (a2, Ok (wt_principal t, wt_session t))))))"

definition revoke :: "bool \<Rightarrow> uuid \<Rightarrow> 'h auth \<Rightarrow> 'h auth \<times> unit result" where
  "revoke db_ok c a =
     (case hm_get (a_devices a) c of
        None \<Rightarrow> (a, Err InvalidRequest)
      | Some d \<Rightarrow>
        (let d1 = d\<lparr>ds_device := (ds_device d)\<lparr>d_revoked := True\<rparr>\<rparr>;
             a1 = a\<lparr>a_devices := hm_insert c d1 (a_devices a), cancelled := ds_cancel d # cancelled a\<rparr>
         in if \<not> db_ok then (a1, Err Internal)
            else (a1\<lparr>a_store := save_device (a_store a1) (ds_device d1),
                     access := hm_retain (\<lambda>_ r. ac_client r \<noteq> c) (access a1),
                     wst := hm_retain (\<lambda>_ t. p_client (wt_principal t) \<noteq> c) (wst a1)\<rparr>, Ok ())))"

definition block_all :: "bool \<Rightarrow> 'h auth \<Rightarrow> 'h auth" where
  "block_all db_ok a =
     a\<lparr>blocked := True,
       a_store := (if db_ok then set_remote_blocked (a_store a) True else a_store a),
       cancelled := map (ds_cancel \<circ> snd) (a_devices a) @ cancelled a,
       access := [], wst := [], pairs := [], challenges := []\<rparr>"

section \<open>Runs\<close>

text \<open>
  A configuration is the state with the principals handed out so far. A step is one call:
  the pairing identifier is a fresh \<open>Uuid\<close>, a ticket is issued to a principal that was handed
  out, and remote access is resumed only while it is blocked. \<open>S\<close> is the set of the secrets that
  the steps may draw.
\<close>

type_synonym 'h config = "'h auth \<times> principal list"

inductive auth_step :: "'h crypto \<Rightarrow> str set \<Rightarrow> 'h config \<Rightarrow> 'h config \<Rightarrow> bool" for cr S where
  s_ticket: "sec \<in> S \<Longrightarrow> auth_step cr S (a, ps) (fst (issue_pair_ticket cr now sec sc a), ps)"
| s_pair: "\<not> hm_contains (a_devices a) fresh \<Longrightarrow> auth_step cr S (a, ps) (fst (pair cr now fresh ok t k l a), ps)"
| s_challenge: "iid \<in> S \<Longrightarrow> auth_step cr S (a, ps) (fst (challenge cr now wall iid nonce c a), ps)"
| s_verify: "sec \<in> S \<Longrightarrow> auth_step cr S (a, ps) (fst (verify_challenge cr now sec iid sig a), ps)"
| s_authorize: "authorize cr now tok a = Ok p \<Longrightarrow> auth_step cr S (a, ps) (a, p # ps)"
| s_device: "device_principal now c a = Ok p \<Longrightarrow> auth_step cr S (a, ps) (a, p # ps)"
| s_issue_ws: "sec \<in> S \<Longrightarrow> p \<in> set ps \<Longrightarrow> auth_step cr S (a, ps) (fst (issue_ws cr now sec p ch se a), ps)"
| s_consume_ws: "auth_step cr S (a, ps)
    (fst (consume_ws cr now tok ch a), (case snd (consume_ws cr now tok ch a) of Inr (p, _) \<Rightarrow> p # ps | Inl _ \<Rightarrow> ps))"
| s_revoke: "auth_step cr S (a, ps) (fst (revoke ok c a), ps)"
| s_block: "auth_step cr S (a, ps) (block_all ok a, ps)"
| s_resume: "blocked a \<Longrightarrow> auth_step cr S (a, ps) (resume_local ok a, ps)"

definition start_config :: "'h config \<Rightarrow> bool" where
  "start_config x \<longleftrightarrow> (\<exists>st aud now. store_wf st
     \<and> (\<forall>(i, d) \<in> set (dev_rows st). d_client_id d = i) \<and> x = (new_auth st aud now, []))"

definition reachable :: "'h crypto \<Rightarrow> 'h config \<Rightarrow> bool" where
  "reachable cr x \<longleftrightarrow> (\<exists>x0. start_config x0 \<and> (auth_step cr UNIV)\<^sup>*\<^sup>* x0 x)"

text \<open>The invariants: the tables, the tokens of the devices, and the tokens handed out.\<close>

definition tables_ok :: "'h auth \<Rightarrow> bool" where
  "tables_ok a \<longleftrightarrow>
     hm_wf (a_devices a) \<and> hm_wf (pairs a) \<and> hm_wf (challenges a) \<and> hm_wf (access a) \<and> hm_wf (wst a)
   \<and> hm_len (pairs a) \<le> 16 \<and> hm_len (challenges a) \<le> 128 \<and> hm_len (access a) \<le> 256 \<and> hm_len (wst a) \<le> 128"

definition tokens_ok :: "'h auth \<Rightarrow> bool" where
  "tokens_ok a \<longleftrightarrow>
     (\<forall>c d. hm_get (a_devices a) c = Some d \<longrightarrow> ds_cancel d < next_token a
        \<and> (d_revoked (ds_device d) \<longrightarrow> ds_cancel d \<in> set (cancelled a)))
   \<and> (\<forall>c d c' d'. hm_get (a_devices a) c = Some d \<longrightarrow> hm_get (a_devices a) c' = Some d' \<longrightarrow>
        ds_cancel d = ds_cancel d' \<longrightarrow> c = c')
   \<and> (\<forall>t \<in> set (cancelled a). t < next_token a)"

definition issued_ok :: "'h auth \<Rightarrow> principal list \<Rightarrow> bool" where
  "issued_ok a ps \<longleftrightarrow>
     (\<forall>p \<in> set ps. p_revoked p < next_token a \<and> (p_revoked p \<in> set (cancelled a)
        \<or> \<not> blocked a \<and> (\<exists>d. hm_get (a_devices a) (p_client p) = Some d \<and> ds_cancel d = p_revoked p)))
   \<and> (\<forall>h t. hm_get (wst a) h = Some t \<longrightarrow> wt_principal t \<in> set ps)"

definition auth_inv :: "'h config \<Rightarrow> bool" where
  "auth_inv x \<longleftrightarrow> tables_ok (fst x) \<and> tokens_ok (fst x) \<and> issued_ok (fst x) (snd x)"

text \<open>The fields that only pairing, revocation, block and resume change.\<close>

definition core :: "'h auth \<Rightarrow> bool \<times> (uuid, device_state) hmap \<times> token \<times> token list" where
  "core a = (blocked a, a_devices a, next_token a, cancelled a)"

lemma core_eq: "core a = core b \<longleftrightarrow>
    blocked a = blocked b \<and> a_devices a = a_devices b \<and> next_token a = next_token b \<and> cancelled a = cancelled b"
  by (simp add: core_def)

section \<open>Lemmas: the simple operations\<close>

lemma core_prune [simp]: "core (prune now a) = core a"
  by (simp add: core_def prune_def)

lemma core_limit [simp]: "core (fst (anonymous_limit now a)) = core a"
  by (simp add: core_def anonymous_limit_def prune_def Let_def)

lemma tables_prune: "tables_ok a \<Longrightarrow> tables_ok (prune now a)"
  by (auto simp: tables_ok_def prune_def intro: order_trans [OF hm_len_retain])

lemma tables_limit: "tables_ok a \<Longrightarrow> tables_ok (fst (anonymous_limit now a))"
  by (auto simp: anonymous_limit_def Let_def intro!: tables_prune, auto simp: tables_ok_def)

lemma wst_prune: "tables_ok a \<Longrightarrow> hm_get (wst (prune now a)) h = Some t \<Longrightarrow> hm_get (wst a) h = Some t"
  by (auto simp: prune_def tables_ok_def hm.retain_Some)

lemma wst_limit: "tables_ok a \<Longrightarrow> hm_get (wst (fst (anonymous_limit now a))) h = Some t \<Longrightarrow> hm_get (wst a) h = Some t"
  by (auto simp: anonymous_limit_def Let_def prune_def tables_ok_def hm.retain_Some split: if_splits)

lemma hm_insert_le: "hm_len m < n \<Longrightarrow> hm_len (hm_insert k v m) \<le> n"
  using hm_len_insert_le [of k v m] by simp

lemma tables_insert:
  assumes "tables_ok a"
  shows "hm_len (pairs a) < 16 \<Longrightarrow> tables_ok (a\<lparr>pairs := hm_insert h v1 (pairs a)\<rparr>)"
    and "hm_len (challenges a) < 128 \<Longrightarrow> tables_ok (a\<lparr>challenges := hm_insert i v2 (challenges a)\<rparr>)"
    and "hm_len (access a) < 256 \<Longrightarrow> tables_ok (a\<lparr>access := hm_insert h v3 (access a)\<rparr>)"
    and "hm_len (wst a) < 128 \<Longrightarrow> tables_ok (a\<lparr>wst := hm_insert h v4 (wst a)\<rparr>)"
  using assms by (auto simp: tables_ok_def hm_insert_le)

lemma tables_remove:
  assumes "tables_ok a"
  shows "tables_ok (a\<lparr>pairs := hm_remove h (pairs a)\<rparr>)"
    and "tables_ok (a\<lparr>challenges := hm_remove i (challenges a)\<rparr>)"
    and "tables_ok (a\<lparr>wst := hm_remove h (wst a)\<rparr>)"
  using assms by (auto simp: tables_ok_def intro: order_trans [OF hm_len_remove])

lemma tokens_core: "core a = core b \<Longrightarrow> tokens_ok a = tokens_ok b"
  by (simp add: tokens_ok_def core_def)

lemma issued_core:
  assumes "core a = core b" "issued_ok b ps"
    and "\<And>h t. hm_get (wst a) h = Some t \<Longrightarrow> hm_get (wst b) h = Some t"
  shows "issued_ok a ps"
  using assms(1,2) by (simp add: issued_ok_def core_def) (blast dest: assms(3))

lemma inv_core:
  assumes "auth_inv (b, ps)" "core a = core b" "tables_ok a"
    and "\<And>h t. hm_get (wst a) h = Some t \<Longrightarrow> hm_get (wst b) h = Some t"
  shows "auth_inv (a, ps)"
  using assms tokens_core [OF assms(2)] issued_core [OF assms(2) _ assms(4)] by (simp add: auth_inv_def)

lemma inv_tables: "auth_inv (a, ps) \<Longrightarrow> tables_ok a"
  by (simp add: auth_inv_def)

lemma inv_prune: "auth_inv (a, ps) \<Longrightarrow> auth_inv (prune now a, ps)"
  by (rule inv_core [of a]) (auto simp: tables_prune inv_tables dest: wst_prune [rotated])

lemma inv_limit: "auth_inv (a, ps) \<Longrightarrow> auth_inv (fst (anonymous_limit now a), ps)"
  by (rule inv_core [of a]) (auto simp: tables_limit inv_tables dest: wst_limit [rotated])

lemma inv_issue_pair_ticket:
  assumes "auth_inv (a, ps)"
  shows "auth_inv (fst (issue_pair_ticket cr now sec sc a), ps)"
proof -
  have p: "auth_inv (prune now a, ps)" by (rule inv_prune [OF assms])
  have "auth_inv ((prune now a)\<lparr>pairs := hm_insert h v (pairs (prune now a))\<rparr>, ps)"
    if "\<not> 16 \<le> hm_len (pairs (prune now a))" for h v
    using that by (intro inv_core [OF p] tables_insert inv_tables [OF p]) (auto simp: core_def)
  with p assms show ?thesis
    by (auto simp: issue_pair_ticket_def ensure_open_def Let_def)
qed

lemma inv_challenge:
  assumes "auth_inv (a, ps)"
  shows "auth_inv (fst (challenge cr now wall iid nonce c a), ps)"
proof -
  obtain a1 r where lim: "anonymous_limit now a = (a1, r)" by (cases "anonymous_limit now a")
  have p: "auth_inv (a1, ps)" using inv_limit [OF assms, of now] lim by simp
  have "auth_inv (a1\<lparr>challenges := hm_insert iid v (challenges a1)\<rparr>, ps)"
    if "\<not> 128 \<le> hm_len (challenges a1)" for v
    using that by (intro inv_core [OF p] tables_insert inv_tables [OF p]) (auto simp: core_def)
  with p assms lim show ?thesis
    by (auto simp: challenge_def ensure_open_def Let_def split: sum.splits)
qed

lemma inv_verify_challenge:
  assumes "auth_inv (a, ps)"
  shows "auth_inv (fst (verify_challenge cr now sec iid sig a), ps)"
proof -
  obtain a1 r where lim: "anonymous_limit now a = (a1, r)" by (cases "anonymous_limit now a")
  have p: "auth_inv (a1, ps)" using inv_limit [OF assms, of now] lim by simp
  let ?a2 = "a1\<lparr>challenges := hm_remove iid (challenges a1)\<rparr>"
  have p2: "auth_inv (?a2, ps)"
    by (intro inv_core [OF p] tables_remove inv_tables [OF p]) (auto simp: core_def)
  have "auth_inv (?a2\<lparr>access := hm_insert h v (access ?a2)\<rparr>, ps)" if "\<not> 256 \<le> hm_len (access ?a2)" for h v
    using that by (intro inv_core [OF p2] tables_insert inv_tables [OF p2]) (auto simp: core_def)
  with p p2 assms lim show ?thesis
    by (auto simp: verify_challenge_def ensure_open_def Let_def split: sum.splits option.splits)
qed

lemma inv_issue_ws:
  assumes "auth_inv (a, ps)" "p \<in> set ps"
  shows "auth_inv (fst (issue_ws cr now sec p ch se a), ps)"
proof -
  have pr: "auth_inv (prune now a, ps)" by (rule inv_prune [OF assms(1)])
  let ?a = "prune now a"
  have "auth_inv (?a\<lparr>wst := hm_insert h \<lparr>wt_principal = p, wt_channel = ch, wt_session = se, wt_until = u\<rparr> (wst ?a)\<rparr>, ps)"
    if "\<not> 128 \<le> hm_len (wst ?a)" for h u
  proof -
    have "tables_ok (?a\<lparr>wst := hm_insert h \<lparr>wt_principal = p, wt_channel = ch, wt_session = se, wt_until = u\<rparr> (wst ?a)\<rparr>)"
      using that by (intro tables_insert inv_tables [OF pr]) simp
    with pr assms(2) show ?thesis by (simp add: auth_inv_def tokens_ok_def issued_ok_def)
  qed
  with pr assms show ?thesis
    by (auto simp: issue_ws_def Let_def split: sum.splits)
qed

lemma consume_ws_principal:
  assumes "auth_inv (a, ps)" "snd (consume_ws cr now tok ch a) = Ok (p, se)"
  shows "p \<in> set ps"
proof -
  have "auth_inv (prune now a, ps)" by (rule inv_prune [OF assms(1)])
  then have "\<forall>h t. hm_get (wst (prune now a)) h = Some t \<longrightarrow> wt_principal t \<in> set ps"
    by (simp add: auth_inv_def issued_ok_def)
  with assms(2) show ?thesis
    by (auto simp: consume_ws_def ensure_open_def Let_def split: if_splits option.splits sum.splits)
qed

lemma inv_consume_ws:
  assumes "auth_inv (a, ps)"
  shows "auth_inv (fst (consume_ws cr now tok ch a), ps)"
proof -
  have p: "auth_inv (prune now a, ps)" by (rule inv_prune [OF assms])
  have "auth_inv ((prune now a)\<lparr>wst := hm_remove h (wst (prune now a))\<rparr>, ps)" for h
    by (intro inv_core [OF p] tables_remove inv_tables [OF p]) (auto simp: core_def split: if_splits)
  with p assms show ?thesis
    by (auto simp: consume_ws_def ensure_open_def Let_def split: option.splits sum.splits)
qed

lemma inv_more_principals: "auth_inv (a, ps) \<Longrightarrow> p \<in> set ps \<Longrightarrow> auth_inv (a, p # ps)"
  by (auto simp: auth_inv_def issued_ok_def)

lemma inv_new_principal:
  assumes "auth_inv (a, ps)" "\<not> blocked a" "active_device a (p_client p) = Some d" "p_revoked p = ds_cancel d"
  shows "auth_inv (a, p # ps)"
  using assms by (auto simp: auth_inv_def issued_ok_def tokens_ok_def active_device_def split: option.splits if_splits)

section \<open>Lemmas: pairing, revocation, block and resume\<close>

lemma inv_pair:
  assumes "auth_inv (a, ps)" "\<not> hm_contains (a_devices a) fresh"
  shows "auth_inv (fst (pair cr now fresh ok t k l a), ps)"
proof -
  obtain a1 r where lim: "anonymous_limit now a = (a1, r)" by (cases "anonymous_limit now a")
  have p: "auth_inv (a1, ps)" using inv_limit [OF assms(1), of now] lim by simp
  have fr: "hm_get (a_devices a1) fresh = None"
    using assms(2) core_limit [of now a] lim by (simp add: core_eq)
  let ?a2 = "a1\<lparr>pairs := hm_remove (digest cr t) (pairs a1)\<rparr>"
  have p2: "auth_inv (?a2, ps)"
    by (intro inv_core [OF p] tables_remove inv_tables [OF p]) (auto simp: core_def)
  have "auth_inv (?a2\<lparr>a_store := st, a_devices := hm_insert fresh \<lparr>ds_device = d, ds_cancel = next_token ?a2\<rparr> (a_devices ?a2),
      next_token := Suc (next_token ?a2)\<rparr>, ps)" if "\<not> d_revoked d" for st d
  proof -
    have "tokens_ok (?a2\<lparr>a_store := st, a_devices := hm_insert fresh \<lparr>ds_device = d, ds_cancel = next_token ?a2\<rparr> (a_devices ?a2),
      next_token := Suc (next_token ?a2)\<rparr>)"
      using p2 that fr unfolding auth_inv_def tokens_ok_def by (auto 0 3 intro: less_SucI)
    moreover have "issued_ok (?a2\<lparr>a_store := st, a_devices := hm_insert fresh \<lparr>ds_device = d, ds_cancel = next_token ?a2\<rparr> (a_devices ?a2),
      next_token := Suc (next_token ?a2)\<rparr>) ps"
      using p2 fr unfolding auth_inv_def issued_ok_def by (fastforce intro: less_SucI)
    moreover have "tables_ok (?a2\<lparr>a_store := st, a_devices := hm_insert fresh \<lparr>ds_device = d, ds_cancel = next_token ?a2\<rparr> (a_devices ?a2),
      next_token := Suc (next_token ?a2)\<rparr>)"
      using inv_tables [OF p2] by (simp add: tables_ok_def)
    ultimately show ?thesis by (simp add: auth_inv_def)
  qed
  with p p2 assms(1) lim show ?thesis
    by (auto simp: pair_def ensure_open_def Let_def split: sum.splits option.splits)
qed

lemma inv_revoke:
  assumes "auth_inv (a, ps)"
  shows "auth_inv (fst (revoke ok c a), ps)"
proof (cases "hm_get (a_devices a) c")
  case None
  with assms show ?thesis by (simp add: revoke_def)
next
  case (Some d)
  let ?d1 = "d\<lparr>ds_device := (ds_device d)\<lparr>d_revoked := True\<rparr>\<rparr>"
  let ?a1 = "a\<lparr>a_devices := hm_insert c ?d1 (a_devices a), cancelled := ds_cancel d # cancelled a\<rparr>"
  have tb: "tables_ok a" "tokens_ok a" "issued_ok a ps" using assms by (simp_all add: auth_inv_def)
  have "tokens_ok ?a1" using tb(2) Some unfolding tokens_ok_def by (auto split: if_splits)
  moreover have "issued_ok ?a1 ps" using tb(3) Some unfolding issued_ok_def by (fastforce split: if_splits)
  moreover have "tables_ok ?a1" using tb(1) by (simp add: tables_ok_def)
  ultimately have p1: "auth_inv (?a1, ps)" by (simp add: auth_inv_def)
  have "tables_ok (?a1\<lparr>a_store := st, access := hm_retain f (access ?a1), wst := hm_retain g (wst ?a1)\<rparr>)" for st f g
    using tb(1) by (auto simp: tables_ok_def intro: order_trans [OF hm_len_retain])
  then have "auth_inv (?a1\<lparr>a_store := st, access := hm_retain f (access ?a1), wst := hm_retain g (wst ?a1)\<rparr>, ps)" for st f g
    using tb(1) by (intro inv_core [OF p1]) (auto simp: core_def tables_ok_def hm.retain_Some)
  with p1 Some show ?thesis by (simp add: revoke_def Let_def)
qed

lemma block_tokens:
  "hm_get m c = Some d \<Longrightarrow> ds_cancel d \<in> set (map (ds_cancel \<circ> snd) m)"
  by (auto dest!: hm_get_in_set intro: image_eqI [rotated])

lemma inv_block:
  assumes "auth_inv (a, ps)"
  shows "auth_inv (block_all ok a, ps)"
proof -
  have tb: "tables_ok a" "tokens_ok a" "issued_ok a ps" using assms by (simp_all add: auth_inv_def)
  have "\<forall>(c, d) \<in> set (a_devices a). ds_cancel d < next_token a"
    using tb(1,2) by (auto simp: tables_ok_def tokens_ok_def hm_in_set_get)
  then have "tokens_ok (block_all ok a)"
    using tb(2) unfolding tokens_ok_def block_all_def by (auto simp: comp_def)
  moreover have "issued_ok (block_all ok a) ps"
    using tb(3) block_tokens [of "a_devices a"] unfolding issued_ok_def block_all_def by fastforce
  moreover have "tables_ok (block_all ok a)" using tb(1) by (simp add: tables_ok_def block_all_def)
  ultimately show ?thesis by (simp add: auth_inv_def)
qed

lemma fresh_tokens_fst: "map fst (fst (fresh_tokens m t)) = map fst m"
  by (induction m t rule: fresh_tokens.induct) (auto split: prod.splits)

lemma fresh_tokens_le: "t \<le> snd (fresh_tokens m t)"
  by (induction m t rule: fresh_tokens.induct) (auto split: prod.splits)

lemma fresh_tokens_get:
  "hm_get (fst (fresh_tokens m t)) c = Some d \<Longrightarrow>
     (if d_revoked (ds_device d) then hm_get m c = Some d else t \<le> ds_cancel d \<and> ds_cancel d < snd (fresh_tokens m t))"
proof (induction m t rule: fresh_tokens.induct)
  case (2 i e r t)
  then show ?case
    using fresh_tokens_le [of "Suc t" r]
    by (auto simp: Let_def split: prod.splits if_splits)
qed simp

lemma fresh_tokens_Cons:
  "fst (fresh_tokens ((i, e) # r) t) =
     (if d_revoked (ds_device e) then (i, e) # fst (fresh_tokens r t)
      else (i, e\<lparr>ds_cancel := t\<rparr>) # fst (fresh_tokens r (Suc t)))"
  by (auto simp: Let_def split: prod.splits)

lemma fresh_tokens_inj:
  "hm_get (fst (fresh_tokens m t)) c = Some d \<Longrightarrow> hm_get (fst (fresh_tokens m t)) c' = Some d' \<Longrightarrow>
     \<not> d_revoked (ds_device d) \<Longrightarrow> \<not> d_revoked (ds_device d') \<Longrightarrow> ds_cancel d = ds_cancel d' \<Longrightarrow> c = c'"
proof (induction m arbitrary: t)
  case Nil
  then show ?case by simp
next
  case (Cons x r)
  obtain i e where x: "x = (i, e)" by (cases x)
  show ?case
  proof (cases "d_revoked (ds_device e)")
    case True
    with Cons.prems have "hm_get (fst (fresh_tokens r t)) c = Some d" "hm_get (fst (fresh_tokens r t)) c' = Some d'"
      by (auto simp: x fresh_tokens_Cons simp del: fresh_tokens.simps split: if_splits)
    then show ?thesis using Cons.IH Cons.prems(3-5) by blast
  next
    case False
    have in_r: "hm_get (fst (fresh_tokens r (Suc t))) k = Some f" "Suc t \<le> ds_cancel f"
      if "hm_get (fst (fresh_tokens (x # r) t)) k = Some f" "k \<noteq> i" "\<not> d_revoked (ds_device f)" for k f
      using that False fresh_tokens_get [of r "Suc t" k f]
      by (auto simp: x fresh_tokens_Cons simp del: fresh_tokens.simps)
    have at_i: "ds_cancel f = t" if "hm_get (fst (fresh_tokens (x # r) t)) i = Some f" for f
      using that False by (auto simp: x fresh_tokens_Cons simp del: fresh_tokens.simps)
    show ?thesis
    proof (cases "c = i \<or> c' = i")
      case True
      then show ?thesis using in_r(2) at_i Cons.prems by fastforce
    next
      case False
      then show ?thesis using Cons.IH in_r(1) Cons.prems by blast
    qed
  qed
qed

lemma inv_resume:
  assumes "auth_inv (a, ps)" "blocked a"
  shows "auth_inv (resume_local ok a, ps)"
proof (cases ok)
  case False
  with assms show ?thesis by (simp add: resume_local_def)
next
  case True
  obtain m t where m: "fresh_tokens (a_devices a) (next_token a) = (m, t)" by (cases "fresh_tokens (a_devices a) (next_token a)")
  have tb: "tables_ok a" "tokens_ok a" "issued_ok a ps" using assms by (simp_all add: auth_inv_def)
  note get = fresh_tokens_get [of "a_devices a" "next_token a", unfolded m fst_conv snd_conv]
  note inj = fresh_tokens_inj [of "a_devices a" "next_token a", unfolded m fst_conv snd_conv]
  have le: "next_token a \<le> t" using fresh_tokens_le [of "next_token a" "a_devices a"] m by simp
  have old: "ds_cancel d < next_token a \<and> ds_cancel d \<in> set (cancelled a)"
    if "hm_get m c = Some d" "d_revoked (ds_device d)" for c d
    using get [OF that(1)] that(2) tb(2) by (simp add: tokens_ok_def)
  have new: "next_token a \<le> ds_cancel d \<and> ds_cancel d < t" if "hm_get m c = Some d" "\<not> d_revoked (ds_device d)" for c d
    using get [OF that(1)] that(2) by simp
  have uniq: "c = c'" if "hm_get m c = Some d" "hm_get m c' = Some d'" "ds_cancel d = ds_cancel d'" for c d c' d'
  proof (cases "d_revoked (ds_device d) = d_revoked (ds_device d')")
    case True
    then show ?thesis
      using inj [OF that(1,2)] get [OF that(1)] get [OF that(2)] that(3) tb(2)
      by (cases "d_revoked (ds_device d)") (auto simp: tokens_ok_def)
  next
    case False
    then show ?thesis using old new that by (metis leD)
  qed
  have "tokens_ok (resume_local ok a)"
    unfolding tokens_ok_def
  proof (intro conjI allI impI ballI)
    fix c d assume "hm_get (a_devices (resume_local ok a)) c = Some d"
    then have g: "hm_get m c = Some d" using True m by (simp add: resume_local_def)
    then show "ds_cancel d < next_token (resume_local ok a)"
      using old [OF g] new [OF g] le True m by (cases "d_revoked (ds_device d)") (auto simp: resume_local_def)
    show "ds_cancel d \<in> set (cancelled (resume_local ok a))" if "d_revoked (ds_device d)"
      using old [OF g that] True m by (simp add: resume_local_def)
  next
    fix c d c' d'
    assume "hm_get (a_devices (resume_local ok a)) c = Some d" "hm_get (a_devices (resume_local ok a)) c' = Some d'"
      "ds_cancel d = ds_cancel d'"
    then show "c = c'" using uniq True m by (simp add: resume_local_def)
  next
    fix x assume "x \<in> set (cancelled (resume_local ok a))"
    then show "x < next_token (resume_local ok a)"
      using tb(2) le True m by (auto simp: resume_local_def tokens_ok_def intro: less_le_trans)
  qed
  moreover have "issued_ok (resume_local ok a) ps"
    using tb(3) le True m assms(2) unfolding issued_ok_def resume_local_def by (auto intro: less_le_trans)
  moreover have "tables_ok (resume_local ok a)"
    using tb(1) True m fresh_tokens_fst [of "a_devices a" "next_token a"]
    by (simp add: tables_ok_def resume_local_def hm_wf_def)
  ultimately show ?thesis by (simp add: auth_inv_def)
qed

lemma load_devices_Cons:
  "fst (load_devices (d # ds) t) = (d_client_id d, \<lparr>ds_device = d, ds_cancel = t\<rparr>) # fst (load_devices ds (Suc t))"
  "snd (load_devices (d # ds) t) = (if d_revoked d then t # snd (load_devices ds (Suc t)) else snd (load_devices ds (Suc t)))"
  by (auto simp: Let_def split: prod.splits)

lemma load_devices_fst: "map fst (fst (load_devices ds t)) = map d_client_id ds"
  by (induction ds arbitrary: t) (auto simp: load_devices_Cons simp del: load_devices.simps(2))

lemma load_devices_get:
  "hm_get (fst (load_devices ds t)) c = Some d \<Longrightarrow> t \<le> ds_cancel d \<and> ds_cancel d < t + length ds
     \<and> (d_revoked (ds_device d) \<longrightarrow> ds_cancel d \<in> set (snd (load_devices ds t)))"
proof (induction ds arbitrary: t)
  case (Cons e ds)
  show ?case
  proof (cases "c = d_client_id e")
    case True
    with Cons.prems show ?thesis by (auto simp: load_devices_Cons simp del: load_devices.simps(2))
  next
    case False
    with Cons.prems have "hm_get (fst (load_devices ds (Suc t))) c = Some d"
      by (simp add: load_devices_Cons del: load_devices.simps(2))
    from Cons.IH [OF this] show ?thesis by (auto simp: load_devices_Cons simp del: load_devices.simps(2))
  qed
qed simp

lemma load_devices_inj:
  "hm_get (fst (load_devices ds t)) c = Some d \<Longrightarrow> hm_get (fst (load_devices ds t)) c' = Some d' \<Longrightarrow>
     ds_cancel d = ds_cancel d' \<Longrightarrow> c = c'"
proof (induction ds arbitrary: t)
  case (Cons e ds)
  then show ?case
    using load_devices_get [of ds "Suc t" c d] load_devices_get [of ds "Suc t" c' d']
    by (auto simp: load_devices_Cons simp del: load_devices.simps(2) split: if_splits)
qed simp

lemma load_devices_cancelled: "x \<in> set (snd (load_devices ds t)) \<Longrightarrow> x < t + length ds"
proof (induction ds arbitrary: t)
  case (Cons e ds)
  then show ?case
    using Cons.IH [of "Suc t"]
    by (auto simp: load_devices_Cons simp del: load_devices.simps(2) split: if_splits)
qed simp

lemma inv_start: "start_config x \<Longrightarrow> auth_inv x"
proof -
  assume "start_config x"
  then obtain st aud now where st: "store_wf st" "\<forall>(i, d) \<in> set (dev_rows st). d_client_id d = i"
    and x: "x = (new_auth st aud now, [])" by (auto simp: start_config_def)
  obtain m c where mc: "load_devices (devices_of st) 0 = (m, c)" by (cases "load_devices (devices_of st) 0")
  have keys: "map fst m = map fst (dev_rows st)"
    using load_devices_fst [of "devices_of st" 0] st(2) mc by (auto simp: devices_of_def)
  have a: "new_auth st aud now = \<lparr>blocked = remote_blocked st, a_devices = m, pairs = [], challenges = [], access = [],
      wst = [], window_start = now, requests = 0, a_store = st, audience = aud, next_token = length (devices_of st),
      cancelled = c\<rparr>" by (simp add: new_auth_def mc)
  have "hm_wf m" using keys st(1) by (simp add: store_wf_def hm_wf_def)
  then have "tables_ok (new_auth st aud now)" by (simp add: a tables_ok_def)
  moreover have "tokens_ok (new_auth st aud now)"
    using load_devices_get [of "devices_of st" 0] load_devices_inj [of "devices_of st" 0]
      load_devices_cancelled [of _ "devices_of st" 0] unfolding a tokens_ok_def mc by auto
  ultimately show ?thesis by (simp add: x auth_inv_def issued_ok_def a)
qed

lemma authorize_Ok:
  assumes "authorize cr now tok a = Ok p"
  shows "\<not> blocked a \<and> (\<exists>r d. hm_get (access a) (digest cr tok) = Some r \<and> now < ac_until r
    \<and> active_device a (p_client p) = Some d \<and> p_revoked p = ds_cancel d \<and> p_scopes p = d_scopes (ds_device d)
    \<and> ac_client r = p_client p \<and> p_expires p = ac_until r)"
  using assms by (auto simp: authorize_def ensure_open_def split: if_splits option.splits)

lemma device_principal_Ok:
  assumes "device_principal now c a = Ok p"
  shows "\<not> blocked a \<and> p_client p = c \<and> (\<exists>d. active_device a c = Some d \<and> p_revoked p = ds_cancel d)"
  using assms by (auto simp: device_principal_def ensure_open_def split: if_splits option.splits)

lemma inv_step: "auth_step cr S x y \<Longrightarrow> auth_inv x \<Longrightarrow> auth_inv y"
proof (induction rule: auth_step.induct)
  case (s_authorize now tok a p ps)
  then show ?case using authorize_Ok [OF s_authorize(1)] by (auto intro: inv_new_principal)
next
  case (s_device now c a p ps)
  then show ?case using device_principal_Ok [OF s_device(1)] by (auto intro: inv_new_principal)
next
  case (s_consume_ws a ps now tok ch)
  then show ?case
    by (auto split: sum.split prod.split intro: inv_consume_ws inv_more_principals consume_ws_principal)
qed (simp_all add: inv_issue_pair_ticket inv_pair inv_challenge inv_verify_challenge inv_issue_ws
    inv_revoke inv_block inv_resume)

lemma inv_reachable: "reachable cr x \<Longrightarrow> auth_inv x"
proof -
  have "(auth_step cr UNIV)\<^sup>*\<^sup>* x0 x \<Longrightarrow> auth_inv x0 \<Longrightarrow> auth_inv x" for x0
    by (induction rule: rtranclp_induct) (auto intro: inv_step)
  then show "reachable cr x \<Longrightarrow> auth_inv x" by (auto simp: reachable_def inv_start)
qed

lemma reachable_step: "reachable cr x \<Longrightarrow> (auth_step cr UNIV)\<^sup>*\<^sup>* x y \<Longrightarrow> reachable cr y"
  unfolding reachable_def by (meson rtranclp_trans)

text \<open>A revoked device stays revoked.\<close>

definition revoked_in :: "'h auth \<Rightarrow> uuid \<Rightarrow> bool" where
  "revoked_in a c \<longleftrightarrow> (\<exists>d. hm_get (a_devices a) c = Some d \<and> d_revoked (ds_device d))"

lemma revoked_core: "core a = core b \<Longrightarrow> revoked_in a c = revoked_in b c"
  by (simp add: revoked_in_def core_def)

lemma fresh_tokens_revoked:
  "hm_get m c = Some d \<Longrightarrow> d_revoked (ds_device d) \<Longrightarrow> hm_get (fst (fresh_tokens m t)) c = Some d"
  by (induction m arbitrary: t) (auto simp: fresh_tokens_Cons simp del: fresh_tokens.simps(2))

lemma core_simple:
  "core (fst (issue_pair_ticket cr now sec sc a)) = core a"
  "core (fst (challenge cr now wall iid nonce c a)) = core a"
  "core (fst (verify_challenge cr now sec iid sig a)) = core a"
  "core (fst (issue_ws cr now sec p ch se a)) = core a"
  "core (fst (consume_ws cr now tok ch a)) = core a"
proof -
  have lim: "anonymous_limit now a = (a1, r) \<Longrightarrow> core a1 = core a" for a1 r
    using core_limit [of now a] by simp
  show "core (fst (issue_pair_ticket cr now sec sc a)) = core a"
    by (auto simp: issue_pair_ticket_def ensure_open_def Let_def) (simp_all add: core_def prune_def)
  show "core (fst (challenge cr now wall iid nonce c a)) = core a"
    by (auto simp: challenge_def ensure_open_def Let_def core_def dest!: lim split: sum.splits prod.splits)
  show "core (fst (verify_challenge cr now sec iid sig a)) = core a"
    by (auto simp: verify_challenge_def ensure_open_def Let_def core_def dest!: lim split: sum.splits prod.splits option.splits)
  show "core (fst (issue_ws cr now sec p ch se a)) = core a"
    by (auto simp: issue_ws_def Let_def split: sum.splits) (simp_all add: core_def prune_def)
  show "core (fst (consume_ws cr now tok ch a)) = core a"
    by (auto simp: consume_ws_def ensure_open_def Let_def split: sum.splits option.splits) (simp_all add: core_def prune_def)
qed

lemma revoked_step: "auth_step cr S x y \<Longrightarrow> revoked_in (fst x) c \<Longrightarrow> revoked_in (fst y) c"
proof (induction rule: auth_step.induct)
  case (s_pair a fresh ps now ok t k l)
  then have ne: "c \<noteq> fresh" by (auto simp: revoked_in_def)
  obtain a1 r where lim: "anonymous_limit now a = (a1, r)" by (cases "anonymous_limit now a")
  then have "revoked_in a1 c" using s_pair(2) core_limit [of now a] revoked_core by fastforce
  then show ?case using s_pair(2) lim ne
    by (auto simp: pair_def ensure_open_def Let_def revoked_in_def split: sum.splits option.splits)
next
  case (s_revoke a ps ok d)
  then show ?case by (auto simp: revoke_def revoked_in_def Let_def split: option.splits)
next
  case (s_resume a ps ok)
  then show ?case
    using fresh_tokens_revoked [of "a_devices a" c _ "next_token a"]
    by (auto simp: resume_local_def revoked_in_def split: prod.splits)
qed (simp_all add: revoked_core [OF core_simple(1)] revoked_core [OF core_simple(2)] revoked_core [OF core_simple(3)]
    revoked_core [OF core_simple(4)] revoked_core [OF core_simple(5)], simp add: block_all_def revoked_in_def)

lemma revoked_run: "(auth_step cr S)\<^sup>*\<^sup>* x y \<Longrightarrow> revoked_in (fst x) c \<Longrightarrow> revoked_in (fst y) c"
  by (induction rule: rtranclp_induct) (auto intro: revoked_step)

lemma revoke_revokes: "hm_contains (a_devices a) c \<Longrightarrow> revoked_in (fst (revoke ok c a)) c"
  by (auto simp: revoke_def revoked_in_def Let_def)

lemma revoked_token:
  assumes "auth_inv (a, ps)" "revoked_in a (p_client p)" "p \<in> set ps"
  shows "p_revoked p \<in> set (cancelled a)"
proof -
  from assms(2) obtain d where d: "hm_get (a_devices a) (p_client p) = Some d" "ds_cancel d \<in> set (cancelled a)"
    using assms(1) by (auto simp: revoked_in_def auth_inv_def tokens_ok_def)
  then show ?thesis using assms(1,3) by (fastforce simp: auth_inv_def issued_ok_def)
qed

text \<open>The concrete parameters of the instances below: the digest is the identity.\<close>

definition plain_crypto :: "str crypto" where
  "plain_crypto = \<lparr>digest = (\<lambda>s. s), b64_decode = Some, key_valid = (\<lambda>_. True), sig_valid = (\<lambda>_. True),
     sig_verify = (\<lambda>k m s. s = k @ m), uuid_text = (\<lambda>u. be_bytes 16 (unat u))\<rparr>"

text \<open>A store with one device, number 7, and the state after start-up.\<close>

definition one_device :: store where
  "one_device = save_device empty_store \<lparr>d_client_id = 7, d_public_key = [1], d_label = [0x61],
     d_scopes = owner_scopes, d_revoked = False\<rparr>"

definition one_auth :: "str auth" where
  "one_auth = new_auth one_device (lit ''host'') 0"

definition one_principal :: principal where
  "one_principal = \<lparr>p_client = 7, p_scopes = owner_scopes, p_expires = secs 60, p_revoked = 0\<rparr>"

lemma one_start: "start_config (one_auth, [])"
proof -
  have "store_wf one_device" by (simp add: one_device_def)
  moreover have "\<forall>(i, d) \<in> set (dev_rows one_device). d_client_id d = i"
    by (simp add: one_device_def save_device_def empty_store_def hm_insert_def)
  ultimately show ?thesis unfolding start_config_def one_auth_def by blast
qed

lemma one_principal_step: "device_principal 0 7 one_auth = Ok one_principal"
  by (simp add: device_principal_def ensure_open_def one_auth_def new_auth_def one_device_def save_device_def
      empty_store_def hm_insert_def devices_of_def remote_blocked_def active_device_def one_principal_def)

lemma one_reachable: "reachable plain_crypto (one_auth, [one_principal])"
  unfolding reachable_def using one_start s_device [OF one_principal_step, of plain_crypto UNIV "[]"] by blast

lemma one_has_device: "hm_contains (a_devices one_auth) 7"
  by (simp add: one_auth_def new_auth_def one_device_def save_device_def empty_store_def hm_insert_def devices_of_def)

section \<open>Properties\<close>



text \<open>Revocation is exact: revoking one device changes the verdict for no principal of another
  device.\<close>

theorem revoke_is_exact:
  assumes "reachable cr (a, ps)" "p \<in> set ps" "p_client p \<noteq> c"
  shows "require (cancelled (fst (revoke ok c a))) now p s = require (cancelled a) now p s"
proof -
  have inv: "tokens_ok a" "issued_ok a ps" using inv_reachable [OF assms(1)] by (simp_all add: auth_inv_def)
  show ?thesis
  proof (cases "hm_get (a_devices a) c")
    case None
    then show ?thesis by (simp add: revoke_def)
  next
    case (Some d)
    have "p_revoked p \<noteq> ds_cancel d \<or> p_revoked p \<in> set (cancelled a)"
      using inv Some assms(2,3) unfolding issued_ok_def tokens_ok_def by metis
    with Some show ?thesis by (auto simp: revoke_def Let_def require_def)
  qed
qed

theorem revoke_is_exact_witness:
  "require (cancelled (fst (revoke True 8 one_auth))) 0 one_principal TerminalWrite
     = require (cancelled one_auth) 0 one_principal TerminalWrite"
  by (rule revoke_is_exact [OF one_reachable]) (simp_all add: one_principal_def)

text \<open>The remote block is complete: while it is set, every principal handed out is refused, and
  pairing, challenges, verification, authorization, device principals and ticket redemption all
  answer \<open>Forbidden\<close> without touching the state; \<open>block_all\<close> sets it even when the database write
  fails.\<close>

theorem block_is_complete:
  assumes "reachable cr (a, ps)" "blocked a \<or> a = block_all ok b"
  shows "(\<forall>p \<in> set ps. require (cancelled a) now p s = Err DeviceRevoked)
    \<and> issue_pair_ticket cr now sec sc a = (a, Err Forbidden)
    \<and> pair cr now fresh db t k l a = (a, Err Forbidden)
    \<and> challenge cr now wall iid nonce c a = (a, Err Forbidden)
    \<and> verify_challenge cr now sec iid sig a = (a, Err Forbidden)
    \<and> authorize cr now tok a = Err Forbidden \<and> device_principal now c a = Err Forbidden
    \<and> consume_ws cr now tok ch a = (a, Err Forbidden)"
proof -
  have b: "blocked a" using assms(2) by (auto simp: block_all_def)
  then have "\<forall>p \<in> set ps. require (cancelled a) now p s = Err DeviceRevoked"
    using inv_reachable [OF assms(1)] by (auto simp: auth_inv_def issued_ok_def require_def)
  with b show ?thesis
    by (simp add: issue_pair_ticket_def pair_def challenge_def verify_challenge_def authorize_def
        device_principal_def consume_ws_def ensure_open_def)
qed

theorem block_is_complete_witness:
  "let a = block_all False one_auth in
   (\<forall>p \<in> set [one_principal]. require (cancelled a) 0 p TerminalRead = Err DeviceRevoked)
    \<and> issue_pair_ticket plain_crypto 0 [1] owner_scopes a = (a, Err Forbidden)
    \<and> pair plain_crypto 0 9 True [1] [2] [3] a = (a, Err Forbidden)
    \<and> challenge plain_crypto 0 0 [1] [2] 7 a = (a, Err Forbidden)
    \<and> verify_challenge plain_crypto 0 [1] [1] [2] a = (a, Err Forbidden)
    \<and> authorize plain_crypto 0 [1] a = Err Forbidden \<and> device_principal 0 7 a = Err Forbidden
    \<and> consume_ws plain_crypto 0 [1] (lit ''control'') a = (a, Err Forbidden)"
  unfolding Let_def
proof (rule block_is_complete [where b = one_auth and ok = False])
  show "reachable plain_crypto (block_all False one_auth, [one_principal])"
    by (rule reachable_step [OF one_reachable], rule r_into_rtranclp, rule s_block)
qed simp

text \<open>What the steps may add to the tables: only entries under the secrets they draw.\<close>

definition unused :: "'h crypto \<Rightarrow> str set \<Rightarrow> str \<Rightarrow> bool" where
  "unused cr S tok \<longleftrightarrow> (\<forall>sec \<in> S. sec \<noteq> tok \<and> digest cr sec \<noteq> digest cr tok)"

definition absent :: "'h crypto \<Rightarrow> str \<Rightarrow> 'h auth \<Rightarrow> bool \<times> bool \<times> bool" where
  "absent cr tok a = (hm_get (pairs a) (digest cr tok) = None, hm_get (challenges a) tok = None,
     hm_get (wst a) (digest cr tok) = None)"

definition stays :: "bool \<times> bool \<times> bool \<Rightarrow> bool \<times> bool \<times> bool \<Rightarrow> bool" where
  "stays x y \<longleftrightarrow> (fst x \<longrightarrow> fst y) \<and> (fst (snd x) \<longrightarrow> fst (snd y)) \<and> (snd (snd x) \<longrightarrow> snd (snd y))"

lemma stays_refl [simp]: "stays x x"
  by (simp add: stays_def)

lemma stays_trans: "stays x y \<Longrightarrow> stays y z \<Longrightarrow> stays x z"
  by (simp add: stays_def)

lemma stays_prune: "tables_ok a \<Longrightarrow> stays (absent cr tok a) (absent cr tok (prune now a))"
  by (auto simp: stays_def absent_def prune_def tables_ok_def hm_get_retain)

lemma stays_limit: "tables_ok a \<Longrightarrow> anonymous_limit now a = (a1, r) \<Longrightarrow> stays (absent cr tok a) (absent cr tok a1)"
  by (auto simp: stays_def absent_def anonymous_limit_def Let_def prune_def tables_ok_def hm_get_retain split: if_splits)

lemma absent_update:
  "digest cr tok \<noteq> h \<Longrightarrow> absent cr tok (a\<lparr>pairs := hm_insert h v1 (pairs a)\<rparr>) = absent cr tok a"
  "tok \<noteq> i \<Longrightarrow> absent cr tok (a\<lparr>challenges := hm_insert i v2 (challenges a)\<rparr>) = absent cr tok a"
  "digest cr tok \<noteq> h \<Longrightarrow> absent cr tok (a\<lparr>wst := hm_insert h v3 (wst a)\<rparr>) = absent cr tok a"
  "absent cr tok (a\<lparr>access := m\<rparr>) = absent cr tok a"
  "stays (absent cr tok a) (absent cr tok (a\<lparr>pairs := hm_remove h (pairs a)\<rparr>))"
  "stays (absent cr tok a) (absent cr tok (a\<lparr>challenges := hm_remove i (challenges a)\<rparr>))"
  "stays (absent cr tok a) (absent cr tok (a\<lparr>wst := hm_remove h (wst a)\<rparr>))"
  by (auto simp: absent_def stays_def)

lemma absent_step:
  assumes "auth_step cr S x y" "auth_inv x" "unused cr S tok"
  shows "stays (absent cr tok (fst x)) (absent cr tok (fst y))"
  using assms
proof (induction rule: auth_step.induct)
  case (s_ticket sec a ps now sc)
  have "stays (absent cr tok a) (absent cr tok (prune now a))" using s_ticket inv_tables stays_prune by blast
  then show ?case using s_ticket
    by (auto simp: issue_pair_ticket_def ensure_open_def Let_def unused_def absent_update(1))
next
  case (s_pair a fresh ps now ok t k l)
  obtain a1 r where lim: "anonymous_limit now a = (a1, r)" by (cases "anonymous_limit now a")
  have l1: "stays (absent cr tok a) (absent cr tok a1)" using s_pair inv_tables stays_limit lim by blast
  have l2: "stays (absent cr tok a) (absent cr tok (a1\<lparr>pairs := hm_remove (digest cr t) (pairs a1)\<rparr>))"
    using stays_trans [OF l1 absent_update(5)] .
  then show ?case using l1 lim
    by (auto simp: pair_def ensure_open_def Let_def split: sum.splits option.splits) (auto simp: absent_def)
next
  case (s_challenge iid a ps now wall nonce c)
  obtain a1 r where lim: "anonymous_limit now a = (a1, r)" by (cases "anonymous_limit now a")
  have "stays (absent cr tok a) (absent cr tok a1)" using s_challenge inv_tables stays_limit lim by blast
  then show ?case using lim s_challenge
    by (auto simp: challenge_def ensure_open_def Let_def unused_def absent_update(2) split: sum.splits)
next
  case (s_verify sec a ps now iid sig)
  obtain a1 r where lim: "anonymous_limit now a = (a1, r)" by (cases "anonymous_limit now a")
  have l1: "stays (absent cr tok a) (absent cr tok a1)" using s_verify inv_tables stays_limit lim by blast
  have l2: "stays (absent cr tok a) (absent cr tok (a1\<lparr>challenges := hm_remove iid (challenges a1)\<rparr>))"
    using stays_trans [OF l1 absent_update(6)] .
  then show ?case using l1 lim
    by (auto simp: verify_challenge_def ensure_open_def Let_def split: sum.splits option.splits) (auto simp: absent_def)
next
  case (s_issue_ws sec p ps a now ch se)
  have "stays (absent cr tok a) (absent cr tok (prune now a))" using s_issue_ws inv_tables stays_prune by blast
  then show ?case using s_issue_ws
    by (auto simp: issue_ws_def Let_def unused_def absent_update(3) split: sum.splits)
next
  case (s_consume_ws a ps now tk ch)
  have l1: "stays (absent cr tok a) (absent cr tok (prune now a))" using s_consume_ws inv_tables stays_prune by blast
  have "stays (absent cr tok a) (absent cr tok ((prune now a)\<lparr>wst := hm_remove h (wst (prune now a))\<rparr>))" for h
    using stays_trans [OF l1 absent_update(7)] .
  then show ?case using l1
    by (auto simp: consume_ws_def ensure_open_def Let_def split: sum.splits option.splits)
next
  case (s_revoke a ps ok c)
  then show ?case
    by (auto simp: revoke_def Let_def stays_def absent_def hm_get_retain auth_inv_def tables_ok_def split: option.splits)
next
  case (s_block a ps ok)
  then show ?case by (simp add: block_all_def stays_def absent_def)
next
  case (s_resume a ps ok)
  then show ?case by (auto simp: resume_local_def absent_def split: prod.splits)
qed simp_all

lemma absent_run:
  assumes "(auth_step cr S)\<^sup>*\<^sup>* x y" "auth_inv x" "unused cr S tok"
  shows "auth_inv y \<and> stays (absent cr tok (fst x)) (absent cr tok (fst y))"
  using assms
  by (induction rule: rtranclp_induct) (auto intro: inv_step absent_step stays_trans)

lemma consume_ws_spends:
  "consume_ws cr now tok ch a = (a1, Ok r) \<Longrightarrow> hm_get (wst a1) (digest cr tok) = None"
  by (auto simp: consume_ws_def ensure_open_def Let_def split: if_splits option.splits sum.splits)

lemma consume_ws_absent:
  "tables_ok a \<Longrightarrow> hm_get (wst a) (digest cr tok) = None \<Longrightarrow> \<not> is_ok (snd (consume_ws cr now tok ch a))"
  by (auto simp: consume_ws_def ensure_open_def Let_def prune_def hm_get_retain tables_ok_def split: option.splits)

lemma pair_spends:
  "pair cr now fresh ok tok k l a = (a1, Ok d) \<Longrightarrow> hm_get (pairs a1) (digest cr tok) = None"
  by (auto simp: pair_def ensure_open_def Let_def split: if_splits option.splits sum.splits prod.splits)

lemma pair_absent:
  assumes "tables_ok a" "hm_get (pairs a) (digest cr tok) = None"
  shows "\<not> is_ok (snd (pair cr now fresh ok tok k l a))"
proof -
  obtain a1 r where lim: "anonymous_limit now a = (a1, r)" by (cases "anonymous_limit now a")
  have "hm_get (pairs a1) (digest cr tok) = None"
    using stays_limit [OF assms(1) lim, of cr tok] assms(2) by (simp add: stays_def absent_def)
  with lim show ?thesis by (auto simp: pair_def ensure_open_def split: sum.splits option.splits)
qed

text \<open>C7. Tickets are single use: once a WebSocket ticket was redeemed, no later sequence of calls
  that draws no colliding secret makes the same ticket redeemable again, on any channel; and the
  same for a pairing ticket that paired a device.\<close>

theorem tickets_are_single_use:
  assumes "reachable cr (a, ps)" "unused cr S tok"
    and "consume_ws cr now tok ch a = (a1, Ok (p, se)) \<and> x1 = (a1, p # ps)
      \<or> pair cr now fresh ok tok k l a = (a1, Ok d) \<and> \<not> hm_contains (a_devices a) fresh \<and> x1 = (a1, ps)"
    and "(auth_step cr S)\<^sup>*\<^sup>* x1 (a2, ps2)"
  shows "(consume_ws cr now tok ch a = (a1, Ok (p, se)) \<longrightarrow> \<not> is_ok (snd (consume_ws cr now2 tok ch2 a2)))
    \<and> (pair cr now fresh ok tok k l a = (a1, Ok d) \<longrightarrow> \<not> is_ok (snd (pair cr now2 fresh2 ok2 tok k2 l2 a2)))"
proof -
  have inv: "auth_inv (a, ps)" by (rule inv_reachable [OF assms(1)])
  have inv1: "auth_inv x1"
    using assms(3)
  proof (elim disjE conjE)
    assume c: "consume_ws cr now tok ch a = (a1, Ok (p, se))" "x1 = (a1, p # ps)"
    then show ?thesis
      using inv_consume_ws [OF inv, of cr now tok ch] consume_ws_principal [OF inv, of cr now tok ch p se]
      by (simp add: inv_more_principals)
  next
    assume c: "pair cr now fresh ok tok k l a = (a1, Ok d)" "\<not> hm_contains (a_devices a) fresh" "x1 = (a1, ps)"
    then show ?thesis using inv_pair [OF inv c(2), of cr now ok tok k l] by simp
  qed
  have x1: "fst x1 = a1" using assms(3) by auto
  from absent_run [OF assms(4) inv1 assms(2)] have "tables_ok a2" "stays (absent cr tok a1) (absent cr tok a2)"
    by (auto simp: auth_inv_def x1)
  then show ?thesis
    using consume_ws_spends [of cr now tok ch a a1] pair_spends [of cr now fresh ok tok k l a a1 d]
      consume_ws_absent [of a2 cr tok] pair_absent [of a2 cr tok] by (auto simp: stays_def absent_def)
qed

text \<open>A ticket for the device of the instances: issued at time 0, redeemed at time 0.\<close>

definition one_issued :: "str auth" where
  "one_issued = fst (issue_ws plain_crypto 0 [5] one_principal (lit ''control'') None one_auth)"

lemma one_issued_reachable: "reachable plain_crypto (one_issued, [one_principal])"
  unfolding one_issued_def
  by (rule reachable_step [OF one_reachable], rule r_into_rtranclp, rule s_issue_ws) simp_all

lemma one_auth_fields: "blocked one_auth = False" "cancelled one_auth = []" "wst one_auth = []" "next_token one_auth = 1"
  "pairs one_auth = []" "access one_auth = []" "challenges one_auth = []"
  by (simp_all add: one_auth_def new_auth_def one_device_def save_device_def
      empty_store_def hm_insert_def devices_of_def remote_blocked_def)

lemma one_issued_eq: "one_issued = one_auth\<lparr>wst := [([5], \<lparr>wt_principal = one_principal, wt_channel = lit ''control'',
    wt_session = None, wt_until = secs 30\<rparr>)]\<rparr>"
  by (simp add: one_issued_def issue_ws_def one_auth_fields require_def one_principal_def owner_scopes_def
      Let_def prune_def hm_retain_def hm_insert_def plain_crypto_def secs_def lit_inj)

lemma one_consumed:
  "consume_ws plain_crypto 0 [5] (lit ''control'') one_issued = (one_auth, Ok (one_principal, None))"
  by (simp add: consume_ws_def one_issued_eq one_auth_fields ensure_open_def Let_def prune_def hm_retain_def
      plain_crypto_def secs_def require_def one_principal_def owner_scopes_def hm_remove_def lit_inj)

theorem tickets_are_single_use_witness:
  "consume_ws plain_crypto 0 [5] (lit ''control'') one_issued = (one_auth, Ok (one_principal, None))
   \<and> \<not> is_ok (snd (consume_ws plain_crypto 1 [5] (lit ''control'') one_auth))"
proof -
  have "\<not> is_ok (snd (consume_ws plain_crypto 1 [5] (lit ''control'') one_auth))"
  proof (rule mp [OF conjunct1 [OF tickets_are_single_use [OF one_issued_reachable]] one_consumed])
    show "unused plain_crypto {[6]} [5]" by (simp add: unused_def plain_crypto_def)
    show "consume_ws plain_crypto 0 [5] (lit ''control'') one_issued = (one_auth, Ok (one_principal, None))
        \<and> (one_auth, [one_principal, one_principal]) = (one_auth, one_principal # [one_principal])
      \<or> pair plain_crypto 0 9 True [5] [1] [2] one_issued = (one_auth, Ok (hd (devices_of one_device)))
        \<and> \<not> hm_contains (a_devices one_issued) 9
        \<and> (one_auth, [one_principal, one_principal]) = (one_auth, [one_principal])"
      using one_consumed by blast
    show "(auth_step plain_crypto {[6]})\<^sup>*\<^sup>* (one_auth, [one_principal, one_principal]) (one_auth, [one_principal, one_principal])"
      by simp
  qed
  with one_consumed show ?thesis by blast
qed

text \<open>C15. An access token needs a fresh signature: \<open>verify\<close> grants a token only when the named
  challenge is outstanding and not expired, its device is known and not revoked, and the decoded
  signature verifies under the device's key over exactly the challenge's message; the challenge is
  then gone, and the token stands for that device and for ten minutes.\<close>

theorem access_token_needs_signature:
  assumes "tables_ok a" "verify_challenge cr now sec iid sig a = (a', Ok tok)"
  shows "\<exists>ch d bs. hm_get (challenges a) iid = Some ch \<and> now < ch_until ch
    \<and> hm_get (a_devices a) (ch_client ch) = Some d \<and> \<not> d_revoked (ds_device d)
    \<and> b64_decode cr sig = Some bs \<and> sig_verify cr (d_public_key (ds_device d)) (ch_message ch) bs
    \<and> hm_get (challenges a') iid = None
    \<and> hm_get (access a') (digest cr tok) = Some \<lparr>ac_client = ch_client ch, ac_until = now + secs 600\<rparr>"
proof -
  obtain a1 r where lim: "anonymous_limit now a = (a1, r)" by (cases "anonymous_limit now a")
  with assms(2) obtain u where r: "r = Ok u"
    by (auto simp: verify_challenge_def ensure_open_def split: if_splits sum.splits)
  have dev: "a_devices a1 = a_devices a" using core_limit [of now a] lim by (simp add: core_eq)
  have ch: "hm_get (challenges a1) iid = Some c \<Longrightarrow> hm_get (challenges a) iid = Some c \<and> now < ch_until c" for c
    using lim r assms(1)
    by (auto simp: anonymous_limit_def Let_def prune_def tables_ok_def hm.retain_Some split: if_splits)
  show ?thesis
    using assms(2) lim r dev
    by (auto simp: verify_challenge_def ensure_open_def Let_def active_device_def
        dest!: ch split: if_splits option.splits)
qed

text \<open>The challenge of the instances and its signed answer.\<close>

definition one_challenged :: "str auth" where
  "one_challenged = one_auth\<lparr>challenges := [([3], \<lparr>ch_client = 7, ch_message = [9], ch_until = secs 30\<rparr>)]\<rparr>"

lemma one_challenged_tables: "tables_ok one_challenged"
  using inv_tables [OF inv_reachable [OF one_reachable]] by (simp add: one_challenged_def tables_ok_def hm_wf_def)

lemma one_verified: "snd (verify_challenge plain_crypto 0 [4] [3] [1, 9] one_challenged) = Ok [4]"
  by (simp add: verify_challenge_def one_challenged_def ensure_open_def one_auth_fields anonymous_limit_def Let_def
      duration_since_def secs_def prune_def hm_retain_def plain_crypto_def active_device_def hm_remove_def)
    (simp add: one_auth_def new_auth_def one_device_def save_device_def empty_store_def hm_insert_def devices_of_def)

theorem access_token_needs_signature_witness:
  "\<exists>ch d bs. hm_get (challenges one_challenged) [3] = Some ch \<and> 0 < ch_until ch
    \<and> hm_get (a_devices one_challenged) (ch_client ch) = Some d \<and> \<not> d_revoked (ds_device d)
    \<and> b64_decode plain_crypto [1, 9] = Some bs \<and> sig_verify plain_crypto (d_public_key (ds_device d)) (ch_message ch) bs
    \<and> hm_get (challenges (fst (verify_challenge plain_crypto 0 [4] [3] [1, 9] one_challenged))) [3] = None
    \<and> hm_get (access (fst (verify_challenge plain_crypto 0 [4] [3] [1, 9] one_challenged))) (digest plain_crypto [4])
        = Some \<lparr>ac_client = ch_client ch, ac_until = 0 + secs 600\<rparr>"
  by (rule access_token_needs_signature [OF one_challenged_tables, where sec = "[4]"])
    (simp add: one_verified prod_eq_iff)

text \<open>The tables are bounded: in every reachable state at most 16 pairing tickets, 128 challenges,
  256 access tokens and 128 WebSocket tickets are held, so an unauthenticated caller cannot grow
  the state without limit.\<close>

theorem auth_tables_are_bounded:
  assumes "reachable cr (a, ps)"
  shows "hm_len (pairs a) \<le> 16 \<and> hm_len (challenges a) \<le> 128 \<and> hm_len (access a) \<le> 256 \<and> hm_len (wst a) \<le> 128"
  using inv_tables [OF inv_reachable [OF assms]] by (simp add: tables_ok_def)

theorem auth_tables_are_bounded_witness:
  "hm_len (pairs one_issued) \<le> 16 \<and> hm_len (challenges one_issued) \<le> 128
   \<and> hm_len (access one_issued) \<le> 256 \<and> hm_len (wst one_issued) \<le> 128"
  by (rule auth_tables_are_bounded [OF one_issued_reachable])

text \<open>
  The condition on resuming matters. \<open>resume_local\<close> gives every device a new token without
  cancelling the old one; when remote access was not blocked before, a principal handed out
  earlier keeps the old token, and a later \<open>revoke\<close> or \<open>block_all\<close> does not reach it.
\<close>

lemma resume_while_open_detaches_principals:
  "require (cancelled (fst (revoke True 7 (resume_local True one_auth)))) 0 one_principal TerminalWrite = Ok ()"
  "require (cancelled (block_all True (resume_local True one_auth))) 0 one_principal TerminalWrite = Ok ()"
proof -
  let ?d = "\<lparr>d_client_id = 7, d_public_key = [1], d_label = [0x61], d_scopes = owner_scopes, d_revoked = False\<rparr>"
  have "a_devices one_auth = [(7, \<lparr>ds_device = ?d, ds_cancel = 0\<rparr>)]"
    by (simp add: one_auth_def new_auth_def one_device_def save_device_def empty_store_def hm_insert_def devices_of_def)
  then have r: "a_devices (resume_local True one_auth) = [(7, \<lparr>ds_device = ?d, ds_cancel = 1\<rparr>)]"
    "cancelled (resume_local True one_auth) = []"
    by (simp_all add: resume_local_def one_auth_fields)
  show "require (cancelled (fst (revoke True 7 (resume_local True one_auth)))) 0 one_principal TerminalWrite = Ok ()"
    "require (cancelled (block_all True (resume_local True one_auth))) 0 one_principal TerminalWrite = Ok ()"
    by (simp_all add: revoke_def r Let_def block_all_def require_def one_principal_def secs_def owner_scopes_def)
qed

end
