(* ===== verification/Session_Input.thy ===== *)
theory Session_Input
  imports Session_Output Auth
begin

text \<open>
  The input side of a session, \<open>rc-agent/src/session.rs\<close>: the guards in front of the pseudo
  terminal (scope, lease, replay ledger, bounded queues), the writer thread, resize and close.

  \<^item> The record \<open>session\<close> has the fields of \<open>Session\<close>, its channels as queues, and the world the
    threads share: the bytes that reached the pseudo terminal, the replies sent, the clock and
    the cancelled tokens of the authentication state.
  \<^item> The writer thread runs beside the others. Between two of its steps anything may happen to the
    lease, the queues, the clock or the tokens: \<open>env\<close> is this interference, an argument of the
    writer, applied before each of its checks.
  \<^item> A write to the pseudo terminal may fail after some bytes: \<open>io n\<close> says for the \<open>n\<close>-th write
    \<open>None\<close> (all written) or \<open>Some k\<close> (an error after \<open>k\<close> bytes).
\<close>

section \<open>Model\<close>

record input_job =
  j_p :: principal
  j_connection :: uuid
  j_epoch :: u64
  j_id :: uuid
  j_data :: bytes
  j_received :: instant
  j_bulk :: bool
  j_bracketed :: bool
  j_append_enter :: bool

record 'm session =
  meta :: session_info
  out_state :: "'m output_state"
  s_lease :: lease
  s_ledger :: input_ledger
  master :: bool
  killed :: bool
  normal_q :: "input_job list"
  interrupt_q :: "input_job list"
  query_q :: "bytes list"
  stop_q :: nat
  writer_alive :: bool
  running :: bool
  managed_codex :: bool
  change_log :: "str list"
  pty :: bytes
  writes :: nat
  replies :: "(uuid \<times> u64 result) list"
  clock :: instant
  wall_ms :: nat
  revoked_tokens :: "token list"
  interference :: nat

definition changed :: "str \<Rightarrow> 'm session \<Rightarrow> 'm session" where
  "changed reason s = s\<lparr>change_log := change_log s @ [reason]\<rparr>"

definition requires :: "'m session \<Rightarrow> principal \<Rightarrow> scope \<Rightarrow> unit result" where
  "requires s p sc = require (revoked_tokens s) (clock s) p sc"

definition session_acquire :: "principal \<Rightarrow> uuid \<Rightarrow> bool \<Rightarrow> 'm session \<Rightarrow> 'm session \<times> lease_view result" where
  "session_acquire p c takeover s =
     (case requires s p TerminalWrite of Err e \<Rightarrow> (s, Err e) | Ok _ \<Rightarrow>
      if \<not> running s then (s, Err SessionLost)
      else (case acquire (s_lease s) (p_client p) c takeover (clock s) of
        None \<Rightarrow> (s, Err Internal)
      | Some (l, Err e) \<Rightarrow> (s\<lparr>s_lease := l\<rparr>, Err e)
      | Some (l, Ok v) \<Rightarrow> (changed (lit ''lease'') (s\<lparr>s_lease := l\<rparr>), Ok v)))"

definition session_renew :: "principal \<Rightarrow> uuid \<Rightarrow> u64 \<Rightarrow> 'm session \<Rightarrow> 'm session \<times> lease_view result" where
  "session_renew p c e s =
     (case requires s p TerminalWrite of Err er \<Rightarrow> (s, Err er) | Ok _ \<Rightarrow>
      (case renew (s_lease s) (p_client p) c e (clock s) of
        None \<Rightarrow> (s, Err Internal)
      | Some (l, r) \<Rightarrow> (s\<lparr>s_lease := l\<rparr>, r)))"

definition session_release :: "principal \<Rightarrow> uuid \<Rightarrow> u64 \<Rightarrow> 'm session \<Rightarrow> 'm session \<times> unit result" where
  "session_release p c e s =
     (case requires s p TerminalWrite of Err er \<Rightarrow> (s, Err er) | Ok _ \<Rightarrow>
      (case release (s_lease s) (p_client p) c e (clock s) of
        (l, Err er) \<Rightarrow> (s\<lparr>s_lease := l\<rparr>, Err er)
      | (l, Ok _) \<Rightarrow> (changed (lit ''lease'') (s\<lparr>s_lease := l\<rparr>), Ok ())))"

definition validate_generation :: "uuid \<Rightarrow> u32 \<Rightarrow> 'm session \<Rightarrow> unit result" where
  "validate_generation agent gen s =
     (if si_agent_epoch (meta s) \<noteq> agent then Err HostRestarted
      else if si_generation (meta s) \<noteq> gen then Err SessionGenerationMismatch
      else if \<not> running s then Err SessionLost
      else Ok ())"

text \<open>\<open>try_send\<close> on a bounded channel: refused when it is full or its receiver is gone.\<close>

definition try_send_normal :: "input_job \<Rightarrow> 'm session \<Rightarrow> 'm session option" where
  "try_send_normal j s =
     (if \<not> writer_alive s \<or> length (normal_q s) \<ge> 64 then None else Some (s\<lparr>normal_q := normal_q s @ [j]\<rparr>))"

definition try_send_interrupt :: "input_job \<Rightarrow> 'm session \<Rightarrow> 'm session option" where
  "try_send_interrupt j s =
     (if \<not> writer_alive s \<or> length (interrupt_q s) \<ge> 8 then None else Some (s\<lparr>interrupt_q := interrupt_q s @ [j]\<rparr>))"

definition try_send_stop :: "'m session \<Rightarrow> 'm session" where
  "try_send_stop s = (if \<not> writer_alive s \<or> stop_q s \<ge> 1 then s else s\<lparr>stop_q := Suc (stop_q s)\<rparr>)"

definition enqueue ::
    "principal \<Rightarrow> uuid \<Rightarrow> u64 \<Rightarrow> uuid \<Rightarrow> u64 \<Rightarrow> bytes \<Rightarrow> instant \<Rightarrow> 'm session \<Rightarrow> 'm session \<times> unit result" where
  "enqueue p c le iid seq data received s =
     (case requires s p TerminalWrite of Err e \<Rightarrow> (s, Err e) | Ok _ \<Rightarrow>
      (case verify (s_lease s) (p_client p) c le (clock s) of Err e \<Rightarrow> (s, Err e) | Ok _ \<Rightarrow>
      (case accept (s_ledger s) c le iid seq (length data) of
        (g, Err e) \<Rightarrow> (s\<lparr>s_ledger := g\<rparr>, Err e)
      | (g, Ok _) \<Rightarrow>
        (let s1 = s\<lparr>s_ledger := g\<rparr>;
             priority = (data = [3]);
             job = \<lparr>j_p = p, j_connection = c, j_epoch = le, j_id = iid, j_data = data, j_received = received,
                    j_bulk = False, j_bracketed = False, j_append_enter = False\<rparr>
         in case (if priority then try_send_interrupt job s1 else try_send_normal job s1) of
              None \<Rightarrow> (s1\<lparr>s_ledger := finish (s_ledger s1) iid ''rejected''\<rparr>, Err RateLimited)
            | Some s2 \<Rightarrow> (s2, Ok ())))))"

text \<open>\<open>text.replace("\r\n", "\r").replace('\n', "\r")\<close>.\<close>

fun replace_crlf :: "str \<Rightarrow> str" where
  "replace_crlf (a # b # r) = (if a = 13 \<and> b = 10 then 13 # replace_crlf r else a # replace_crlf (b # r))"
| "replace_crlf [a] = [a]"
| "replace_crlf [] = []"

definition paste_bytes :: "str \<Rightarrow> bytes" where
  "paste_bytes text = map (\<lambda>b. if b = 10 then 13 else b) (replace_crlf text)"

definition paste_byte_refused :: "u8 \<Rightarrow> bool" where
  "paste_byte_refused b \<longleftrightarrow> b < 32 \<and> b \<notin> {9, 10, 13} \<or> b = 127"

definition enqueue_paste ::
    "'m emulator \<Rightarrow> principal \<Rightarrow> uuid \<Rightarrow> u64 \<Rightarrow> uuid \<Rightarrow> u64 \<Rightarrow> str \<Rightarrow> bool \<Rightarrow> instant \<Rightarrow> 'm session
      \<Rightarrow> 'm session \<times> unit result" where
  "enqueue_paste em p c le iid seq text append_enter received s =
     (case requires s p TerminalWrite of Err e \<Rightarrow> (s, Err e) | Ok _ \<Rightarrow>
      if text = [] \<or> length text > MAX_PASTE \<or> list_ex paste_byte_refused text then (s, Err InvalidRequest)
      else (let bracketed = em_bracketed em (model (out_state s));
                data = paste_bytes text
            in case verify (s_lease s) (p_client p) c le (clock s) of Err e \<Rightarrow> (s, Err e) | Ok _ \<Rightarrow>
      (case accept_paste (s_ledger s) c le iid seq (length data) of
        (g, Err e) \<Rightarrow> (s\<lparr>s_ledger := g\<rparr>, Err e)
      | (g, Ok _) \<Rightarrow>
        (let s1 = s\<lparr>s_ledger := g\<rparr>;
             job = \<lparr>j_p = p, j_connection = c, j_epoch = le, j_id = iid, j_data = data, j_received = received,
                    j_bulk = True, j_bracketed = bracketed, j_append_enter = append_enter\<rparr>
         in case try_send_normal job s1 of
              None \<Rightarrow> (s1\<lparr>s_ledger := finish (s_ledger s1) iid ''rejected''\<rparr>, Err RateLimited)
            | Some s2 \<Rightarrow> (s2, Ok ())))))"

text \<open>\<open>pty_ok\<close> is the outcome of the resize call of the pseudo console.\<close>

definition session_resize ::
    "'m emulator \<Rightarrow> bool \<Rightarrow> principal \<Rightarrow> uuid \<Rightarrow> u64 \<Rightarrow> u16 \<Rightarrow> u16 \<Rightarrow> 'm session \<Rightarrow> 'm session \<times> unit result" where
  "session_resize em pty_ok p c le cols rows s =
     (case requires s p TerminalWrite of Err e \<Rightarrow> (s, Err e) | Ok _ \<Rightarrow>
      if cols < 2 \<or> cols > MAX_COLS \<or> rows < 1 \<or> rows > MAX_ROWS then (s, Err InvalidRequest)
      else (case verify (s_lease s) (p_client p) c le (clock s) of Err e \<Rightarrow> (s, Err e) | Ok _ \<Rightarrow>
      if \<not> running s then (s, Err SessionLost)
      else if si_cols (meta s) = cols \<and> si_rows (meta s) = rows then (s, Ok ())
      else if \<not> master s then (s, Err SessionLost)
      else (let old = meta s;
                (m1, o1) = commit_resize em cols rows (meta s, out_state s);
                (m2, o2) = (if pty_ok then (m1, o1) else commit_resize em (si_cols old) (si_rows old) (m1, o1))
            in (changed (lit ''resized'') (s\<lparr>meta := m2, out_state := o2\<rparr>),
                if pty_ok then Ok () else Err Internal))))"

definition close :: "'m session \<Rightarrow> 'm session" where
  "close s =
     (let s1 = (if running s
                then try_send_stop (s\<lparr>running := False, s_lease := revoke_all (s_lease s),
                       meta := (meta s)\<lparr>si_state := Closing\<rparr>, killed := True\<rparr>)
                else s)
      in changed (lit ''closed'') (s1\<lparr>master := False\<rparr>))"

text \<open>The thread that waits for the child process.\<close>

definition child_exited :: "bool \<Rightarrow> 'm session \<Rightarrow> 'm session" where
  "child_exited ok s =
     changed (lit ''exited'') (try_send_stop (s\<lparr>running := False, s_lease := revoke_all (s_lease s),
       meta := (meta s)\<lparr>si_state := (if ok then Exited else Lost)\<rparr>\<rparr>))"

section \<open>The writer thread\<close>

type_synonym 'm environment = "nat \<Rightarrow> 'm session \<Rightarrow> 'm session"

definition interfere :: "'m environment \<Rightarrow> 'm session \<Rightarrow> 'm session" where
  "interfere env s = env (interference s) (s\<lparr>interference := Suc (interference s)\<rparr>)"

definition write_all :: "(nat \<Rightarrow> nat option) \<Rightarrow> bytes \<Rightarrow> 'm session \<Rightarrow> 'm session \<times> unit result" where
  "write_all io bs s =
     (case io (writes s) of
        None \<Rightarrow> (s\<lparr>pty := pty s @ bs, writes := Suc (writes s)\<rparr>, Ok ())
      | Some k \<Rightarrow> (s\<lparr>pty := pty s @ take k bs, writes := Suc (writes s)\<rparr>, Err InputDeliveryUnknown))"

definition permitted :: "input_job \<Rightarrow> 'm session \<Rightarrow> unit result" where
  "permitted j s =
     (case requires s (j_p j) TerminalWrite of Err e \<Rightarrow> Err e | Ok _ \<Rightarrow>
      if \<not> running s then Err SessionLost
      else verify (s_lease s) (p_client (j_p j)) (j_connection j) (j_epoch j) (clock s))"

text \<open>\<open>data.chunks(n)\<close>.\<close>

function chunks :: "nat \<Rightarrow> 'a list \<Rightarrow> 'a list list" where
  "chunks n xs = (if xs = [] \<or> n = 0 then [] else take n xs # chunks n (drop n xs))"
  by pat_completeness auto
termination
  by (relation "measure (\<lambda>(n, xs). length xs)") auto

declare chunks.simps [simp del]

text \<open>The loop over the chunks of a job, with the interrupt that stopped a bulk job.\<close>

fun write_chunks ::
    "'m environment \<Rightarrow> (nat \<Rightarrow> nat option) \<Rightarrow> input_job \<Rightarrow> bytes list \<Rightarrow> 'm session
      \<Rightarrow> 'm session \<times> unit result \<times> input_job option" where
  "write_chunks env io j [] s = (s, Ok (), None)"
| "write_chunks env io j (c # cs) s =
     (let s0 = interfere env s in
      if j_bulk j \<and> interrupt_q s0 \<noteq> []
      then (s0\<lparr>interrupt_q := tl (interrupt_q s0)\<rparr>, Err InputCanceled, Some (hd (interrupt_q s0)))
      else (let s1 = interfere env s0 in
        case permitted j s1 of
          Err e \<Rightarrow> (s1, Err e, None)
        | Ok _ \<Rightarrow> (case write_all io c s1 of
            (s2, Err e) \<Rightarrow> (s2, Err e, None)
          | (s2, Ok _) \<Rightarrow> write_chunks env io j cs s2)))"

definition PASTE_BEGIN :: bytes where "PASTE_BEGIN = [0x1b, 0x5b, 0x32, 0x30, 0x30, 0x7e]"
definition PASTE_END :: bytes where "PASTE_END = [0x1b, 0x5b, 0x32, 0x30, 0x31, 0x7e]"

text \<open>The closure of \<open>write_job\<close>: the result, the interrupt, and whether the prefix was written.\<close>

definition write_data ::
    "'m environment \<Rightarrow> (nat \<Rightarrow> nat option) \<Rightarrow> input_job \<Rightarrow> 'm session
      \<Rightarrow> 'm session \<times> unit result \<times> input_job option \<times> bool" where
  "write_data env io j s =
     (let s0 = interfere env s in
      case permitted j s0 of
        Err e \<Rightarrow> (s0, Err e, None, False)
      | Ok _ \<Rightarrow>
        if j_bracketed j then
          (case write_all io PASTE_BEGIN s0 of
             (s1, Err e) \<Rightarrow> (s1, Err e, None, False)
           | (s1, Ok _) \<Rightarrow> (case write_chunks env io j (chunks 8192 (j_data j)) s1 of
               (s2, r, u) \<Rightarrow> (s2, r, u, True)))
        else (case write_chunks env io j (chunks 8192 (j_data j)) s0 of (s2, r, u) \<Rightarrow> (s2, r, u, False)))"

text \<open>The rest of \<open>write_job\<close> up to the reply: the closing delimiter and the final return.\<close>

definition write_tail ::
    "'m environment \<Rightarrow> (nat \<Rightarrow> nat option) \<Rightarrow> input_job \<Rightarrow> bool \<Rightarrow> unit result \<Rightarrow> 'm session \<Rightarrow> 'm session \<times> unit result" where
  "write_tail env io j prefix_written result s =
     (let (s1, sfx) = (if prefix_written then write_all io PASTE_END s else (s, Ok ()));
          r1 = (case result of Err e \<Rightarrow> Err e | Ok _ \<Rightarrow> sfx)
      in if is_ok r1 \<and> j_append_enter j
         then (let s2 = interfere env s1 in
               case permitted j s2 of Err e \<Rightarrow> (s2, Err e) | Ok _ \<Rightarrow> write_all io [13] s2)
         else (s1, r1))"

definition reply :: "uuid \<Rightarrow> u64 result \<Rightarrow> 'm session \<Rightarrow> 'm session" where
  "reply i r s = s\<lparr>replies := replies s @ [(i, r)]\<rparr>"

definition record_result :: "input_job \<Rightarrow> unit result \<Rightarrow> 'm session \<Rightarrow> 'm session" where
  "record_result j r s =
     (let s1 = (if is_ok r then s\<lparr>meta := (meta s)\<lparr>si_last_activity_at := Some (dec (wall_ms s))\<rparr>\<rparr> else s);
          s2 = s1\<lparr>s_ledger := finish (s_ledger s1) (j_id j) (if is_ok r then ''written'' else ''delivery_unknown'')\<rparr>
      in reply (j_id j) (case r of Err e \<Rightarrow> Err e
           | Ok _ \<Rightarrow> Ok (of_nat (as_micros (duration_since (clock s) (j_received j))))) s2)"

text \<open>\<open>while let Ok(pending) = normal.try_recv()\<close>: queued input is rejected and answered.\<close>

definition cancel_queued :: "'m session \<Rightarrow> 'm session" where
  "cancel_queued s =
     (foldl (\<lambda>s j. reply (j_id j) (Err InputCanceled) (s\<lparr>s_ledger := finish (s_ledger s) (j_id j) ''rejected''\<rparr>))
        s (normal_q s))\<lparr>normal_q := []\<rparr>"

definition write_once ::
    "'m environment \<Rightarrow> (nat \<Rightarrow> nat option) \<Rightarrow> input_job \<Rightarrow> 'm session \<Rightarrow> 'm session \<times> unit result \<times> input_job option" where
  "write_once env io j s =
     (case write_data env io j s of (s1, r, urgent, pre) \<Rightarrow>
      (case write_tail env io j pre r s1 of (s2, r2) \<Rightarrow> (record_result j r2 s2, r2, urgent)))"

text \<open>
  \<open>write_job\<close> calls itself on the interrupt that stopped it. The fuel counts the calls; two are
  enough, since an interrupt is never a bulk job.
\<close>

fun write_job :: "nat \<Rightarrow> 'm environment \<Rightarrow> (nat \<Rightarrow> nat option) \<Rightarrow> input_job \<Rightarrow> 'm session \<Rightarrow> 'm session option" where
  "write_job 0 env io j s = None"
| "write_job (Suc n) env io j s =
     (case write_once env io j s of
        (s1, _, None) \<Rightarrow> Some s1
      | (s1, _, Some stop) \<Rightarrow> write_job n env io stop (cancel_queued s1))"

text \<open>
  One turn of \<open>writer_loop\<close>: the first channel of the biased select that has a message, or waiting.
  The result says whether the loop goes on. At the end the jobs left are answered and the
  receivers are dropped.
\<close>

definition writer_end :: "'m session \<Rightarrow> 'm session" where
  "writer_end s =
     (foldl (\<lambda>s j. reply (j_id j) (Err InputDeliveryUnknown) s) s (normal_q s @ interrupt_q s))
       \<lparr>normal_q := [], interrupt_q := [], writer_alive := False\<rparr>"

definition writer_turn ::
    "nat \<Rightarrow> 'm environment \<Rightarrow> (nat \<Rightarrow> nat option) \<Rightarrow> 'm session \<Rightarrow> ('m session \<times> bool) option" where
  "writer_turn fuel env io s =
     (if stop_q s > 0 then Some (writer_end (s\<lparr>stop_q := stop_q s - 1\<rparr>), False)
      else (case interrupt_q s of
        j # js \<Rightarrow> map_option (\<lambda>s. (s, True)) (write_job fuel env io j (cancel_queued (s\<lparr>interrupt_q := js\<rparr>)))
      | [] \<Rightarrow>
        (case query_q s of
          q # qs \<Rightarrow> Some (fst (write_all io q (s\<lparr>query_q := qs\<rparr>)), True)
        | [] \<Rightarrow>
          (case normal_q s of
            j # js \<Rightarrow> map_option (\<lambda>s. (s, True)) (write_job fuel env io j (s\<lparr>normal_q := js\<rparr>))
          | [] \<Rightarrow> Some (s, True)))))"

section \<open>The order of accepted input\<close>

text \<open>Inputs are ordered by lease epoch, then by sequence number.\<close>

definition before :: "u64 \<times> u64 \<Rightarrow> u64 \<times> u64 \<Rightarrow> bool" where
  "before x y \<longleftrightarrow> fst x < fst y \<or> fst x = fst y \<and> snd x < snd y"

text \<open>
  The contract of a fencing lease: its epoch never goes back, and within an epoch the owning
  connection does not change.
\<close>

locale fencing_lease =
  fixes ep :: "'l \<Rightarrow> u64"
    and own :: "'l \<Rightarrow> uuid option"
    and lstep :: "'l \<Rightarrow> 'l \<Rightarrow> bool"
  assumes ep_mono: "lstep l l' \<Longrightarrow> ep l \<le> ep l'"
    and own_kept: "lstep l l' \<Longrightarrow> ep l' = ep l \<Longrightarrow> own l' = Some c \<Longrightarrow> own l = Some c"

text \<open>
  With a ledger that admits a sequence number of a connection and an epoch only above the last
  one it admitted there, the admitted inputs are ordered by epoch and sequence.
\<close>

locale sequenced_input = fencing_lease ep own lstep
  for ep :: "'l \<Rightarrow> u64" and own :: "'l \<Rightarrow> uuid option" and lstep :: "'l \<Rightarrow> 'l \<Rightarrow> bool" +
  fixes top :: "'g \<Rightarrow> uuid \<Rightarrow> u64 \<Rightarrow> u64 option"
    and admit :: "'g \<Rightarrow> uuid \<Rightarrow> u64 \<Rightarrow> u64 \<Rightarrow> 'g \<Rightarrow> bool"
    and idle_step :: "'g \<Rightarrow> 'g \<Rightarrow> bool"
  assumes admit_top: "admit g c e q g' \<Longrightarrow> top g' c e = Some q"
    and admit_above: "admit g c e q g' \<Longrightarrow> top g c e = Some h \<Longrightarrow> h < q"
    and idle_top: "idle_step g g' \<Longrightarrow> top g' = top g"
begin

inductive guarded :: "'l \<Rightarrow> 'g \<Rightarrow> (u64 \<times> u64) list \<Rightarrow> bool" where
  g_start: "guarded l g []"
| g_lease: "guarded l g tr \<Longrightarrow> lstep l l' \<Longrightarrow> guarded l' g tr"
| g_idle: "guarded l g tr \<Longrightarrow> idle_step g g' \<Longrightarrow> guarded l g' tr"
| g_admit: "guarded l g tr \<Longrightarrow> own l = Some c \<Longrightarrow> admit g c (ep l) q g' \<Longrightarrow> guarded l g' (tr @ [(ep l, q)])"

lemma guarded_inv:
  "guarded l g tr \<Longrightarrow> sorted_wrt before tr \<and> (\<forall>(e, q) \<in> set tr. e \<le> ep l
    \<and> (e = ep l \<longrightarrow> (\<forall>c. own l = Some c \<longrightarrow> (\<exists>h. top g c e = Some h \<and> q \<le> h))))"
proof (induction rule: guarded.induct)
  case (g_lease l g tr l')
  have le: "ep l \<le> ep l'" by (rule ep_mono [OF g_lease(2)])
  have "e \<le> ep l' \<and> (e = ep l' \<longrightarrow> (\<forall>c. own l' = Some c \<longrightarrow> (\<exists>h. top g c e = Some h \<and> q \<le> h)))"
    if "(e, q) \<in> set tr" for e q
  proof -
    have old: "e \<le> ep l" "e = ep l \<Longrightarrow> own l = Some c \<Longrightarrow> \<exists>h. top g c e = Some h \<and> q \<le> h" for c
      using g_lease.IH that by auto
    show ?thesis
      using le old own_kept [OF g_lease(2)] by (metis order_antisym order_trans)
  qed
  then show ?case using g_lease.IH by auto
next
  case (g_idle l g tr g')
  then show ?case using idle_top by fastforce
next
  case (g_admit l g tr c q g')
  have b: "before x (ep l, q)" if "x \<in> set tr" for x
  proof -
    obtain e r where x: "x = (e, r)" by (cases x)
    have "e \<le> ep l" "e = ep l \<Longrightarrow> \<exists>h. top g c e = Some h \<and> r \<le> h"
      using g_admit.IH that g_admit(2) by (auto simp: x)
    then show ?thesis
      using admit_above [OF g_admit(3)] unfolding x before_def
      by (metis fst_conv snd_conv order_le_less order_le_less_trans)
  qed
  have "\<exists>h. top g' c (ep l) = Some h \<and> r \<le> h" if "(ep l, r) \<in> set tr" for r
    using b [OF that] admit_top [OF g_admit(3)] by (auto simp: before_def)
  then show ?case
    using g_admit b admit_top [OF g_admit(3)] by (auto simp: sorted_wrt_append)
qed simp

lemma guarded_order: "guarded l g tr \<Longrightarrow> sorted_wrt before tr"
  using guarded_inv by blast

end

definition lease_step :: "lease \<Rightarrow> lease \<Rightarrow> bool" where
  "lease_step l l' \<longleftrightarrow> (\<exists>now op. l' = apply_op now op l)"

definition lease_connection :: "lease \<Rightarrow> uuid option" where
  "lease_connection l = map_option connection (owner l)"

definition ledger_top :: "input_ledger \<Rightarrow> uuid \<Rightarrow> u64 \<Rightarrow> u64 option" where
  "ledger_top g c e = hm_get (highest g) (c, e)"

definition ledger_admit :: "input_ledger \<Rightarrow> uuid \<Rightarrow> u64 \<Rightarrow> u64 \<Rightarrow> input_ledger \<Rightarrow> bool" where
  "ledger_admit g c e q g' \<longleftrightarrow> (\<exists>iid n cap. snd (accept_limit g c e iid q n cap) = Ok ()
     \<and> g' = fst (accept_limit g c e iid q n cap))"

definition ledger_idle :: "input_ledger \<Rightarrow> input_ledger \<Rightarrow> bool" where
  "ledger_idle g g' \<longleftrightarrow> (\<exists>iid st. g' = finish g iid st)"

lemma ledger_admit_top: "ledger_admit g c e q g' \<Longrightarrow> ledger_top g' c e = Some q"
  by (auto simp: ledger_admit_def ledger_top_def accept_limit_fields(3))

lemma ledger_admit_above: "ledger_admit g c e q g' \<Longrightarrow> ledger_top g c e = Some h \<Longrightarrow> h < q"
proof -
  assume "ledger_admit g c e q g'" and top: "ledger_top g c e = Some h"
  then obtain iid n cap where "snd (accept_limit g c e iid q n cap) = Ok ()"
    by (auto simp: ledger_admit_def)
  then show "h < q" using top unfolding accept_limit_Ok_iff by (simp add: ledger_top_def)
qed

interpretation input_guard: sequenced_input epoch lease_connection lease_step ledger_top ledger_admit ledger_idle
proof
  show "epoch l \<le> epoch l'" if "lease_step l l'" for l l'
    using that apply_op_epoch_mono by (auto simp: lease_step_def)
  show "lease_connection l = Some c" if "lease_step l l'" "epoch l' = epoch l" "lease_connection l' = Some c" for l l' c
    using that apply_op_same_epoch by (fastforce simp: lease_step_def lease_connection_def)
  show "ledger_top g' = ledger_top g" if "ledger_idle g g'" for g g'
    using that finish_fields by (auto simp: ledger_idle_def ledger_top_def fun_eq_iff)
qed (auto intro: ledger_admit_top ledger_admit_above)

text \<open>
  The steps of the threads of a session as far as they concern the guards: the client calls, the
  revocations, the ledger notes of the writer, and anything that touches neither lease nor ledger.
  A step is labelled with the input it admits, if any; an input that finds its queue full has been
  admitted, its sequence number is consumed.
\<close>

definition admitted :: "u64 \<Rightarrow> u64 \<Rightarrow> unit result \<Rightarrow> (u64 \<times> u64) list" where
  "admitted le seq r = (if r \<in> {Ok (), Err RateLimited} then [(le, seq)] else [])"

inductive sess_step :: "'m emulator \<Rightarrow> 'm session \<Rightarrow> (u64 \<times> u64) list \<Rightarrow> 'm session \<Rightarrow> bool" for em where
  ss_acquire: "sess_step em s [] (fst (session_acquire p c t s))"
| ss_renew: "sess_step em s [] (fst (session_renew p c e s))"
| ss_release: "sess_step em s [] (fst (session_release p c e s))"
| ss_enqueue: "sess_step em s (admitted le q (snd (enqueue p c le i q d rc s))) (fst (enqueue p c le i q d rc s))"
| ss_paste: "sess_step em s (admitted le q (snd (enqueue_paste em p c le i q tx en rc s)))
    (fst (enqueue_paste em p c le i q tx en rc s))"
| ss_resize: "sess_step em s [] (fst (session_resize em ok p c le cols rows s))"
| ss_close: "sess_step em s [] (close s)"
| ss_exit: "sess_step em s [] (child_exited ok s)"
| ss_revoke: "op \<in> {RevokeConnection i, RevokeClient i, RevokeAll} \<Longrightarrow>
    sess_step em s [] (s\<lparr>s_lease := apply_op now op (s_lease s)\<rparr>)"
| ss_note: "sess_step em s [] (s\<lparr>s_ledger := finish (s_ledger s) i st\<rparr>)"
| ss_other: "s_lease s' = s_lease s \<Longrightarrow> s_ledger s' = s_ledger s \<Longrightarrow> sess_step em s [] s'"

inductive sess_run :: "'m emulator \<Rightarrow> 'm session \<Rightarrow> (u64 \<times> u64) list \<Rightarrow> 'm session \<Rightarrow> bool" for em where
  sr_refl: "sess_run em s [] s"
| sr_step: "sess_run em s tr s1 \<Longrightarrow> sess_step em s1 l s2 \<Longrightarrow> sess_run em s (tr @ l) s2"

text \<open>What a step does to the guards: a lease operation, an admission, a note, or nothing.\<close>

definition guard_effect :: "'m session \<Rightarrow> (u64 \<times> u64) list \<Rightarrow> 'm session \<Rightarrow> bool" where
  "guard_effect s l s' \<longleftrightarrow>
     (l = [] \<and> s_ledger s' = s_ledger s \<and> (s_lease s' = s_lease s \<or> lease_step (s_lease s) (s_lease s')))
   \<or> (l = [] \<and> s_lease s' = s_lease s \<and> ledger_idle (s_ledger s) (s_ledger s'))
   \<or> (\<exists>c q g. l = [(epoch (s_lease s), q)] \<and> s_lease s' = s_lease s \<and> lease_connection (s_lease s) = Some c
        \<and> ledger_admit (s_ledger s) c (epoch (s_lease s)) q g \<and> (s_ledger s' = g \<or> ledger_idle g (s_ledger s')))"

lemma lease_stepI:
  "acquire l cl c t now = Some (l', r) \<Longrightarrow> lease_step l l'"
  "renew l cl c e now = Some (l', r2) \<Longrightarrow> lease_step l l'"
  "release l cl c e now = (l', r3) \<Longrightarrow> lease_step l l'"
  "lease_step l (revoke_all l)"
  unfolding lease_step_def
     apply (rule exI [of _ now], rule exI [of _ "Acquire cl c t"], simp)
    apply (rule exI [of _ now], rule exI [of _ "Renew cl c e"], simp)
   apply (rule exI [of _ now], rule exI [of _ "Release cl c e"], simp)
  by (rule exI [of _ now], rule exI [of _ RevokeAll], simp)

lemma changed_fields [simp]: "s_lease (changed r s) = s_lease s" "s_ledger (changed r s) = s_ledger s"
  by (simp_all add: changed_def)

lemma try_send_fields:
  "try_send_normal j s = Some s' \<Longrightarrow> s_lease s' = s_lease s \<and> s_ledger s' = s_ledger s"
  "try_send_interrupt j s = Some s' \<Longrightarrow> s_lease s' = s_lease s \<and> s_ledger s' = s_ledger s"
  by (auto simp: try_send_normal_def try_send_interrupt_def split: if_splits)

lemma try_send_stop_fields [simp]: "s_lease (try_send_stop s) = s_lease s" "s_ledger (try_send_stop s) = s_ledger s"
  by (simp_all add: try_send_stop_def)

lemma verify_connection: "verify l cl c e now = Ok () \<Longrightarrow> e = epoch l \<and> lease_connection l = Some c"
  by (auto simp: verify_def lease_connection_def split: option.splits if_splits)

text \<open>The common part of \<open>enqueue\<close> and \<open>enqueue_paste\<close>: admission under a valid lease.\<close>

lemma admission_effect:
  assumes "verify (s_lease s) cl c le now = Ok ()" "accept_limit (s_ledger s) c le i q n cap = (g, Ok ())"
    and "s_lease s' = s_lease s" "s_ledger s' = g \<or> s_ledger s' = finish g i st"
  shows "guard_effect s [(le, q)] s'"
proof -
  have "ledger_admit (s_ledger s) c le q g"
    using assms(2) unfolding ledger_admit_def by (intro exI [of _ i] exI [of _ n] exI [of _ cap]) simp
  with verify_connection [OF assms(1)] assms(3,4) show ?thesis
    unfolding guard_effect_def ledger_idle_def by blast
qed

lemma accept_limit_unit: "accept_limit g c le i q n cap = (g', Ok u) \<Longrightarrow> accept_limit g c le i q n cap = (g', Ok ())"
  by simp

lemma guard_effect_none: "s_lease s' = s_lease s \<Longrightarrow> s_ledger s' = s_ledger s \<Longrightarrow> guard_effect s [] s'"
  by (simp add: guard_effect_def)

lemma guards_not_rate_limited [simp]:
  "requires s p sc \<noteq> Err RateLimited" "verify l cl c e now \<noteq> Err RateLimited"
  "accept_limit g c e i q n cap \<noteq> (g', Err RateLimited)"
  by (auto simp: requires_def require_def verify_def accept_limit_def Let_def split: option.splits prod.splits if_splits)

lemma enqueue_effect:
  "guard_effect s (admitted le q (snd (enqueue p c le i q d rc s))) (fst (enqueue p c le i q d rc s))"
proof (cases "requires s p TerminalWrite = Ok () \<and> verify (s_lease s) (p_client p) c le (clock s) = Ok ()
    \<and> snd (accept (s_ledger s) c le i q (length d)) = Ok ()")
  case False
  then show ?thesis
    using accept_limit_Err [of "s_ledger s" c le i q "length d" MAX_INPUT]
    by (auto simp: enqueue_def admitted_def accept_def intro!: guard_effect_none split: sum.splits prod.splits)
next
  case True
  obtain g where g: "accept_limit (s_ledger s) c le i q (length d) MAX_INPUT = (g, Ok ())"
    using True by (cases "accept (s_ledger s) c le i q (length d)") (auto simp: accept_def)
  show ?thesis
    using True g by (auto simp: enqueue_def admitted_def accept_def Let_def dest!: try_send_fields
        intro!: admission_effect [OF _ g, of "p_client p" "clock s"] split: option.splits if_splits)
qed

lemma enqueue_paste_effect:
  "guard_effect s (admitted le q (snd (enqueue_paste em p c le i q tx en rc s))) (fst (enqueue_paste em p c le i q tx en rc s))"
proof (cases "requires s p TerminalWrite = Ok () \<and> verify (s_lease s) (p_client p) c le (clock s) = Ok ()
    \<and> snd (accept_paste (s_ledger s) c le i q (length (paste_bytes tx))) = Ok ()
    \<and> \<not> (tx = [] \<or> length tx > MAX_PASTE \<or> list_ex paste_byte_refused tx)")
  case False
  then show ?thesis
    using accept_limit_Err [of "s_ledger s" c le i q "length (paste_bytes tx)" MAX_PASTE]
    by (auto simp: enqueue_paste_def admitted_def accept_paste_def Let_def intro!: guard_effect_none
        split: sum.splits prod.splits)
next
  case True
  obtain g where g: "accept_limit (s_ledger s) c le i q (length (paste_bytes tx)) MAX_PASTE = (g, Ok ())"
    using True by (cases "accept_paste (s_ledger s) c le i q (length (paste_bytes tx))") (auto simp: accept_paste_def)
  show ?thesis
    using True g by (auto simp: enqueue_paste_def admitted_def accept_paste_def Let_def dest!: try_send_fields
        intro!: admission_effect [OF _ g, of "p_client p" "clock s"] split: option.splits)
qed

lemma sess_step_effect: "sess_step em s l s' \<Longrightarrow> guard_effect s l s'"
proof (induction rule: sess_step.induct)
  case (ss_acquire s p c t)
  then show ?case
    by (auto simp: session_acquire_def guard_effect_def dest: lease_stepI(1) split: sum.splits option.splits)
next
  case (ss_renew s p c e)
  then show ?case
    by (auto simp: session_renew_def guard_effect_def dest: lease_stepI(2) split: sum.splits option.splits)
next
  case (ss_release s p c e)
  then show ?case
    by (auto simp: session_release_def guard_effect_def dest: lease_stepI(3) split: sum.splits prod.splits)
next
  case (ss_resize s ok p c le cols rows)
  then show ?case
    by (auto simp: session_resize_def Let_def intro!: guard_effect_none split: sum.splits prod.splits)
next
  case (ss_close s)
  then show ?case by (auto simp: close_def Let_def guard_effect_def lease_stepI(4))
next
  case (ss_exit s ok)
  then show ?case by (auto simp: child_exited_def guard_effect_def lease_stepI(4))
next
  case (ss_revoke op i s now)
  then show ?case by (auto simp: guard_effect_def lease_step_def)
next
  case (ss_note s i st)
  then show ?case by (auto simp: guard_effect_def ledger_idle_def)
qed (simp_all add: enqueue_effect enqueue_paste_effect guard_effect_none)

lemma guard_effect_guarded:
  "guard_effect s l s' \<Longrightarrow> input_guard.guarded (s_lease s) (s_ledger s) tr \<Longrightarrow>
     input_guard.guarded (s_lease s') (s_ledger s') (tr @ l)"
  unfolding guard_effect_def
  by (auto intro: input_guard.g_lease input_guard.g_idle input_guard.g_admit
      input_guard.g_idle [OF input_guard.g_admit])

lemma sess_run_guarded:
  "sess_run em s0 tr s \<Longrightarrow> input_guard.guarded (s_lease s) (s_ledger s) tr"
proof (induction rule: sess_run.induct)
  case (sr_refl s)
  show ?case by (rule input_guard.g_start)
next
  case (sr_step s tr s1 l s2)
  then show ?case using guard_effect_guarded sess_step_effect by blast
qed

section \<open>What the writer delivers\<close>

text \<open>
  What is assumed of the other threads: they do not write to the pseudo terminal and do not reply,
  they never lower the lease epoch, and what they put into the interrupt queue is a Ctrl+C.
\<close>

definition is_interrupt :: "input_job \<Rightarrow> bool" where
  "is_interrupt j \<longleftrightarrow> j_data j = [3] \<and> \<not> j_bulk j \<and> \<not> j_bracketed j \<and> \<not> j_append_enter j"

definition rely :: "'m environment \<Rightarrow> bool" where
  "rely env \<longleftrightarrow> (\<forall>n s. pty (env n s) = pty s \<and> replies (env n s) = replies s
     \<and> epoch (s_lease s) \<le> epoch (s_lease (env n s))
     \<and> (list_all is_interrupt (interrupt_q s) \<longrightarrow> list_all is_interrupt (interrupt_q (env n s))))"

text \<open>What every step of the writer keeps.\<close>

definition kept :: "'m session \<Rightarrow> 'm session \<Rightarrow> bool" where
  "kept s s' \<longleftrightarrow> replies s' = replies s \<and> epoch (s_lease s) \<le> epoch (s_lease s')
     \<and> (list_all is_interrupt (interrupt_q s) \<longrightarrow> list_all is_interrupt (interrupt_q s'))"

lemma kept_refl [simp]: "kept s s"
  by (simp add: kept_def)

lemma kept_trans: "kept a b \<Longrightarrow> kept b c \<Longrightarrow> kept a c"
  by (auto simp: kept_def)

lemma rely_interfere:
  assumes "rely env"
  shows "pty (interfere env s) = pty s" "kept s (interfere env s)"
proof -
  let ?s = "s\<lparr>interference := Suc (interference s)\<rparr>"
  have "pty (env (interference s) ?s) = pty ?s \<and> kept ?s (env (interference s) ?s)"
    using assms unfolding rely_def kept_def by blast
  then show "pty (interfere env s) = pty s" "kept s (interfere env s)"
    by (simp_all add: interfere_def kept_def)
qed

lemma write_all_delivers:
  assumes "write_all io bs s = (s', r)"
  shows "\<exists>k. pty s' = pty s @ take k bs" "r = Ok () \<Longrightarrow> pty s' = pty s @ bs" "kept s s'" "normal_q s' = normal_q s"
  using assms by (auto simp: write_all_def kept_def split: option.splits intro: exI [of _ "length bs"])

lemma concat_chunks: "0 < n \<Longrightarrow> concat (chunks n xs) = xs"
  by (induction n xs rule: chunks.induct) (simp add: chunks.simps)

text \<open>The interrupt that a bulk job found, if any, is a Ctrl+C.\<close>

definition urgent_ok :: "input_job \<Rightarrow> 'm session \<Rightarrow> input_job option \<Rightarrow> bool" where
  "urgent_ok j s u \<longleftrightarrow> (case u of None \<Rightarrow> True
     | Some x \<Rightarrow> j_bulk j \<and> (list_all is_interrupt (interrupt_q s) \<longrightarrow> is_interrupt x))"

lemma urgent_ok_kept: "urgent_ok j s' u \<Longrightarrow> kept s s' \<Longrightarrow> urgent_ok j s u"
  by (auto simp: urgent_ok_def kept_def split: option.splits)

lemma write_chunks_Cons_cases:
  assumes "rely env" "write_chunks env io j (c # cs) s = (s', r, u)"
  obtains (stopped) k where "kept s s'" "pty s' = pty s @ take k c" "r \<noteq> Ok ()" "urgent_ok j s u"
    | (more) s2 where "kept s s2" "pty s2 = pty s @ c" "write_chunks env io j cs s2 = (s', r, u)"
proof -
  let ?s0 = "interfere env s" and ?s1 = "interfere env (interfere env s)"
  have k0: "pty ?s0 = pty s" "kept s ?s0" "pty ?s1 = pty s" "kept s ?s1"
    using rely_interfere [OF assms(1)] kept_trans by fastforce+
  obtain s2 r2 where w: "write_all io c ?s1 = (s2, r2)" by (cases "write_all io c ?s1")
  note wd = write_all_delivers [OF w]
  consider (urgent) "j_bulk j" "interrupt_q ?s0 \<noteq> []" "s' = ?s0\<lparr>interrupt_q := tl (interrupt_q ?s0)\<rparr>"
        "r = Err InputCanceled" "u = Some (hd (interrupt_q ?s0))"
    | (refused) "r \<noteq> Ok ()" "s' = ?s1" "u = None"
    | (failed) "r \<noteq> Ok ()" "s' = s2" "u = None"
    | (written) "r2 = Ok ()" "write_chunks env io j cs s2 = (s', r, u)"
    using assms(2) w
    by (cases "permitted j ?s1") (auto simp: Let_def split: if_splits sum.splits, (metis Inr_not_Inl)+)
  then show thesis
  proof cases
    case urgent
    then have "urgent_ok j ?s0 u" by (cases "interrupt_q ?s0") (auto simp: urgent_ok_def)
    moreover have "kept ?s0 s'" using urgent by (cases "interrupt_q ?s0") (auto simp: kept_def)
    ultimately show thesis
      using urgent k0 by (intro stopped [of 0]) (auto intro: kept_trans urgent_ok_kept)
  next
    case refused
    then show thesis using k0 by (intro stopped [of 0]) (auto simp: urgent_ok_def)
  next
    case failed
    obtain k where "pty s2 = pty s @ take k c" using wd(1) k0 by auto
    then show thesis
      using failed wd(3) k0 by (intro stopped [of k]) (auto simp: urgent_ok_def intro: kept_trans)
  next
    case written
    then show thesis using wd k0 by (intro more [of s2]) (auto intro: kept_trans)
  qed
qed

lemma write_chunks_delivers:
  assumes "rely env" "write_chunks env io j cs s = (s', r, u)"
  shows "kept s s' \<and> (\<exists>k. pty s' = pty s @ take k (concat cs)) \<and> urgent_ok j s u
    \<and> (r = Ok () \<longrightarrow> pty s' = pty s @ concat cs \<and> u = None)"
  using assms(2)
proof (induction cs arbitrary: s)
  case Nil
  then show ?case by (auto simp: urgent_ok_def)
next
  case (Cons c cs)
  from assms(1) Cons.prems show ?case
  proof (cases rule: write_chunks_Cons_cases)
    case (stopped k)
    then have "pty s' = pty s @ take (min k (length c)) (concat (c # cs))" by (simp add: min_def)
    with stopped show ?thesis by blast
  next
    case (more s2)
    from Cons.IH [OF more(3)] obtain k where
      IH: "kept s2 s'" "pty s' = pty s2 @ take k (concat cs)" "urgent_ok j s2 u"
        "r = Ok () \<longrightarrow> pty s' = pty s2 @ concat cs \<and> u = None" by blast
    then have "pty s' = pty s @ take (length c + k) (concat (c # cs))" using more(2) by simp
    then have "\<exists>k. pty s' = pty s @ take k (concat (c # cs))" by (rule exI)
    moreover have "r = Ok () \<longrightarrow> pty s' = pty s @ concat (c # cs) \<and> u = None" using IH(4) more(2) by simp
    ultimately show ?thesis
      using kept_trans [OF more(1) IH(1)] urgent_ok_kept [OF IH(3) more(1)] by blast
  qed
qed

text \<open>The bytes a job may have delivered, and the bytes of a complete delivery.\<close>

definition enter_bytes :: "input_job \<Rightarrow> bytes" where
  "enter_bytes j = (if j_append_enter j then [13] else [])"

definition full_delivery :: "input_job \<Rightarrow> bytes" where
  "full_delivery j = (if j_bracketed j then PASTE_BEGIN @ j_data j @ PASTE_END else j_data j)
     @ enter_bytes j"

definition partial_delivery :: "input_job \<Rightarrow> bytes \<Rightarrow> bool" where
  "partial_delivery j w \<longleftrightarrow>
     (if j_bracketed j then (\<exists>k. w = take k PASTE_BEGIN) \<or> (\<exists>k m n. w = PASTE_BEGIN @ take k (j_data j) @ take m PASTE_END @ take n (enter_bytes j))
      else (\<exists>k n. w = take k (j_data j) @ take n (enter_bytes j)))"

lemma write_data_delivers:
  assumes "rely env" "write_data env io j s = (s', r, u, pre)"
  shows "kept s s' \<and> urgent_ok j s u
    \<and> (\<exists>w. pty s' = pty s @ w \<and> (if pre then j_bracketed j \<and> (\<exists>k. w = PASTE_BEGIN @ take k (j_data j))
        else if j_bracketed j then r \<noteq> Ok () \<and> (\<exists>k. w = take k PASTE_BEGIN) else (\<exists>k. w = take k (j_data j)))
      \<and> (r = Ok () \<longrightarrow> u = None \<and> pre = j_bracketed j \<and> w = (if pre then PASTE_BEGIN else []) @ j_data j))"
proof -
  let ?s0 = "interfere env s"
  have k0: "pty ?s0 = pty s" "kept s ?s0" using rely_interfere [OF assms(1)] by auto
  have cc: "concat (chunks 8192 (j_data j)) = j_data j" by (rule concat_chunks) simp
  consider (refused) "r \<noteq> Ok ()" "s' = ?s0" "u = None" "\<not> pre"
    | (failed) s1 r1 where "j_bracketed j" "write_all io PASTE_BEGIN ?s0 = (s1, r1)" "r \<noteq> Ok ()" "s' = s1" "u = None" "\<not> pre"
    | (bracketed) s1 where "j_bracketed j" "write_all io PASTE_BEGIN ?s0 = (s1, Ok ())" pre
        "write_chunks env io j (chunks 8192 (j_data j)) s1 = (s', r, u)"
    | (plain) "\<not> j_bracketed j" "\<not> pre" "write_chunks env io j (chunks 8192 (j_data j)) ?s0 = (s', r, u)"
    using assms(2)
    by (cases "permitted j ?s0")
      (auto simp: write_data_def Let_def split: if_splits sum.splits prod.splits, (metis Inr_not_Inl)+)
  then show ?thesis
  proof cases
    case refused
    moreover have "\<exists>k. [] = take k (j_data j)" "\<exists>k. [] = take k PASTE_BEGIN" by (rule exI [of _ 0], simp)+
    ultimately show ?thesis using k0 by (auto simp: urgent_ok_def)
  next
    case failed
    from write_all_delivers [OF failed(2)] failed k0 show ?thesis
      by (auto simp: urgent_ok_def intro: kept_trans)
  next
    case bracketed
    note w = write_all_delivers [OF bracketed(2)]
    from write_chunks_delivers [OF assms(1) bracketed(4)] w k0 bracketed show ?thesis
      by (auto simp: cc intro: kept_trans urgent_ok_kept [OF urgent_ok_kept])
  next
    case plain
    from write_chunks_delivers [OF assms(1) plain(3)] k0 plain show ?thesis
      by (auto simp: cc intro: kept_trans urgent_ok_kept)
  qed
qed

lemma write_tail_cases:
  assumes "write_tail env io j pre r s = (s', r')"
  obtains (none) s1 sfx where "(if pre then write_all io PASTE_END s else (s, Ok ())) = (s1, sfx)" "s' = s1"
      "r' = Ok () \<longrightarrow> r = Ok () \<and> sfx = Ok () \<and> \<not> j_append_enter j"
    | (refused) s1 where "(if pre then write_all io PASTE_END s else (s, Ok ())) = (s1, Ok ())" "r = Ok ()"
        "s' = interfere env s1" "r' \<noteq> Ok ()"
    | (enter) s1 where "(if pre then write_all io PASTE_END s else (s, Ok ())) = (s1, Ok ())" "r = Ok ()"
        "j_append_enter j" "write_all io [13] (interfere env s1) = (s', r')"
proof -
  obtain s1 sfx where sx: "(if pre then write_all io PASTE_END s else (s, Ok ())) = (s1, sfx)"
    by (cases "if pre then write_all io PASTE_END s else (s, Ok ())")
  show thesis
  proof (cases "r = Ok () \<and> sfx = Ok () \<and> j_append_enter j")
    case True
    then show thesis
      using assms sx by (cases "permitted j (interfere env s1)") (auto simp: write_tail_def Let_def intro: refused enter)
  next
    case False
    then have "s' = s1 \<and> (r' = Ok () \<longrightarrow> r = Ok () \<and> sfx = Ok () \<and> \<not> j_append_enter j)"
      using assms sx by (cases r; cases sfx) (auto simp: write_tail_def Let_def)
    then show thesis using none [OF sx] by blast
  qed
qed

lemma suffix_delivers:
  assumes "(if pre then write_all io PASTE_END s else (s, Ok ())) = (s1, sfx)"
  shows "kept s s1" "\<exists>m. pty s1 = pty s @ (if pre then take m PASTE_END else [])"
    "sfx = Ok () \<Longrightarrow> pty s1 = pty s @ (if pre then PASTE_END else [])"
proof -
  have "kept s s1 \<and> (\<exists>m. pty s1 = pty s @ (if pre then take m PASTE_END else []))
    \<and> (sfx = Ok () \<longrightarrow> pty s1 = pty s @ (if pre then PASTE_END else []))"
  proof (cases pre)
    case True
    with assms write_all_delivers [of io PASTE_END s s1 sfx] show ?thesis by simp
  next
    case False
    with assms show ?thesis by simp
  qed
  then show "kept s s1" "\<exists>m. pty s1 = pty s @ (if pre then take m PASTE_END else [])"
    "sfx = Ok () \<Longrightarrow> pty s1 = pty s @ (if pre then PASTE_END else [])" by blast+
qed

lemma write_tail_delivers:
  assumes "rely env" "write_tail env io j pre r s = (s', r')"
  shows "kept s s' \<and> (\<exists>m n. pty s' = pty s @ (if pre then take m PASTE_END else []) @ (if r = Ok () then take n (enter_bytes j) else []))
    \<and> (r' = Ok () \<longrightarrow> r = Ok () \<and> pty s' = pty s @ (if pre then PASTE_END else []) @ enter_bytes j)"
  using assms(2)
proof (cases rule: write_tail_cases)
  case (none s1 sfx)
  from suffix_delivers [OF none(1)] obtain m where k: "kept s s1" "pty s1 = pty s @ (if pre then take m PASTE_END else [])"
      "sfx = Ok () \<Longrightarrow> pty s1 = pty s @ (if pre then PASTE_END else [])" by blast
  have "\<exists>m n. pty s' = pty s @ (if pre then take m PASTE_END else []) @ (if r = Ok () then take n (enter_bytes j) else [])"
    by (rule exI [of _ m], rule exI [of _ 0]) (simp add: none(2) k(2))
  then show ?thesis using none(2,3) k(1,3) by (simp add: enter_bytes_def)
next
  case (refused s1)
  note sx = suffix_delivers(1,3) [OF refused(1)] and rl = rely_interfere [OF assms(1), of s1]
  have "\<exists>m n. pty s' = pty s @ (if pre then take m PASTE_END else []) @ (if r = Ok () then take n (enter_bytes j) else [])"
    by (rule exI [of _ "length PASTE_END"], rule exI [of _ 0]) (simp add: refused(3) sx(2) rl(1))
  then show ?thesis using refused(3,4) kept_trans [OF sx(1) rl(2)] by simp
next
  case (enter s1)
  note sx = suffix_delivers(1,3) [OF enter(1)] and rl = rely_interfere [OF assms(1), of s1]
  note w = write_all_delivers [OF enter(4)]
  obtain n where n: "pty s' = pty (interfere env s1) @ take n [13]" using w(1) by blast
  have "\<exists>m n. pty s' = pty s @ (if pre then take m PASTE_END else []) @ (if r = Ok () then take n (enter_bytes j) else [])"
    by (rule exI [of _ "length PASTE_END"], rule exI [of _ n]) (simp add: n enter(2,3) sx(2) rl(1) enter_bytes_def)
  then show ?thesis
    using enter(2,3) w(2) sx(2) rl(1) kept_trans [OF kept_trans [OF sx(1) rl(2)] w(3)]
    by (simp add: enter_bytes_def)
qed

lemma record_result_fields [simp]:
  "pty (record_result j r s) = pty s" "normal_q (record_result j r s) = normal_q s"
  "interrupt_q (record_result j r s) = interrupt_q s" "s_lease (record_result j r s) = s_lease s"
  by (simp_all add: record_result_def reply_def Let_def)

lemma record_result_reply:
  "\<exists>v. replies (record_result j r s) = replies s @ [(j_id j, v)] \<and> (is_ok v \<longleftrightarrow> is_ok r)"
  by (auto simp: record_result_def reply_def Let_def split: sum.splits)

lemma write_once_delivers:
  assumes "rely env" "write_once env io j s = (s', r, u)"
  shows "(\<exists>w. pty s' = pty s @ w \<and> partial_delivery j w \<and> (r = Ok () \<longrightarrow> w = full_delivery j \<and> u = None))
    \<and> (\<exists>v. replies s' = replies s @ [(j_id j, v)] \<and> (is_ok v \<longleftrightarrow> is_ok r)) \<and> urgent_ok j s u
    \<and> (list_all is_interrupt (interrupt_q s) \<longrightarrow> list_all is_interrupt (interrupt_q s'))"
proof -
  obtain s1 r1 u1 pre where d: "write_data env io j s = (s1, r1, u1, pre)" by (cases "write_data env io j s") auto
  obtain s2 r2 where t: "write_tail env io j pre r1 s1 = (s2, r2)" by (cases "write_tail env io j pre r1 s1")
  have e: "s' = record_result j r2 s2" "r = r2" "u = u1" using assms(2) d t by (auto simp: write_once_def)
  note D = write_data_delivers [OF assms(1) d] and T = write_tail_delivers [OF assms(1) t]
  from D obtain w where w: "pty s1 = pty s @ w"
      "if pre then j_bracketed j \<and> (\<exists>k. w = PASTE_BEGIN @ take k (j_data j))
        else if j_bracketed j then r1 \<noteq> Ok () \<and> (\<exists>k. w = take k PASTE_BEGIN) else (\<exists>k. w = take k (j_data j))"
      "r1 = Ok () \<longrightarrow> u1 = None \<and> pre = j_bracketed j \<and> w = (if pre then PASTE_BEGIN else []) @ j_data j" by blast
  from T obtain m n where v: "pty s2 = pty s1 @ (if pre then take m PASTE_END else []) @ (if r1 = Ok () then take n (enter_bytes j) else [])"
    by blast
  let ?w = "w @ (if pre then take m PASTE_END else []) @ (if r1 = Ok () then take n (enter_bytes j) else [])"
  have ok: "r = Ok () \<longrightarrow> pty s' = pty s @ full_delivery j \<and> u = None"
    using T w e by (auto simp: full_delivery_def)
  have pty: "pty s' = pty s @ ?w" using e(1) v w(1) by simp
  have ent: "\<exists>q. (if r1 = Ok () then take n (enter_bytes j) else []) = take q (enter_bytes j)"
    by (cases "r1 = Ok ()") (auto intro: exI [of _ 0])
  have "partial_delivery j ?w"
  proof (cases "j_bracketed j \<and> \<not> pre")
    case True
    with w(2) show ?thesis by (auto simp: partial_delivery_def)
  next
    case False
    obtain q where q: "(if r1 = Ok () then take n (enter_bytes j) else []) = take q (enter_bytes j)" using ent by blast
    show ?thesis
    proof (cases pre)
      case True
      with w(2) obtain k where "w = PASTE_BEGIN @ take k (j_data j)" "j_bracketed j" by auto
      then show ?thesis using True q unfolding partial_delivery_def
        by (simp, intro disjI2, intro exI [of _ k] exI [of _ m] exI [of _ q]) simp
    next
      case pre: False
      with w(2) False obtain k where "w = take k (j_data j)" "\<not> j_bracketed j" by auto
      then show ?thesis using pre q unfolding partial_delivery_def
        by (simp, intro exI [of _ k] exI [of _ q]) simp
    qed
  qed
  moreover have "kept s s2" using D T kept_trans by blast
  ultimately show ?thesis
    using ok pty e record_result_reply [of j r2 s2] D by (auto simp: kept_def)
qed

text \<open>A job of a past epoch is refused at its first check.\<close>

lemma stale_not_permitted: "j_epoch j < epoch (s_lease s) \<Longrightarrow> permitted j s \<noteq> Ok ()"
  by (auto simp: permitted_def verify_def split: sum.splits option.splits)

lemma write_once_stale:
  assumes "rely env" "j_epoch j < epoch (s_lease s)"
  shows "\<exists>s' e. write_once env io j s = (s', Err e, None) \<and> pty s' = pty s \<and> replies s' = replies s @ [(j_id j, Err e)]"
proof -
  let ?s0 = "interfere env s"
  have k: "pty ?s0 = pty s" "kept s ?s0" using rely_interfere [OF assms(1)] by auto
  then have "permitted j ?s0 \<noteq> Ok ()" using assms(2) by (intro stale_not_permitted) (auto simp: kept_def)
  then obtain e where "permitted j ?s0 = Err e" by (cases "permitted j ?s0") auto
  with k show ?thesis
    by (auto simp: write_once_def write_data_def write_tail_def record_result_def reply_def Let_def kept_def)
qed

lemma cancel_queued_foldl:
  "foldl (\<lambda>s j. reply (j_id j) (Err InputCanceled) (s\<lparr>s_ledger := finish (s_ledger s) (j_id j) ''rejected''\<rparr>)) s js
     = s\<lparr>replies := replies s @ map (\<lambda>j. (j_id j, Err InputCanceled)) js,
        s_ledger := foldl (\<lambda>g j. finish g (j_id j) ''rejected'') (s_ledger s) js\<rparr>"
  by (induction js arbitrary: s) (simp_all add: reply_def)

lemma cancel_queued_fields [simp]:
  "pty (cancel_queued s) = pty s" "normal_q (cancel_queued s) = []" "interrupt_q (cancel_queued s) = interrupt_q s"
  "replies (cancel_queued s) = replies s @ map (\<lambda>j. (j_id j, Err InputCanceled)) (normal_q s)"
  by (simp_all add: cancel_queued_def cancel_queued_foldl)

lemma not_urgent: "urgent_ok j s u \<Longrightarrow> \<not> j_bulk j \<Longrightarrow> u = None"
  by (auto simp: urgent_ok_def split: option.splits)

lemma interrupt_job_completes:
  assumes "rely env" "is_interrupt j"
  shows "\<exists>s' r. write_once env io j s = (s', r, None) \<and> write_job (Suc n) env io j s = Some s'"
proof -
  obtain s' r u where w: "write_once env io j s = (s', r, u)" by (cases "write_once env io j s") auto
  from write_once_delivers [OF assms(1) w] have "urgent_ok j s u" by blast
  with assms(2) have "u = None" by (auto simp: is_interrupt_def dest: not_urgent)
  with w show ?thesis by simp
qed

lemma write_job_completes:
  assumes "rely env" "list_all is_interrupt (interrupt_q s)"
  shows "\<exists>s'. write_job (Suc (Suc n)) env io j s = Some s'"
proof -
  obtain s' r u where w: "write_once env io j s = (s', r, u)" by (cases "write_once env io j s") auto
  from write_once_delivers [OF assms(1) w] assms(2) have u: "\<And>x. u = Some x \<Longrightarrow> is_interrupt x"
    by (auto simp: urgent_ok_def)
  show ?thesis
  proof (cases u)
    case None
    with w show ?thesis by simp
  next
    case (Some x)
    from interrupt_job_completes [OF assms(1) u [OF Some], of io "cancel_queued s'" n] w Some show ?thesis by auto
  qed
qed

lemma enqueue_keeps_interrupts:
  "list_all is_interrupt (interrupt_q s) \<Longrightarrow> list_all is_interrupt (interrupt_q (fst (enqueue p c le i q d rc s)))"
  "list_all is_interrupt (interrupt_q s) \<Longrightarrow> list_all is_interrupt (interrupt_q (fst (enqueue_paste em p c le i q tx en rc s)))"
  by (auto simp: enqueue_def enqueue_paste_def Let_def try_send_normal_def try_send_interrupt_def is_interrupt_def
      split: sum.splits prod.splits option.splits if_splits)

text \<open>A session for the concrete instances: client 7 on connection 3 holds the lease with epoch 1.\<close>

definition sample_session :: "bytes session" where
  "sample_session = \<lparr>meta = sample_info, out_state = new_output [] 65536,
     s_lease = \<lparr>epoch = 1, owner = Some \<lparr>client = 7, connection = 3, until = secs 15\<rparr>\<rparr>, s_ledger = default_ledger,
     master = True, killed = False, normal_q = [], interrupt_q = [], query_q = [], stop_q = 0, writer_alive = True,
     running = True, managed_codex = False, change_log = [], pty = [], writes = 0, replies = [], clock = 0, wall_ms = 0,
     revoked_tokens = [], interference = 0\<rparr>"

definition sample_job :: "u64 \<Rightarrow> bytes \<Rightarrow> input_job" where
  "sample_job e d = \<lparr>j_p = one_principal, j_connection = 3, j_epoch = e, j_id = 11, j_data = d, j_received = 0,
     j_bulk = False, j_bracketed = False, j_append_enter = False\<rparr>"

lemma rely_quiet: "rely (\<lambda>_ s. s)"
  by (simp add: rely_def)

section \<open>Properties\<close>







text \<open>Ctrl+C flushes the type-ahead: when an interrupt is waiting, the writer's next turn completes,
  answers every queued job with \<open>InputCanceled\<close>, writes nothing of them, and writes at most the
  interrupt byte itself.\<close>

theorem interrupt_cancels_queued_input:
  assumes "rely env" "stop_q s = 0" "interrupt_q s = j # js" "is_interrupt j"
  shows "\<exists>s' k v. writer_turn (Suc n) env io s = Some (s', True) \<and> pty s' = pty s @ take k [3]
    \<and> replies s' = replies s @ map (\<lambda>q. (j_id q, Err InputCanceled)) (normal_q s) @ [(j_id j, v)]"
proof -
  let ?s = "cancel_queued (s\<lparr>interrupt_q := js\<rparr>)"
  from interrupt_job_completes [OF assms(1,4)] obtain s' r where
    w: "write_once env io j ?s = (s', r, None)" "write_job (Suc n) env io j ?s = Some s'" by blast
  from write_once_delivers [OF assms(1) w(1)] obtain x v where
    x: "pty s' = pty ?s @ x" "partial_delivery j x" "replies s' = replies ?s @ [(j_id j, v)]"
      "r = Ok () \<longrightarrow> x = full_delivery j" by blast
  have "\<exists>k. x = take k [3]"
    using x(2) assms(4) by (simp add: partial_delivery_def is_interrupt_def enter_bytes_def)
  then show ?thesis
    using w(2) x(1,3) assms(2,3) by (auto simp: writer_turn_def)
qed

theorem interrupt_cancels_queued_input_witness:
  "let s = sample_session\<lparr>normal_q := [sample_job 1 [0x61, 0x62]], interrupt_q := [sample_job 1 [3]]\<rparr> in
   \<exists>s' k v. writer_turn (Suc 1) (\<lambda>_ s. s) (\<lambda>_. None) s = Some (s', True) \<and> pty s' = pty s @ take k [3]
    \<and> replies s' = replies s @ map (\<lambda>q. (j_id q, Err InputCanceled)) (normal_q s) @ [(j_id (sample_job 1 [3]), v)]"
  unfolding Let_def
  by (rule interrupt_cancels_queued_input [OF rely_quiet])
    (simp_all add: sample_session_def sample_job_def is_interrupt_def)

text \<open>C18. The writer's turn always completes: with at most two nested jobs, whatever the other threads do
  and however the writes end.\<close>

theorem writer_turn_completes:
  assumes "rely env" "list_all is_interrupt (interrupt_q s)"
  shows "\<exists>r. writer_turn 2 env io s = Some r"
proof -
  have "\<exists>s'. write_job 2 env io j x = Some s'" if "list_all is_interrupt (interrupt_q x)" for j x
    using write_job_completes [OF assms(1) that, of 0] by (simp add: numeral_2_eq_2)
  then show ?thesis
    using assms(2) by (cases "interrupt_q s") (fastforce simp: writer_turn_def split: list.splits)+
qed

theorem writer_turn_completes_witness: "\<exists>r. writer_turn 2 (\<lambda>_ s. s) (\<lambda>_. Some 0) sample_session = Some r"
  by (rule writer_turn_completes [OF rely_quiet]) (simp add: sample_session_def)

end
