(* ===== verification/Terminal_Stream.thy ===== *)
theory Terminal_Stream
  imports Session_Input
begin

text \<open>
  The terminal channel of \<open>rc-agent/src/ws.rs\<close>: a viewer gets a snapshot and then the frames that
  follow it, paid for with credit. The model is the loop of \<open>terminal\<close>: one iteration either sends
  the next frame or waits for one event of the select. The frames accepted by the socket are
  logged in \<open>wire_log\<close>.

  What an iteration reads from outside is the record \<open>stream_env\<close>: the clock, the cancelled tokens,
  the shutdown flag, the session's replay function at that moment, the outcome of the send, the
  event of the select and the result of redeeming a refresh ticket.
\<close>

section \<open>Model: the snapshot\<close>

text \<open>\<open>meta_json\<close> is the JSON text of the snapshot description.\<close>

definition snapshot_sequence :: "snapshot_meta \<Rightarrow> u64" where
  "snapshot_sequence m = (case parse_uint (2 ^ 64) (sm_sequence m) of None \<Rightarrow> 0 | Some n \<Rightarrow> of_nat n)"

definition snapshot_frames :: "uuid \<Rightarrow> snapshot_meta \<Rightarrow> bytes \<Rightarrow> bytes \<Rightarrow> frame list" where
  "snapshot_frames sid m meta_json data =
     (let mk = (\<lambda>k p. \<lparr>kind = k, session_id = sid, generation = sm_generation m,
            sequence = snapshot_sequence m, payload = p\<rparr>)
      in [mk SNAPSHOT_META meta_json] @ map (mk SNAPSHOT_CHUNK) (chunks MAX_PAYLOAD data) @ [mk SNAPSHOT_END []])"

text \<open>\<open>send_frame\<close>: encoding may refuse the frame, the socket may fail or time out.\<close>

definition send_frame :: "bool \<Rightarrow> frame \<Rightarrow> bool" where
  "send_frame ok f \<longleftrightarrow> is_ok (encode f) \<and> ok"

text \<open>
  The snapshot frames go out one by one; the principal is checked before each chunk. The result is
  the frames sent and whether the channel goes on; \<open>auth\<close> and \<open>ok\<close> are the verdict and the socket at
  each frame.
\<close>

fun send_snapshot :: "(nat \<Rightarrow> bool) \<Rightarrow> (nat \<Rightarrow> bool) \<Rightarrow> nat \<Rightarrow> frame list \<Rightarrow> frame list \<times> bool" where
  "send_snapshot auth ok i [] = ([], True)"
| "send_snapshot auth ok i (f # fs) =
     (if kind f = SNAPSHOT_CHUNK \<and> \<not> auth i then ([], False)
      else if \<not> send_frame (ok i) f then ([], False)
      else (let (out, r) = send_snapshot auth ok (Suc i) fs in (f # out, r)))"

section \<open>Model: the stream\<close>

record stream =
  applied :: u64
  sent :: u64
  inflight :: "(u64 \<times> nat) list"
  unacked :: nat
  pendq :: "frame list"
  ack_deadline :: instant
  viewer :: principal
  wire_log :: "frame list"

datatype stream_event =
    Ev_revoked
  | Ev_shutdown
  | Ev_expired
  | Ev_deadline
  | Ev_text "stream_message option"
  | Ev_not_text
  | Ev_frame frame
  | Ev_lagged
  | Ev_log_closed

record stream_env =
  e_now :: instant
  e_revoked :: "token list"
  e_shutdown :: bool
  e_replay :: "u64 \<Rightarrow> frame list result"
  e_send_ok :: bool
  e_event :: stream_event
  e_redeem :: "str \<Rightarrow> (principal \<times> uuid option) result"
  e_session :: uuid

definition CREDIT :: nat where "CREDIT = 256 * 1024"
definition MAX_PENDING :: nat where "MAX_PENDING = 1024 * 1024"

definition start_stream :: "principal \<Rightarrow> instant \<Rightarrow> u64 \<Rightarrow> stream" where
  "start_stream p now seq =
     \<lparr>applied = seq, sent = seq, inflight = [], unacked = 0, pendq = [], ack_deadline = now + secs 20,
      viewer = p, wire_log = []\<rparr>"

definition frame_cost :: "frame \<Rightarrow> nat" where
  "frame_cost f = length (payload f) + HEADER_LEN"

text \<open>\<open>pending.extend(session.ring_after(sent))\<close>, \<open>None\<close> for the break on an error.\<close>

definition extend_pending :: "stream_env \<Rightarrow> stream \<Rightarrow> stream option" where
  "extend_pending env st =
     (case e_replay env (sent st) of Err _ \<Rightarrow> None | Ok v \<Rightarrow> Some (st\<lparr>pendq := pendq st @ v\<rparr>))"

definition fill_pending :: "stream_env \<Rightarrow> stream \<Rightarrow> stream option" where
  "fill_pending env st = (if pendq st = [] then extend_pending env st else Some st)"

definition send_next :: "stream_env \<Rightarrow> frame \<Rightarrow> frame list \<Rightarrow> stream \<Rightarrow> stream option" where
  "send_next env f rest st =
     (if sequence f \<noteq> sent st + 1 then None
      else if \<not> send_frame (e_send_ok env) f then None
      else Some (st\<lparr>pendq := rest,
                   ack_deadline := (if unacked st = 0 then e_now env + secs 20 else ack_deadline st),
                   sent := sequence f,
                   unacked := unacked st + frame_cost f,
                   inflight := inflight st @ [(sequence f, frame_cost f)],
                   wire_log := wire_log st @ [f]\<rparr>))"

text \<open>An acknowledgement: the records up to the sequence are popped and their bytes released.\<close>

fun pop_acked :: "u64 \<Rightarrow> (u64 \<times> nat) list \<Rightarrow> nat \<Rightarrow> (u64 \<times> nat) list \<times> nat \<times> bool" where
  "pop_acked q [] un = ([], un, False)"
| "pop_acked q ((s, n) # r) un =
     (if s \<le> q then (let (r', un', _) = pop_acked q r (un - n) in (r', un', True)) else ((s, n) # r, un, False))"

definition on_applied :: "stream_env \<Rightarrow> str \<Rightarrow> stream \<Rightarrow> stream option" where
  "on_applied env txt st =
     (case parse_uint (2 ^ 64) txt of
        None \<Rightarrow> None
      | Some n \<Rightarrow>
        (let q = of_nat n in
         if q < applied st \<or> q > sent st then None
         else (let (fl, un, advanced) = pop_acked q (inflight st) (unacked st) in
           Some (st\<lparr>applied := q, inflight := fl, unacked := un,
                    ack_deadline := (if advanced then e_now env + secs 20 else ack_deadline st)\<rparr>))))"

definition on_refresh :: "stream_env \<Rightarrow> str \<Rightarrow> stream \<Rightarrow> stream option" where
  "on_refresh env ticket st =
     (case e_redeem env ticket of
        Ok (p, Some resource) \<Rightarrow>
          if p_client p = p_client (viewer st) \<and> resource = e_session env then Some (st\<lparr>viewer := p\<rparr>) else None
      | _ \<Rightarrow> None)"

definition on_event :: "stream_env \<Rightarrow> stream \<Rightarrow> stream option" where
  "on_event env st =
     (case e_event env of
        Ev_revoked \<Rightarrow> None
      | Ev_shutdown \<Rightarrow> None
      | Ev_expired \<Rightarrow> None
      | Ev_deadline \<Rightarrow> if unacked st > 0 then None else Some st
      | Ev_not_text \<Rightarrow> None
      | Ev_text None \<Rightarrow> None
      | Ev_text (Some (StreamRefreshAuth ticket)) \<Rightarrow> on_refresh env ticket st
      | Ev_text (Some (Applied txt _)) \<Rightarrow> on_applied env txt st
      | Ev_text (Some StreamPing) \<Rightarrow> Some st
      | Ev_frame f \<Rightarrow>
          if \<not> unacked st < CREDIT then Some st
          else if sequence f > sent st then
            (if sequence f = sent st + 1 then Some (st\<lparr>pendq := pendq st @ [f]\<rparr>) else extend_pending env st)
          else Some st
      | Ev_lagged \<Rightarrow> if \<not> unacked st < CREDIT then Some st else extend_pending env st
      | Ev_log_closed \<Rightarrow> if \<not> unacked st < CREDIT then Some st else None)"

text \<open>One iteration of the loop; \<open>None\<close> leaves it.\<close>

definition stream_iter :: "stream_env \<Rightarrow> stream \<Rightarrow> stream option" where
  "stream_iter env st =
     (if \<not> is_ok (require (e_revoked env) (e_now env) (viewer st) TerminalRead) \<or> e_shutdown env then None
      else if unacked st > 0 \<and> e_now env \<ge> ack_deadline st then None
      else (case fill_pending env st of
        None \<Rightarrow> None
      | Some st1 \<Rightarrow>
        (case (if unacked st1 < CREDIT then pendq st1 else []) of
          f # rest \<Rightarrow> send_next env f rest st1
        | [] \<Rightarrow>
          (case on_event env st1 of
            None \<Rightarrow> None
          | Some st2 \<Rightarrow> if sum_list (map frame_cost (pendq st2)) > MAX_PENDING then None else Some st2))))"

section \<open>Invariant\<close>

text \<open>
  The stream as a view of the log from frame \<open>n0\<close> on: what was sent is the next part of the log,
  what is pending is the part after it, and the records in flight are the frames that are sent and
  not acknowledged.
\<close>

definition ledger_of :: "frame list \<Rightarrow> (u64 \<times> nat) list" where
  "ledger_of fs = map (\<lambda>f. (sequence f, frame_cost f)) fs"

definition view_ok :: "frame list \<Rightarrow> nat \<Rightarrow> stream \<Rightarrow> bool" where
  "view_ok hist n0 st \<longleftrightarrow>
     n0 + length (wire_log st) \<le> length hist \<and> length hist < 2 ^ 64
   \<and> wire_log st = take (length (wire_log st)) (drop n0 hist)
   \<and> unat (sent st) = n0 + length (wire_log st)
   \<and> (\<exists>k. pendq st = take k (drop (n0 + length (wire_log st)) hist))
   \<and> n0 \<le> unat (applied st) \<and> unat (applied st) \<le> unat (sent st)
   \<and> inflight st = ledger_of (drop (unat (applied st) - n0) (wire_log st))
   \<and> unacked st = sum_list (map snd (inflight st))"

section \<open>Lemmas\<close>

lemma run_from_nth: "run_from s fs \<Longrightarrow> i < length fs \<Longrightarrow> unat (sequence (fs ! i)) = s + i"
proof (induction fs arbitrary: s i)
  case (Cons f fs)
  then show ?case by (cases i) auto
qed simp

lemma run_from_take: "run_from s fs \<Longrightarrow> run_from s (take k fs)"
  using run_from_append [of s "take k fs" "drop k fs"] by simp

lemma ledger_of_simps [simp]:
  "ledger_of [] = []" "ledger_of (f # fs) = (sequence f, frame_cost f) # ledger_of fs"
  "ledger_of (fs @ gs) = ledger_of fs @ ledger_of gs"
  by (simp_all add: ledger_of_def)

lemma pop_acked_run:
  "run_from (Suc a) ws \<Longrightarrow> a \<le> unat q \<Longrightarrow> un = sum_list (map snd (ledger_of ws)) \<Longrightarrow>
     fst (pop_acked q (ledger_of ws) un) = ledger_of (drop (unat q - a) ws)
   \<and> fst (snd (pop_acked q (ledger_of ws) un)) = sum_list (map snd (ledger_of (drop (unat q - a) ws)))"
proof (induction ws arbitrary: a un)
  case (Cons f fs)
  then have f: "unat (sequence f) = Suc a" "run_from (Suc (Suc a)) fs" by auto
  show ?case
  proof (cases "sequence f \<le> q")
    case True
    then have "Suc a \<le> unat q" using f(1) by (simp add: word_le_nat_alt)
    with Cons.IH [OF f(2) this, of "un - frame_cost f"] Cons.prems(3) True show ?thesis
      by (auto simp: split_beta Let_def Suc_diff_Suc [symmetric] drop_Suc diff_Suc_Suc split: nat.splits)
  next
    case False
    then have "unat q = a" using f(1) Cons.prems(2) by (simp add: word_le_nat_alt)
    with False Cons.prems(3) show ?thesis by simp
  qed
qed simp

text \<open>What changes of a stream the view does not see.\<close>

lemma view_ok_free [simp]:
  "view_ok h n (st\<lparr>viewer := p\<rparr>) = view_ok h n st" "view_ok h n (st\<lparr>ack_deadline := d\<rparr>) = view_ok h n st"
  by (simp_all add: view_ok_def)

lemma view_ok_grow:
  assumes "view_ok h n st" "prefix h h'" "length h' < 2 ^ 64"
  shows "view_ok h' n st"
proof -
  let ?m = "length (wire_log st)"
  obtain t where t: "h' = h @ t" using assms(2) by (auto simp: prefix_def)
  obtain k where k: "pendq st = take k (drop (n + ?m) h)" using assms(1) by (auto simp: view_ok_def)
  have le: "n + ?m \<le> length h" and w: "wire_log st = take ?m (drop n h)" using assms(1) by (auto simp: view_ok_def)
  have "pendq st = take (min k (length h - (n + ?m))) (drop (n + ?m) h')"
    using le by (simp add: k t min_def)
  then have "\<exists>k. pendq st = take k (drop (n + ?m) h')" by blast
  moreover have "wire_log st = take ?m (drop n h')" using le w by (simp add: t)
  ultimately show ?thesis using assms(1,3) le by (simp add: view_ok_def t)
qed

primrec stream_iters :: "stream_env \<Rightarrow> nat \<Rightarrow> stream \<Rightarrow> stream option" where
  "stream_iters env 0 st = Some st"
| "stream_iters env (Suc k) st = (case stream_iter env st of None \<Rightarrow> None | Some st' \<Rightarrow> stream_iters env k st')"

text \<open>A replay that answers every sequence from \<open>q\<close> on with the rest of the log.\<close>

definition replays_from :: "frame list \<Rightarrow> nat \<Rightarrow> (u64 \<Rightarrow> frame list result) \<Rightarrow> bool" where
  "replays_from h q rp \<longleftrightarrow> (\<forall>s. q \<le> unat s \<longrightarrow> rp s = Ok (drop (unat s) h))"

definition stream_free :: "stream_env \<Rightarrow> stream \<Rightarrow> bool" where
  "stream_free env st \<longleftrightarrow> is_ok (require (e_revoked env) (e_now env) (viewer st) TerminalRead)
     \<and> \<not> e_shutdown env \<and> e_send_ok env \<and> (unacked st > 0 \<longrightarrow> e_now env < ack_deadline st)"

context replay_source
begin

lemma view_extend:
  assumes "good s" "view_ok (hist s) n st" "pendq st = []" "e_replay env = replay s" "extend_pending env st = Some st'"
  shows "view_ok (hist s) n st'" "unacked st' = unacked st" "viewer st' = viewer st" "wire_log st' = wire_log st"
proof -
  from assms(4,5) obtain v where v: "replay s (sent st) = Ok v" "st' = st\<lparr>pendq := pendq st @ v\<rparr>"
    by (auto simp: extend_pending_def split: sum.splits)
  have "\<exists>k. v = take k (drop (n + length (wire_log st)) (hist s))"
    using replay_in_log [OF assms(1) v(1)] assms(2) by (simp add: view_ok_def)
  then show "view_ok (hist s) n st'" "unacked st' = unacked st" "viewer st' = viewer st" "wire_log st' = wire_log st"
    using assms(2,3) v(2) by (auto simp: view_ok_def)
qed

lemma view_fill:
  assumes "good s" "view_ok (hist s) n st" "e_replay env = replay s" "fill_pending env st = Some st'"
  shows "view_ok (hist s) n st'" "unacked st' = unacked st" "viewer st' = viewer st" "wire_log st' = wire_log st"
  using assms view_extend [OF assms(1,2) _ assms(3), of st'] by (auto simp: fill_pending_def split: if_splits)

lemma view_send:
  assumes "good s" "view_ok (hist s) n st" "pendq st = f # rest" "send_next env f rest st = Some st'"
  shows "view_ok (hist s) n st' \<and> wire_log st' = wire_log st @ [f]"
proof -
  let ?m = "length (wire_log st)" and ?h = "hist s"
  obtain k where k: "f # rest = take k (drop (n + ?m) ?h)" using assms(2,3) by (auto simp: view_ok_def)
  have lt: "n + ?m < length ?h" using k by (cases "n + ?m < length ?h") auto
  have f: "f = ?h ! (n + ?m)" and rest: "rest = take (k - 1) (drop (n + ?m + 1) ?h)"
    using k lt by (cases k; auto simp: Cons_nth_drop_Suc [symmetric])+
  have seq: "unat (sequence f) = n + ?m + 1" using run_from_nth [OF numbered [OF assms(1)] lt] f by simp
  have w: "wire_log st @ [f] = take (Suc ?m) (drop n ?h)"
    using assms(2) lt by (simp add: f take_Suc_conv_app_nth view_ok_def)
  have d: "drop (unat (applied st) - n) (wire_log st @ [f]) = drop (unat (applied st) - n) (wire_log st) @ [f]"
    using assms(2) by (simp add: view_ok_def)
  have p: "\<exists>k. rest = take k (drop (Suc (n + ?m)) ?h)" using rest by auto
  have st': "sequence f = sent st + 1" "sent st' = sequence f" "pendq st' = rest" "applied st' = applied st"
    "wire_log st' = wire_log st @ [f]" "unacked st' = unacked st + frame_cost f"
    "inflight st' = inflight st @ [(sequence f, frame_cost f)]"
    using assms(4) by (auto simp: send_next_def split: if_splits)
  then show ?thesis
    using assms(2) seq w lt p d by (simp add: view_ok_def)
qed

lemma view_applied:
  assumes "good s" "view_ok (hist s) n st" "on_applied env txt st = Some st'"
  shows "view_ok (hist s) n st' \<and> wire_log st' = wire_log st \<and> pendq st' = pendq st \<and> unacked st' \<le> unacked st"
proof -
  let ?a = "unat (applied st)" and ?w = "wire_log st"
  obtain m where m: "parse_uint (2 ^ 64) txt = Some m" and
    q: "applied st \<le> of_nat m" "of_nat m \<le> sent st"
    using assms(3) by (auto simp: on_applied_def Let_def not_less split: option.splits if_splits)
  define q where "q = (of_nat m :: u64)"
  have n: "n \<le> ?a" and w: "?w = take (length ?w) (drop n (hist s))"
    and fl: "inflight st = ledger_of (drop (?a - n) ?w)" and un: "unacked st = sum_list (map snd (inflight st))"
    using assms(2) by (auto simp: view_ok_def)
  have aq: "?a \<le> unat q" "unat q \<le> unat (sent st)" using q by (auto simp: q_def word_le_nat_alt)
  have "run_from (1 + n) ?w"
    using run_from_take [OF run_from_drop [OF numbered [OF assms(1)], of n], of "length ?w"] w by simp
  then have "run_from (Suc ?a) (drop (?a - n) ?w)" using run_from_drop [of "1 + n" ?w "?a - n"] n by simp
  from pop_acked_run [OF this aq(1), of "unacked st"] fl un
  obtain b where b: "pop_acked q (inflight st) (unacked st) =
      (ledger_of (drop (unat q - n) ?w), sum_list (map snd (ledger_of (drop (unat q - n) ?w))), b)"
    using n aq by (cases "pop_acked q (inflight st) (unacked st)") (simp add: add.commute)
  have le: "sum_list (map snd (ledger_of (drop (unat q - n) ?w))) \<le> unacked st"
  proof -
    have "drop (unat q - n) ?w = drop (unat q - ?a) (drop (?a - n) ?w)" using n aq by simp
    then show ?thesis
      by (metis append_take_drop_id ledger_of_simps(3) map_append sum_list_append le_add2 un fl)
  qed
  have "\<not> (q < applied st \<or> sent st < q)" using q by (simp add: q_def not_less)
  then have "st' = st\<lparr>applied := q, inflight := ledger_of (drop (unat q - n) ?w),
      unacked := sum_list (map snd (ledger_of (drop (unat q - n) ?w))),
      ack_deadline := ack_deadline st'\<rparr>"
    using assms(3) m b by (auto simp: on_applied_def q_def [symmetric] Let_def split: if_splits)
  then obtain d where st': "st' = st\<lparr>applied := q, inflight := ledger_of (drop (unat q - n) ?w),
      unacked := sum_list (map snd (ledger_of (drop (unat q - n) ?w))), ack_deadline := d\<rparr>" ..
  show ?thesis using assms(2) n aq le unfolding st' by (simp add: view_ok_def)
qed

lemma view_push:
  assumes "good s" "view_ok (hist s) n st" "pendq st = []" "f \<in> set (hist s)" "sequence f = sent st + 1" "sequence f > sent st"
  shows "view_ok (hist s) n (st\<lparr>pendq := pendq st @ [f]\<rparr>)"
proof -
  obtain i where i: "i < length (hist s)" "f = hist s ! i" using assms(4) by (auto simp: in_set_conv_nth)
  have "unat (sequence f) = Suc i" using run_from_nth [OF numbered [OF assms(1)] i(1)] i(2) by simp
  moreover have "unat (sent st + 1) = Suc (unat (sent st))"
    using assms(5,6) unatSuc [of "sent st"] by (metis add.commute word_not_simps(1))
  ultimately have "i = n + length (wire_log st)" using assms(2,5) by (simp add: view_ok_def)
  then have "[f] = take 1 (drop (n + length (wire_log st)) (hist s))" using i by (simp add: take_Suc_conv_app_nth)
  then show ?thesis using assms(2,3) by (auto simp: view_ok_def)
qed

lemma view_event:
  assumes "good s" "view_ok (hist s) n st" "e_replay env = replay s" "on_event env st = Some st'"
    and "unacked st < CREDIT \<Longrightarrow> pendq st = []" "\<And>f. e_event env = Ev_frame f \<Longrightarrow> f \<in> set (hist s)"
  shows "view_ok (hist s) n st' \<and> wire_log st' = wire_log st \<and> unacked st' \<le> unacked st"
proof (cases "e_event env")
  case (Ev_text m)
  then show ?thesis
    using assms(2,4) view_applied [OF assms(1,2)]
    by (auto simp: on_event_def on_refresh_def split: option.splits stream_message.splits sum.splits if_splits)
next
  case (Ev_frame f)
  have "f \<in> set (hist s)" using assms(6) Ev_frame by simp
  with Ev_frame show ?thesis
    using assms(2,4,5) view_extend [OF assms(1,2) _ assms(3), of st'] view_push [OF assms(1,2), of f]
    by (auto simp: on_event_def split: if_splits)
next
  case Ev_lagged
  then show ?thesis
    using assms(2,4,5) view_extend [OF assms(1,2) _ assms(3), of st'] by (auto simp: on_event_def split: if_splits)
qed (use assms(2,4) in \<open>auto simp: on_event_def split: if_splits\<close>)

text \<open>One iteration keeps the view and extends the wire by at most one frame.\<close>

lemma view_iter:
  assumes "good s" "view_ok (hist s) n st" "e_replay env = replay s" "stream_iter env st = Some st'"
    and "\<And>f. e_event env = Ev_frame f \<Longrightarrow> f \<in> set (hist s)"
  shows "view_ok (hist s) n st'"
    and "unacked st' \<le> unacked st \<or> unacked st < CREDIT \<and> is_ok (encode (last (wire_log st'))) \<and>
      unacked st' = unacked st + frame_cost (last (wire_log st'))"
    and "sum_list (map frame_cost (pendq st')) \<le> MAX_PENDING \<or> wire_log st' \<noteq> wire_log st"
proof -
  obtain s1 where s1: "fill_pending env st = Some s1"
    using assms(4) by (auto simp: stream_iter_def split: if_splits option.splits)
  note fill = view_fill [OF assms(1,2,3) s1]
  consider (send) f rest where "unacked s1 < CREDIT" "pendq s1 = f # rest" "send_next env f rest s1 = Some st'"
    | (wait) "unacked s1 < CREDIT \<Longrightarrow> pendq s1 = []" "on_event env s1 = Some st'"
        "sum_list (map frame_cost (pendq st')) \<le> MAX_PENDING"
    using assms(4) s1 by (auto simp: stream_iter_def split: if_splits option.splits list.splits)
  then have "view_ok (hist s) n st' \<and> (unacked st' \<le> unacked st \<or> unacked st < CREDIT \<and>
      is_ok (encode (last (wire_log st'))) \<and> unacked st' = unacked st + frame_cost (last (wire_log st')))
     \<and> (sum_list (map frame_cost (pendq st')) \<le> MAX_PENDING \<or> wire_log st' \<noteq> wire_log st)"
  proof cases
    case send
    with view_send [OF assms(1) fill(1) send(2,3)] fill(2,4) show ?thesis
      by (auto simp: send_next_def send_frame_def split: if_splits)
  next
    case wait
    with view_event [OF assms(1) fill(1) assms(3) wait(2,1) assms(5)] fill(2,4) show ?thesis by simp
  qed
  then show "view_ok (hist s) n st'"
    and "unacked st' \<le> unacked st \<or> unacked st < CREDIT \<and> is_ok (encode (last (wire_log st'))) \<and>
      unacked st' = unacked st + frame_cost (last (wire_log st'))"
    and "sum_list (map frame_cost (pendq st')) \<le> MAX_PENDING \<or> wire_log st' \<noteq> wire_log st"
    by blast+
qed

lemma stream_iter_sends:
  assumes "good s" "view_ok (hist s) n st" "replays_from (hist s) (unat (sent st)) (e_replay env)" "stream_free env st"
    "unacked st < CREDIT" "unat (sent st) < length (hist s)" "encodable (hist s ! unat (sent st))"
  shows "\<exists>st'. stream_iter env st = Some st' \<and> view_ok (hist s) n st' \<and> stream_free env st'
     \<and> unacked st' = unacked st + frame_cost (hist s ! unat (sent st)) \<and> unat (sent st') = Suc (unat (sent st))"
proof -
  let ?m = "n + length (wire_log st)"
  have m: "unat (sent st) = ?m" and hl: "length (hist s) < 2 ^ 64" using assms(2) by (auto simp: view_ok_def)
  obtain k where k: "pendq st = take k (drop ?m (hist s))" using assms(2) by (auto simp: view_ok_def)
  obtain s1 j where s1: "fill_pending env st = Some s1" "s1 = st\<lparr>pendq := take (Suc j) (drop ?m (hist s))\<rparr>"
  proof (cases "pendq st = []")
    case True
    then have "fill_pending env st = Some (st\<lparr>pendq := take (Suc (length (hist s))) (drop ?m (hist s))\<rparr>)"
      using assms(3) m by (simp add: fill_pending_def extend_pending_def replays_from_def)
    then show ?thesis using that by blast
  next
    case False
    then obtain j where "k = Suc j" using k by (cases k) auto
    then show ?thesis using that [of st j] k False by (simp add: fill_pending_def)
  qed
  have v1: "view_ok (hist s) n s1" using assms(2) by (auto simp: s1(2) view_ok_def)
  have p: "pendq s1 = hist s ! ?m # take j (drop (Suc ?m) (hist s))" using assms(6) m s1(2) by (simp add: Cons_nth_drop_Suc [symmetric])
  have seq: "unat (sequence (hist s ! ?m)) = Suc ?m" using run_from_nth [OF numbered [OF assms(1)], of ?m] assms(6) m by simp
  have "sequence (hist s ! ?m) = of_nat (unat (sequence (hist s ! ?m)))" by simp
  also have "\<dots> = of_nat (unat (sent st)) + 1" using seq m by simp
  finally have sq: "sequence (hist s ! ?m) = sent s1 + 1" using s1(2) by simp
  have enc: "send_frame (e_send_ok env) (hist s ! ?m)"
    using assms(4,7) m by (simp add: send_frame_def stream_free_def encode_def encodable_def)
  obtain st' where st': "send_next env (hist s ! ?m) (take j (drop (Suc ?m) (hist s))) s1 = Some st'"
    using sq enc by (simp add: send_next_def)
  have it: "stream_iter env st = Some st'"
    using assms(4,5) s1 p st' by (auto simp: stream_iter_def stream_free_def)
  have "view_ok (hist s) n st'" using view_send [OF assms(1) v1 p st'] by simp
  moreover have "stream_free env st'" "unacked st' = unacked st + frame_cost (hist s ! ?m)" "sent st' = sequence (hist s ! ?m)"
    using st' s1(2) assms(4) by (auto simp: send_next_def stream_free_def secs_def split: if_splits)
  ultimately show ?thesis using it seq m by auto
qed

lemma stream_iters_catch_up:
  assumes "good s" "view_ok (hist s) n st" "replays_from (hist s) (unat (sent st)) (e_replay env)" "stream_free env st"
    "unacked st + sum_list (map frame_cost (drop (unat (sent st)) (hist s))) < CREDIT + HEADER_LEN"
    "list_all encodable (drop (unat (sent st)) (hist s))" "k = length (hist s) - unat (sent st)"
  shows "\<exists>st'. stream_iters env k st = Some st' \<and> view_ok (hist s) n st' \<and> unat (sent st') = length (hist s)"
  using assms(2-)
proof (induction k arbitrary: st)
  case 0
  then show ?case by (auto simp: view_ok_def)
next
  case (Suc k)
  let ?i = "unat (sent st)"
  have lt: "?i < length (hist s)" using Suc.prems(6) by simp
  then have d: "drop ?i (hist s) = hist s ! ?i # drop (Suc ?i) (hist s)" by (simp add: Cons_nth_drop_Suc)
  have cr: "unacked st < CREDIT" using Suc.prems(4) d by (simp add: frame_cost_def)
  have en: "encodable (hist s ! ?i)" using Suc.prems(5) d by simp
  from stream_iter_sends [OF assms(1) Suc.prems(1,2,3) cr lt en] obtain st' where st':
    "stream_iter env st = Some st'" "view_ok (hist s) n st'" "stream_free env st'"
    "unacked st' = unacked st + frame_cost (hist s ! ?i)" "unat (sent st') = Suc ?i" by blast
  have "\<exists>u. stream_iters env k st' = Some u \<and> view_ok (hist s) n u \<and> unat (sent u) = length (hist s)"
  proof (rule Suc.IH [OF st'(2) _ st'(3)])
    show "replays_from (hist s) (unat (sent st')) (e_replay env)"
      using Suc.prems(2) st'(5) by (simp add: replays_from_def)
  qed (use Suc.prems(4,5,6) d st'(4,5) in auto)
  then show ?case using st'(1) by simp
qed

end

text \<open>
  A viewer's life: it starts at the sequence of its snapshot, and between its iterations the session
  publishes more frames. The frames that the select delivers were published.
\<close>

inductive stream_run :: "'m output_state \<Rightarrow> 'm output_state \<Rightarrow> stream \<Rightarrow> bool" where
  start: "out_wf o' \<Longrightarrow> stream_run o' o' (start_stream p now (out_seq o'))"
| publishing: "stream_run o0 o1 st \<Longrightarrow> out_wf o2 \<Longrightarrow> prefix (broadcast o1) (broadcast o2) \<Longrightarrow> stream_run o0 o2 st"
| iterate: "stream_run o0 o1 st \<Longrightarrow> e_replay env = ring_after o1 \<Longrightarrow>
    (\<forall>f. e_event env = Ev_frame f \<longrightarrow> f \<in> set (broadcast o1)) \<Longrightarrow>
    stream_iter env st = Some st' \<Longrightarrow> stream_run o0 o1 st'"

lemma out_wf_length: "out_wf o' \<Longrightarrow> length (broadcast o') < 2 ^ 64 \<and> unat (out_seq o') = length (broadcast o')"
  using unat_u64_lt [of "out_seq o'"] by (simp add: out_wf_def)

lemma stream_run_view:
  assumes "stream_run o0 o1 st"
  shows "out_wf o1 \<and> view_ok (broadcast o1) (unat (out_seq o0)) st \<and> unacked st < CREDIT + HEADER_LEN + MAX_PAYLOAD"
  using assms
proof (induction rule: stream_run.induct)
  case (start o' p now)
  then show ?case using out_wf_length [of o'] by (simp add: view_ok_def start_stream_def CREDIT_def)
next
  case (publishing o0 o1 st o2)
  then show ?case using view_ok_grow out_wf_length by blast
next
  case (iterate o0 o1 st env st')
  then have wf: "out_wf o1" and vw: "view_ok (broadcast o1) (unat (out_seq o0)) st" by auto
  have ev: "\<And>f. e_event env = Ev_frame f \<Longrightarrow> f \<in> set (broadcast o1)" using iterate.hyps by blast
  note step = session_log.view_iter [OF wf vw iterate.hyps(2,4) ev]
  have "is_ok (encode f) \<Longrightarrow> frame_cost f \<le> HEADER_LEN + MAX_PAYLOAD" for f
    by (auto simp: encode_def frame_cost_def split: if_splits)
  with step(1,2) wf iterate.IH show ?case by fastforce
qed

lemma send_snapshot_prefix:
  "prefix (fst (send_snapshot auth ok i fs)) fs \<and> (snd (send_snapshot auth ok i fs) \<longrightarrow> fst (send_snapshot auth ok i fs) = fs)"
  by (induction fs arbitrary: i) (auto simp: split_beta Let_def)

lemma chunks_small: "0 < n \<Longrightarrow> c \<in> set (chunks n xs) \<Longrightarrow> length c \<le> n"
proof (induction n xs rule: chunks.induct)
  case (1 n xs)
  then show ?case by (cases "xs = []") (auto simp: chunks.simps [of n xs] chunks.simps [of n "[]"])
qed

text \<open>A viewer that has joined before the first frame, and one frame published after that.\<close>

definition sample_viewer :: stream where
  "sample_viewer = start_stream one_principal 0 0"

definition sample_later :: "bytes output_state" where
  "sample_later = publish OUTPUT sample_info [0x41] (snd sample_live)"

definition sample_env :: stream_env where
  "sample_env = \<lparr>e_now = 0, e_revoked = [], e_shutdown = False, e_replay = ring_after sample_later, e_send_ok = True,
     e_event = Ev_lagged, e_redeem = (\<lambda>_. Err Internal), e_session = 5\<rparr>"

lemma sample_later_wf: "out_wf sample_later" "prefix (broadcast (snd sample_live)) (broadcast sample_later)"
    "length (broadcast sample_later) = 1" "limit (ring sample_later) = 65536"
    "event_size (last (broadcast sample_later)) \<le> 65536" "list_all encodable (broadcast sample_later)"
proof -
  have room: "out_room 1 (snd sample_live)" by (simp add: out_room_def sample_live_wf)
  note wf = out_wf_publish [OF sample_live_wf(1) room, of OUTPUT sample_info "[0x41]"]
  show "out_wf sample_later" "limit (ring sample_later) = 65536" using wf by (simp_all add: sample_later_def sample_live_wf)
qed (simp_all add: sample_later_def sample_live_wf event_size_def encodable_def codec_consts kind_ok_def OUTPUT_def)

lemma sample_run: "stream_run (snd sample_live) sample_later sample_viewer"
proof -
  have "stream_run (snd sample_live) (snd sample_live) sample_viewer"
    using stream_run.start [OF sample_live_wf(1), of one_principal 0]
    by (simp add: sample_viewer_def sample_live_def new_output_def)
  then show ?thesis by (rule stream_run.publishing [OF _ sample_later_wf(1,2)])
qed

section \<open>Properties\<close>

text \<open>C1. A viewer gets the log, whole and in order: in every run of the terminal channel, whatever frames
  the session publishes meanwhile, whatever the select delivers and whatever the peer
  acknowledges, the frames on the wire are exactly the published frames that follow the snapshot,
  without a gap or a repetition. The unacknowledged bytes are those of the sent frames after the
  last acknowledged one, and they never reach the credit plus one full frame.\<close>

theorem viewer_gets_the_log:
  assumes "stream_run o0 o1 st"
  shows "prefix (wire_log st) (drop (unat (out_seq o0)) (broadcast o1))
    \<and> run_from (Suc (unat (out_seq o0))) (wire_log st)
    \<and> unacked st = sum_list (map frame_cost (drop (unat (applied st) - unat (out_seq o0)) (wire_log st)))
    \<and> unacked st < CREDIT + HEADER_LEN + MAX_PAYLOAD"
proof -
  let ?n = "unat (out_seq o0)" and ?w = "wire_log st"
  have wf: "out_wf o1" and v: "view_ok (broadcast o1) ?n st" and u: "unacked st < CREDIT + HEADER_LEN + MAX_PAYLOAD"
    using stream_run_view [OF assms] by auto
  have w: "?w = take (length ?w) (drop ?n (broadcast o1))" using v by (simp add: view_ok_def)
  have a: "prefix ?w (drop ?n (broadcast o1))" by (subst w) (rule take_is_prefix)
  have b: "run_from (Suc ?n) ?w"
    using run_from_take [OF run_from_drop [OF session_log.numbered [OF wf], of ?n], of "length ?w"] w by simp
  have c: "unacked st = sum_list (map frame_cost (drop (unat (applied st) - ?n) ?w))"
    using v by (simp add: view_ok_def ledger_of_def o_def)
  show ?thesis using a b c u by blast
qed

theorem viewer_gets_the_log_witness:
  "prefix (wire_log sample_viewer) (drop (unat (out_seq (snd sample_live))) (broadcast sample_later))
   \<and> run_from (Suc (unat (out_seq (snd sample_live)))) (wire_log sample_viewer)
   \<and> unacked sample_viewer =
      sum_list (map frame_cost (drop (unat (applied sample_viewer) - unat (out_seq (snd sample_live))) (wire_log sample_viewer)))
   \<and> unacked sample_viewer < CREDIT + HEADER_LEN + MAX_PAYLOAD"
  by (rule viewer_gets_the_log [OF sample_run])

text \<open>The snapshot a viewer starts from is faithful: its frames all carry the session, the generation
  and the sequence number of the output state at that moment, so that the next frame of the log is
  the one that follows; the chunks concatenate to the snapshot; and every frame can be encoded when
  the description fits one frame. What is sent is an initial part of them, and all of them when the
  channel goes on to the stream.\<close>

theorem snapshot_frames_are_faithful:
  assumes "subscribe_snapshot em m o' = Ok (smeta, data)" "length meta_json \<le> MAX_PAYLOAD"
  shows "list_all (\<lambda>f. encodable f \<and> session_id f = sid \<and> generation f = si_generation m \<and> sequence f = out_seq o')
      (snapshot_frames sid smeta meta_json data)
    \<and> concat (map payload (filter (\<lambda>f. kind f = SNAPSHOT_CHUNK) (snapshot_frames sid smeta meta_json data)))
      = em_snapshot em (model o')
    \<and> kind (last (snapshot_frames sid smeta meta_json data)) = SNAPSHOT_END
    \<and> prefix (fst (send_snapshot auth ok i (snapshot_frames sid smeta meta_json data))) (snapshot_frames sid smeta meta_json data)
    \<and> (snd (send_snapshot auth ok i (snapshot_frames sid smeta meta_json data)) \<longrightarrow>
      fst (send_snapshot auth ok i (snapshot_frames sid smeta meta_json data)) = snapshot_frames sid smeta meta_json data)"
proof -
  have d: "data = em_snapshot em (model o')" "sm_generation smeta = si_generation m" "sm_sequence smeta = dec (unat (out_seq o'))"
    using assms(1) by (auto simp: subscribe_snapshot_def Let_def split: if_splits)
  have sq: "snapshot_sequence smeta = out_seq o'"
    using parse_dec [of "unat (out_seq o')" "2 ^ 64"] unat_u64_lt [of "out_seq o'"] by (simp add: snapshot_sequence_def d(3))
  have c: "c \<in> set (chunks MAX_PAYLOAD data) \<Longrightarrow> length c \<le> MAX_PAYLOAD" for c
    by (rule chunks_small) (simp add: MAX_PAYLOAD_def)
  have cc: "concat (chunks MAX_PAYLOAD data) = data" by (rule concat_chunks) (simp add: MAX_PAYLOAD_def)
  have r1: "list_all (\<lambda>f. encodable f \<and> session_id f = sid \<and> generation f = si_generation m \<and> sequence f = out_seq o')
      (snapshot_frames sid smeta meta_json data)"
    using assms(2) c by (auto simp: snapshot_frames_def Let_def list_all_iff encodable_def kind_ok_def d(2) sq
        SNAPSHOT_META_def SNAPSHOT_CHUNK_def SNAPSHOT_END_def)
  have r2: "concat (map payload (filter (\<lambda>f. kind f = SNAPSHOT_CHUNK) (snapshot_frames sid smeta meta_json data)))
      = em_snapshot em (model o')"
    using cc by (simp add: snapshot_frames_def Let_def filter_map o_def d(1) SNAPSHOT_META_def SNAPSHOT_CHUNK_def SNAPSHOT_END_def)
  have r3: "kind (last (snapshot_frames sid smeta meta_json data)) = SNAPSHOT_END" by (simp add: snapshot_frames_def Let_def)
  show ?thesis using r1 r2 r3 send_snapshot_prefix [of auth ok i "snapshot_frames sid smeta meta_json data"] by blast
qed

theorem snapshot_frames_are_faithful_witness:
  "\<exists>smeta data. subscribe_snapshot tape sample_info (snd sample_live) = Ok (smeta, data) \<and>
    list_all (\<lambda>f. encodable f \<and> session_id f = 5 \<and> generation f = si_generation sample_info \<and> sequence f = out_seq (snd sample_live))
      (snapshot_frames 5 smeta [0x7B, 0x7D] data)
    \<and> concat (map payload (filter (\<lambda>f. kind f = SNAPSHOT_CHUNK) (snapshot_frames 5 smeta [0x7B, 0x7D] data)))
      = em_snapshot tape (model (snd sample_live))
    \<and> kind (last (snapshot_frames 5 smeta [0x7B, 0x7D] data)) = SNAPSHOT_END
    \<and> prefix (fst (send_snapshot (\<lambda>_. True) (\<lambda>_. True) 0 (snapshot_frames 5 smeta [0x7B, 0x7D] data)))
        (snapshot_frames 5 smeta [0x7B, 0x7D] data)"
proof -
  obtain smeta data where s: "subscribe_snapshot tape sample_info (snd sample_live) = Ok (smeta, data)"
    by (simp add: subscribe_snapshot_def tape_def sample_live_def new_output_def Let_def)
  have "length ([0x7B, 0x7D] :: bytes) \<le> MAX_PAYLOAD" by (simp add: MAX_PAYLOAD_def)
  from s snapshot_frames_are_faithful [OF s this, where sid = 5 and auth = "\<lambda>_. True" and ok = "\<lambda>_. True" and i = 0]
  show ?thesis by blast
qed

text \<open>C16. A viewer with credit catches up: when the ring still holds what follows the last frame sent, the
  viewer is authorised, the socket accepts and the outstanding bytes fit the credit, then as many
  iterations as there are frames left put every one of them on the wire, and none of these
  iterations leaves the loop.\<close>

theorem viewer_catches_up:
  assumes "stream_run o0 o1 st" "stream_free env st" "e_replay env = ring_after o1"
    and "broadcast o1 \<noteq> []" "event_size (last (broadcast o1)) \<le> limit (ring o1)"
    and "length (broadcast o1) - length (events (ring o1)) \<le> unat (sent st)"
    and "list_all encodable (drop (unat (sent st)) (broadcast o1))"
    and "unacked st + sum_list (map frame_cost (drop (unat (sent st)) (broadcast o1))) < CREDIT"
  shows "\<exists>st'. stream_iters env (length (broadcast o1) - unat (sent st)) st = Some st'
    \<and> wire_log st' = drop (unat (out_seq o0)) (broadcast o1)"
proof -
  have wf: "out_wf o1" and v: "view_ok (broadcast o1) (unat (out_seq o0)) st" using stream_run_view [OF assms(1)] by auto
  have "replays_from (broadcast o1) (unat (sent st)) (e_replay env)"
    unfolding replays_from_def assms(3)
    using ring_after_refines_broadcast [OF wf assms(4,5)] assms(6) by simp
  from session_log.stream_iters_catch_up [OF wf v this assms(2) _ assms(7) refl] assms(8)
  obtain st' where st': "stream_iters env (length (broadcast o1) - unat (sent st)) st = Some st'"
    "view_ok (broadcast o1) (unat (out_seq o0)) st'" "unat (sent st') = length (broadcast o1)" by auto
  let ?w = "wire_log st'"
  have "?w = take (length ?w) (drop (unat (out_seq o0)) (broadcast o1))"
    "length (broadcast o1) = unat (out_seq o0) + length ?w" using st'(2,3) by (simp_all add: view_ok_def)
  then have "?w = drop (unat (out_seq o0)) (broadcast o1)" by (metis add_diff_cancel_left' length_drop take_all order_refl)
  with st'(1) show ?thesis by blast
qed

theorem viewer_catches_up_witness:
  "\<exists>st'. stream_iters sample_env (length (broadcast sample_later) - unat (sent sample_viewer)) sample_viewer = Some st'
    \<and> wire_log st' = drop (unat (out_seq (snd sample_live))) (broadcast sample_later)"
proof (rule viewer_catches_up [OF sample_run])
  show "stream_free sample_env sample_viewer"
    by (simp add: stream_free_def sample_env_def sample_viewer_def start_stream_def require_def one_principal_def
        owner_scopes_def secs_def)
  show "broadcast sample_later \<noteq> []" using sample_later_wf(3) by auto
  have "sent sample_viewer = 0" "unacked sample_viewer = 0" by (simp_all add: sample_viewer_def start_stream_def)
  with sample_later_wf show "list_all encodable (drop (unat (sent sample_viewer)) (broadcast sample_later))" 
    "event_size (last (broadcast sample_later)) \<le> limit (ring sample_later)" by simp_all
  show "length (broadcast sample_later) - length (events (ring sample_later)) \<le> unat (sent sample_viewer)"
    by (simp add: sample_later_def publish_def sample_live_def new_output_def push_def new_def split_beta
        evict.simps event_size_def)
  show "unacked sample_viewer + sum_list (map frame_cost (drop (unat (sent sample_viewer)) (broadcast sample_later))) < CREDIT"
    by (simp add: sample_later_def sample_live_wf sample_viewer_def start_stream_def frame_cost_def CREDIT_def HEADER_LEN_def)
qed (simp add: sample_env_def)

end
