(* ===== verification/Float64.thy ===== *)
theory Float64
  imports Complex_Main "HOL-Library.Log_Nat"
begin

text \<open>
  The floating-point type \<open>f64\<close> of the language: IEEE 754 binary64 with rounding to the nearest
  value, ties to the even significand. A finite value is its rational; both zeros are the
  rational zero, since no code divides by a value that may be a negative zero.
\<close>

section \<open>Rounding\<close>

datatype f64 = Fin rat | FInf bool | FNaN

text \<open>The exponent of a non-zero value: the greatest \<open>e\<close> with \<open>2 ^ e \<le> |q|\<close>.\<close>

definition exp2_of :: "rat \<Rightarrow> int" where
  "exp2_of q =
     (let (n, d) = quotient_of q; k = bitlen \<bar>n\<bar> - bitlen d
      in if 2 powi k \<le> \<bar>q\<bar> then k else k - 1)"

text \<open>The exponent of the last place: 53 bits of significand, and not below the subnormal range.\<close>

definition ulp_exp :: "rat \<Rightarrow> int" where
  "ulp_exp q = (if q = 0 then -1074 else max (-1074) (exp2_of q - 52))"

definition ulp :: "rat \<Rightarrow> rat" where
  "ulp q = 2 powi (ulp_exp q)"

definition round_even :: "rat \<Rightarrow> int" where
  "round_even x =
     (let f = \<lfloor>x\<rfloor>; d = x - of_int f in
      if d < 1 / 2 then f else if d > 1 / 2 then f + 1 else if even f then f else f + 1)"

definition rne :: "rat \<Rightarrow> rat" where
  "rne q = of_int (round_even (q / ulp q)) * ulp q"

definition f64_of :: "rat \<Rightarrow> f64" where
  "f64_of q = (if \<bar>rne q\<bar> \<ge> 2 ^ 1024 then FInf (q < 0) else Fin (rne q))"

section \<open>Operations\<close>

fun is_finite :: "f64 \<Rightarrow> bool" where
  "is_finite (Fin _) = True"
| "is_finite _ = False"

fun fmul :: "f64 \<Rightarrow> f64 \<Rightarrow> f64" where
  "fmul (Fin a) (Fin b) = f64_of (a * b)"
| "fmul (FInf s) (Fin b) = (if b = 0 then FNaN else FInf (s \<noteq> (b < 0)))"
| "fmul (Fin a) (FInf s) = (if a = 0 then FNaN else FInf (s \<noteq> (a < 0)))"
| "fmul (FInf s) (FInf t) = FInf (s \<noteq> t)"
| "fmul FNaN _ = FNaN"
| "fmul _ FNaN = FNaN"

fun fdiv :: "f64 \<Rightarrow> f64 \<Rightarrow> f64" where
  "fdiv (Fin a) (Fin b) = (if b = 0 then (if a = 0 then FNaN else FInf (a < 0)) else f64_of (a / b))"
| "fdiv (FInf s) (Fin b) = FInf (s \<noteq> (b < 0))"
| "fdiv (Fin a) (FInf s) = Fin 0"
| "fdiv (FInf s) (FInf t) = FNaN"
| "fdiv FNaN _ = FNaN"
| "fdiv _ FNaN = FNaN"

fun fsub :: "f64 \<Rightarrow> f64 \<Rightarrow> f64" where
  "fsub (Fin a) (Fin b) = f64_of (a - b)"
| "fsub (FInf s) (Fin b) = FInf s"
| "fsub (Fin a) (FInf s) = FInf (\<not> s)"
| "fsub (FInf s) (FInf t) = (if s = t then FNaN else FInf s)"
| "fsub FNaN _ = FNaN"
| "fsub _ FNaN = FNaN"

text \<open>The comparison \<open><=\<close>; it is false for a NaN.\<close>

fun fle :: "f64 \<Rightarrow> f64 \<Rightarrow> bool" where
  "fle (Fin a) (Fin b) \<longleftrightarrow> a \<le> b"
| "fle (FInf s) (Fin b) \<longleftrightarrow> s"
| "fle (Fin a) (FInf s) \<longleftrightarrow> \<not> s"
| "fle (FInf s) (FInf t) \<longleftrightarrow> s \<or> \<not> t"
| "fle FNaN _ \<longleftrightarrow> False"
| "fle _ FNaN \<longleftrightarrow> False"

text \<open>\<open>f64::min\<close>: a NaN gives the other operand.\<close>

definition fmin :: "f64 \<Rightarrow> f64 \<Rightarrow> f64" where
  "fmin a b = (if a = FNaN then b else if b = FNaN then a else if fle a b then a else b)"

text \<open>\<open>(0.0..=1.0).contains(&x)\<close>.\<close>

definition unit_interval :: "f64 \<Rightarrow> bool" where
  "unit_interval x \<longleftrightarrow> fle (Fin 0) x \<and> fle x (Fin 1)"

text \<open>\<open>f64::round\<close>: to the nearest integer, ties away from zero.\<close>

fun fround :: "f64 \<Rightarrow> f64" where
  "fround (Fin q) = Fin (of_int (if q < 0 then - \<lfloor>1 / 2 - q\<rfloor> else \<lfloor>q + 1 / 2\<rfloor>))"
| "fround x = x"

text \<open>\<open>as\<close> casts to an integer type with the given bounds: towards zero, saturating, zero for a NaN.\<close>

fun as_int :: "int \<Rightarrow> int \<Rightarrow> f64 \<Rightarrow> int" where
  "as_int lo hi (Fin q) = (let n = (if q < 0 then - \<lfloor>- q\<rfloor> else \<lfloor>q\<rfloor>) in if n < lo then lo else if n > hi then hi else n)"
| "as_int lo hi (FInf s) = (if s then lo else hi)"
| "as_int lo hi FNaN = 0"

section \<open>Lemmas: the rounding\<close>

lemma powi_mono: "e \<le> f \<Longrightarrow> (2::rat) powi e \<le> 2 powi f"
  by (rule power_int_increasing) auto

lemma powi_pos [simp]: "0 < (2::rat) powi e"
  by (simp add: zero_less_power_int)

lemma powi_Suc: "(2::rat) powi (e + 1) = 2 * 2 powi e"
  by (simp add: power_int_add)

lemma bitlen_rat:
  assumes "0 < n"
  shows "2 powi (bitlen n - 1) \<le> (of_int n :: rat) \<and> of_int n < (2::rat) powi (bitlen n)"
proof -
  have b: "2 ^ nat (bitlen n - 1) \<le> n" "n < 2 ^ nat (bitlen n)" using bitlen_bounds [OF assms] by auto
  have pos: "1 \<le> bitlen n" using assms bitlen_eq_zero_iff [of n] bitlen_nonneg [of n] by linarith
  have "(of_int (2 ^ nat (bitlen n - 1)) :: rat) \<le> of_int n" "(of_int n :: rat) < of_int (2 ^ nat (bitlen n))"
    using b by (simp_all only: of_int_le_iff of_int_less_iff)
  then show ?thesis using pos by (simp add: power_int_def)
qed

lemma exp2_of_bounds:
  assumes "q \<noteq> 0"
  shows "2 powi (exp2_of q) \<le> \<bar>q\<bar> \<and> \<bar>q\<bar> < 2 powi (exp2_of q + 1)"
proof -
  obtain n d where nd: "quotient_of q = (n, d)" by (cases "quotient_of q")
  have d: "0 < d" using quotient_of_denom_pos [OF nd] .
  have q: "q = of_int n / of_int d" using quotient_of_div [OF nd] .
  have n: "0 < \<bar>n\<bar>" using q assms by auto
  have aq: "\<bar>q\<bar> = of_int \<bar>n\<bar> / of_int d" using d by (simp add: q abs_divide)
  let ?k = "bitlen \<bar>n\<bar> - bitlen d"
  note bn = bitlen_rat [OF n] and bd = bitlen_rat [OF d]
  have dp: "(0::rat) < of_int d" using d by simp
  have up: "\<bar>q\<bar> < 2 powi (?k + 1)"
  proof -
    have "(of_int \<bar>n\<bar> :: rat) < 2 powi (bitlen \<bar>n\<bar>)" using bn by simp
    also have "\<dots> = 2 powi (?k + 1) * 2 powi (bitlen d - 1)" by (simp flip: power_int_add)
    also have "\<dots> \<le> 2 powi (?k + 1) * of_int d" using bd by (intro mult_left_mono) auto
    finally show ?thesis unfolding aq using dp by (simp add: divide_less_eq)
  qed
  have lo: "2 powi (?k - 1) \<le> \<bar>q\<bar>"
  proof -
    have "(2::rat) powi (?k - 1) * of_int d \<le> 2 powi (?k - 1) * 2 powi (bitlen d)"
      using bd by (intro mult_left_mono) (auto simp: less_imp_le)
    also have "\<dots> = 2 powi (bitlen \<bar>n\<bar> - 1)" by (simp flip: power_int_add)
    also have "\<dots> \<le> (of_int \<bar>n\<bar> :: rat)" using bn by simp
    finally show ?thesis unfolding aq using dp by (simp add: le_divide_eq)
  qed
  show ?thesis using up lo by (auto simp: exp2_of_def nd Let_def not_le)
qed

lemma round_even_cases:
  obtains "round_even x = \<lfloor>x\<rfloor>" "x - of_int \<lfloor>x\<rfloor> \<le> 1 / 2"
  | "round_even x = \<lfloor>x\<rfloor> + 1" "x - of_int \<lfloor>x\<rfloor> \<ge> 1 / 2"
proof -
  have "round_even x = \<lfloor>x\<rfloor> \<and> x - of_int \<lfloor>x\<rfloor> \<le> 1 / 2 \<or> round_even x = \<lfloor>x\<rfloor> + 1 \<and> x - of_int \<lfloor>x\<rfloor> \<ge> 1 / 2"
    unfolding round_even_def Let_def by (simp add: not_less)
  then show thesis using that by blast
qed

lemma round_even_int [simp]: "round_even (of_int n) = n"
  by (simp add: round_even_def)

lemma round_even_error: "\<bar>of_int (round_even x) - x\<bar> \<le> 1 / 2"
  using floor_correct [of x] by (cases rule: round_even_cases [of x]) auto

lemma round_even_mono:
  assumes "x \<le> y"
  shows "round_even x \<le> round_even y"
proof (cases "\<lfloor>x\<rfloor> = \<lfloor>y\<rfloor>")
  case True
  with assms show ?thesis by (auto simp: round_even_def Let_def)
next
  case False
  with floor_mono [OF assms] have "\<lfloor>x\<rfloor> + 1 \<le> \<lfloor>y\<rfloor>" by linarith
  moreover have "round_even x \<le> \<lfloor>x\<rfloor> + 1" "\<lfloor>y\<rfloor> \<le> round_even y"
    by (cases rule: round_even_cases [of x]; simp) (cases rule: round_even_cases [of y]; simp)
  ultimately show ?thesis by linarith
qed

lemma round_even_minus: "round_even (- x) = - round_even x"
proof (cases "x = of_int \<lfloor>x\<rfloor>")
  case True
  have "round_even (- of_int \<lfloor>x\<rfloor> :: rat) = - \<lfloor>x\<rfloor>" using round_even_int [of "- \<lfloor>x\<rfloor>"] by simp
  moreover have "round_even (of_int \<lfloor>x\<rfloor> :: rat) = \<lfloor>x\<rfloor>" by simp
  ultimately show ?thesis using True by metis
next
  case False
  then have "of_int \<lfloor>x\<rfloor> < x" "x < of_int \<lfloor>x\<rfloor> + 1" using floor_correct [of x] by linarith+
  then have f: "\<lfloor>- x\<rfloor> = - \<lfloor>x\<rfloor> - 1" by (intro floor_unique) auto
  show ?thesis unfolding round_even_def Let_def f by auto
qed

lemma ulp_pos [simp]: "0 < ulp q" "ulp q \<noteq> 0" "0 \<le> ulp q"
  by (simp_all add: ulp_def)

lemma exp2_of_minus [simp]: "exp2_of (- q) = exp2_of q"
  by (simp add: exp2_of_def rat_uminus_code split_beta Let_def)

lemma ulp_minus [simp]: "ulp (- q) = ulp q"
  by (simp add: ulp_def ulp_exp_def)

lemma rne_minus: "rne (- q) = - rne q"
  by (simp add: rne_def round_even_minus)

lemma rne_0 [simp]: "rne 0 = 0"
  using round_even_int [of 0] by (simp add: rne_def)

lemma rne_nonneg: "0 \<le> q \<Longrightarrow> 0 \<le> rne q"
  using round_even_mono [of 0 "q / ulp q"] round_even_int [of 0] by (simp add: rne_def)

lemma rne_error: "\<bar>rne q - q\<bar> \<le> ulp q / 2"
proof -
  have "rne q - q = (of_int (round_even (q / ulp q)) - q / ulp q) * ulp q"
    by (simp add: rne_def field_simps)
  then have "\<bar>rne q - q\<bar> = \<bar>of_int (round_even (q / ulp q)) - q / ulp q\<bar> * ulp q"
    by (simp add: abs_mult)
  also have "\<dots> \<le> 1 / 2 * ulp q" by (rule mult_right_mono [OF round_even_error]) (simp add: less_imp_le)
  finally show ?thesis by simp
qed

text \<open>A multiple of the last place is kept.\<close>

lemma rne_multiple: "q = of_int n * ulp q \<Longrightarrow> rne q = q"
  unfolding rne_def by (metis ulp_pos(2) nonzero_mult_div_cancel_right round_even_int)

text \<open>Powers of two bound the rounding from both sides.\<close>

lemma rne_le_pow:
  assumes "q \<le> 2 powi e" "ulp_exp q \<le> e"
  shows "rne q \<le> 2 powi e"
proof -
  define n where "n = (2::int) ^ nat (e - ulp_exp q)"
  have n: "(of_int n :: rat) * ulp q = 2 powi e"
    using assms(2) by (simp add: n_def ulp_def power_int_def [of _ "e - ulp_exp q", symmetric] flip: power_int_add)
      (simp add: power_int_def [symmetric] flip: power_int_add power_int_of_nat)
  then have "q / ulp q \<le> of_int n" using assms(1) by (simp add: divide_le_eq)
  from round_even_mono [OF this] have "(of_int (round_even (q / ulp q)) :: rat) \<le> of_int n" by simp
  then have "rne q \<le> of_int n * ulp q" unfolding rne_def by (rule mult_right_mono) (simp add: less_imp_le)
  then show ?thesis by (simp add: n)
qed

lemma rne_ge_pow:
  assumes "2 powi e \<le> q" "ulp_exp q \<le> e"
  shows "2 powi e \<le> rne q"
proof -
  define n where "n = (2::int) ^ nat (e - ulp_exp q)"
  have n: "(of_int n :: rat) * ulp q = 2 powi e"
    using assms(2) by (simp add: n_def ulp_def power_int_def [of _ "e - ulp_exp q", symmetric] flip: power_int_add)
      (simp add: power_int_def [symmetric] flip: power_int_add power_int_of_nat)
  then have "of_int n \<le> q / ulp q" using assms(1) by (simp add: le_divide_eq)
  from round_even_mono [OF this] have "(of_int n :: rat) \<le> of_int (round_even (q / ulp q))" by simp
  then have "of_int n * ulp q \<le> rne q" unfolding rne_def by (rule mult_right_mono) (simp add: less_imp_le)
  then show ?thesis by (simp add: n)
qed

lemma exp2_of_mono:
  assumes "0 < q" "q \<le> r"
  shows "exp2_of q \<le> exp2_of r"
proof (rule ccontr)
  assume "\<not> exp2_of q \<le> exp2_of r"
  then have "(2::rat) powi (exp2_of r + 1) \<le> 2 powi (exp2_of q)" by (intro powi_mono) simp
  with exp2_of_bounds [of q] exp2_of_bounds [of r] assms show False by force
qed

lemma rne_mono_pos:
  assumes "0 < q" "q \<le> r"
  shows "rne q \<le> rne r"
proof (cases "ulp_exp q = ulp_exp r")
  case True
  then have u: "ulp q = ulp r" by (simp add: ulp_def)
  have "round_even (q / ulp r) \<le> round_even (r / ulp r)"
    by (rule round_even_mono) (simp add: divide_right_mono assms(2))
  then have "(of_int (round_even (q / ulp r)) :: rat) \<le> of_int (round_even (r / ulp r))" by simp
  then show ?thesis unfolding rne_def u by (rule mult_right_mono) simp
next
  case False
  have r: "0 < r" using assms by linarith
  from exp2_of_mono [OF assms] False assms(1) r
  have lt: "exp2_of q < exp2_of r" and ur: "ulp_exp r = exp2_of r - 52" "ulp_exp q < ulp_exp r"
    by (auto simp: ulp_exp_def max_def split: if_splits)
  have "q < 2 powi (exp2_of q + 1)" using exp2_of_bounds [of q] assms(1) by simp
  also have "\<dots> \<le> 2 powi (exp2_of r)" using lt by (intro powi_mono) simp
  finally have "rne q \<le> 2 powi (exp2_of r)" using ur by (intro rne_le_pow) auto
  also have "\<dots> \<le> rne r" using exp2_of_bounds [of r] r ur by (intro rne_ge_pow) auto
  finally show ?thesis .
qed

lemma rne_mono:
  assumes "q \<le> r"
  shows "rne q \<le> rne r"
proof -
  consider "0 < q" | "q \<le> 0" "0 \<le> r" | "r < 0" by linarith
  then show ?thesis
  proof cases
    case 1
    then show ?thesis using assms by (rule rne_mono_pos)
  next
    case 2
    then show ?thesis using rne_nonneg [of r] rne_nonneg [of "- q"] by (simp add: rne_minus)
  next
    case 3
    then show ?thesis using rne_mono_pos [of "- r" "- q"] assms by (simp add: rne_minus)
  qed
qed

text \<open>Integers and half integers of moderate size are represented exactly.\<close>

lemma rne_exact:
  assumes "ulp_exp q \<le> e" "q = of_int n * 2 powi e"
  shows "rne q = q"
proof (rule rne_multiple)
  have "(2::rat) powi e = of_int (2 ^ nat (e - ulp_exp q)) * ulp q"
    using assms(1) by (simp add: ulp_def power_int_def [of _ "e - ulp_exp q", symmetric] flip: power_int_add)
      (simp add: power_int_def [symmetric] flip: power_int_add power_int_of_nat)
  then show "q = of_int (n * 2 ^ nat (e - ulp_exp q)) * ulp q" using assms(2) by simp
qed

lemma ulp_exp_le:
  assumes "\<bar>q\<bar> < 2 powi (e + 53)" "-1074 \<le> e"
  shows "ulp_exp q \<le> e"
proof (cases "q = 0")
  case False
  have "exp2_of q < e + 53"
  proof (rule ccontr)
    assume "\<not> exp2_of q < e + 53"
    then have "(2::rat) powi (e + 53) \<le> 2 powi (exp2_of q)" by (intro powi_mono) simp
    with exp2_of_bounds [OF False] assms(1) show False by linarith
  qed
  with assms(2) False show ?thesis by (simp add: ulp_exp_def)
qed (use assms(2) in \<open>simp add: ulp_exp_def\<close>)

lemma rne_int: "\<bar>n\<bar> < 2 ^ 53 \<Longrightarrow> rne (of_int n) = of_int n"
proof -
  assume n: "\<bar>n\<bar> < 2 ^ 53"
  have "\<bar>of_int n :: rat\<bar> = of_int \<bar>n\<bar>" by simp
  also have "\<dots> < of_int (2 ^ 53)" using n by (simp only: of_int_less_iff)
  finally have "ulp_exp (of_int n) \<le> 0" by (intro ulp_exp_le) (simp_all add: power_int_def)
  from rne_exact [OF this, of n] show ?thesis by simp
qed

lemma rne_half: "\<bar>n\<bar> < 2 ^ 52 \<Longrightarrow> rne (of_int n / 2) = of_int n / 2"
proof -
  assume n: "\<bar>n\<bar> < 2 ^ 52"
  have p: "(2::rat) powi (- 1) = 1 / 2" "(2::rat) powi (- 1 + 53) = 2 ^ 52" by (simp_all add: power_int_def)
  have "(of_int \<bar>n\<bar> :: rat) < of_int (2 ^ 52)" using n by (simp only: of_int_less_iff)
  then have "\<bar>of_int n / 2 :: rat\<bar> < 2 powi (- 1 + 53)" unfolding p by simp
  then have "ulp_exp (of_int n / 2) \<le> -1" by (rule ulp_exp_le) simp
  from rne_exact [OF this, of n] show ?thesis unfolding p by (metis mult.right_neutral times_divide_eq_right)
qed

text \<open>The relative error of a normal value.\<close>

lemma rne_relative:
  assumes "2 powi (-1022) \<le> q"
  shows "\<bar>rne q - q\<bar> \<le> q * 2 powi (-53)"
proof -
  have pos: "0 < q" using assms powi_pos [of "-1022"] by linarith
  then have b: "2 powi (exp2_of q) \<le> q" "q < 2 powi (exp2_of q + 1)" using exp2_of_bounds [of q] by simp_all
  have e: "-1022 \<le> exp2_of q"
  proof (rule ccontr)
    assume "\<not> -1022 \<le> exp2_of q"
    then have "(2::rat) powi (exp2_of q + 1) \<le> 2 powi (-1022)" by (intro powi_mono) simp
    with b assms show False by linarith
  qed
  then have "ulp q / 2 = 2 powi (exp2_of q) * 2 powi (-53)"
    using pos by (simp add: ulp_def ulp_exp_def max_def power_int_diff power_int_minus)
  also have "\<dots> \<le> q * 2 powi (-53)" using b(1) by (intro mult_right_mono) (simp_all add: less_imp_le)
  finally show ?thesis using rne_error [of q] by linarith
qed

text \<open>Values between zero and a moderate integer stay there, and their integer parts too.\<close>

lemma f64_of_between:
  assumes "0 \<le> q" "q \<le> of_int n" "n < 2 ^ 53"
  shows "f64_of q = Fin (rne q)" "0 \<le> rne q" "rne q \<le> of_int n"
proof -
  have n: "0 \<le> n" using assms(1,2) by (metis of_int_0_le_iff order_trans)
  show lo: "0 \<le> rne q" by (rule rne_nonneg [OF assms(1)])
  show hi: "rne q \<le> of_int n" using rne_mono [OF assms(2)] rne_int [of n] n assms(3) by simp
  have "(of_int n :: rat) < of_int (2 ^ 53)" using assms(3) by (simp only: of_int_less_iff)
  also have "\<dots> \<le> 2 ^ 1024" by simp
  finally show "f64_of q = Fin (rne q)" using lo hi by (simp add: f64_of_def)
qed

lemma fround_between:
  assumes "0 \<le> q" "q \<le> of_int n"
  shows "\<exists>m. fround (Fin q) = Fin (of_int m) \<and> 0 \<le> m \<and> m \<le> n"
proof -
  have "0 \<le> \<lfloor>q + 1 / 2\<rfloor>" using assms(1) by (simp add: zero_le_floor)
  moreover have "\<lfloor>q + 1 / 2\<rfloor> \<le> n" using assms(2) by (simp add: floor_le_iff)
  ultimately show ?thesis using assms(1) by auto
qed

lemma as_int_exact: "lo \<le> m \<Longrightarrow> m \<le> hi \<Longrightarrow> as_int lo hi (Fin (of_int m)) = m"
  by (auto simp: Let_def)

end
