(* ===== verification/Geometry.thy ===== *)
theory Geometry
  imports Prelude Float64
begin

text \<open>
  The pointer geometry of \<open>rc-core/src/geometry.rs\<close>: from a normalized point of the picture to a
  pixel of the source and to the absolute coordinates of the input API, and from a letterboxed
  view to a normalized point. Coordinates are 32-bit signed integers, sums are taken in 64 bits.
\<close>

section \<open>Model\<close>

type_synonym i32 = "32 word"

record rect =
  r_left :: i32
  r_top :: i32
  r_width :: u32
  r_height :: u32

definition rect_valid :: "rect \<Rightarrow> bool" where
  "rect_valid r \<longleftrightarrow> r_width r > 0 \<and> r_height r > 0 \<and> r_width r \<le> 32768 \<and> r_height r \<le> 32768"

definition i32_try_from :: "int \<Rightarrow> i32 option" where
  "i32_try_from n = (if - (2 ^ 31) \<le> n \<and> n < 2 ^ 31 then Some (word_of_int n) else None)"

definition f64_from :: "u32 \<Rightarrow> f64" where
  "f64_from n = Fin (of_int (uint n))"

definition as_i64 :: "f64 \<Rightarrow> int" where
  "as_i64 = as_int (- (2 ^ 63)) (2 ^ 63 - 1)"

definition as_i32 :: "f64 \<Rightarrow> int" where
  "as_i32 = as_int (- (2 ^ 31)) (2 ^ 31 - 1)"

definition rect_map :: "rect \<Rightarrow> f64 \<Rightarrow> f64 \<Rightarrow> (i32 \<times> i32) result" where
  "rect_map r x y =
     (if \<not> rect_valid r \<or> \<not> is_finite x \<or> \<not> is_finite y \<or> \<not> unit_interval x \<or> \<not> unit_interval y
      then Err InvalidRequest
      else (let px = sint (r_left r) + as_i64 (fround (fmul x (f64_from (r_width r - 1))));
                py = sint (r_top r) + as_i64 (fround (fmul y (f64_from (r_height r - 1))))
            in case i32_try_from px of None \<Rightarrow> Err InvalidRequest
               | Some ix \<Rightarrow> (case i32_try_from py of None \<Rightarrow> Err InvalidRequest | Some iy \<Rightarrow> Ok (ix, iy))))"

definition absolute_axis :: "int \<Rightarrow> u32 \<Rightarrow> int" where
  "absolute_axis d w = as_i32 (fround (fdiv (fmul (Fin (of_int d)) (Fin 65535)) (f64_from (w - 1))))"

definition rect_absolute :: "rect \<Rightarrow> i32 \<Rightarrow> i32 \<Rightarrow> (int \<times> int) result" where
  "rect_absolute r x y =
     (if \<not> rect_valid r \<or> r_width r < 2 \<or> r_height r < 2 then Err InvalidRequest
      else (let dx = sint x - sint (r_left r); dy = sint y - sint (r_top r)
            in if dx < 0 \<or> dy < 0 \<or> dx \<ge> uint (r_width r) \<or> dy \<ge> uint (r_height r) then Err InvalidRequest
               else Ok (absolute_axis dx (r_width r), absolute_axis dy (r_height r))))"

definition unletterbox :: "f64 \<Rightarrow> f64 \<Rightarrow> f64 \<Rightarrow> f64 \<Rightarrow> f64 \<Rightarrow> f64 \<Rightarrow> (f64 \<times> f64) option" where
  "unletterbox x y view_w view_h source_w source_h =
     (if \<not> list_all is_finite [x, y, view_w, view_h, source_w, source_h]
         \<or> fle view_w (Fin 0) \<or> fle view_h (Fin 0) \<or> fle source_w (Fin 0) \<or> fle source_h (Fin 0) then None
      else (let sc = fmin (fdiv view_w source_w) (fdiv view_h source_h);
                w = fmul source_w sc; h = fmul source_h sc;
                px = fdiv (fsub x (fdiv (fsub view_w w) (Fin 2))) w;
                py = fdiv (fsub y (fdiv (fsub view_h h) (Fin 2))) h
            in if \<not> unit_interval px \<or> \<not> unit_interval py then None else Some (px, py)))"

section \<open>Lemmas\<close>

lemma unit_interval_Fin: "is_finite x \<Longrightarrow> unit_interval x \<Longrightarrow> \<exists>q. x = Fin q \<and> 0 \<le> q \<and> q \<le> 1"
  by (cases x) (auto simp: unit_interval_def)

lemma i32_try_from_Some:
  "i32_try_from n = Some w \<longleftrightarrow> - (2 ^ 31) \<le> n \<and> n < 2 ^ 31 \<and> w = word_of_int n"
  by (auto simp: i32_try_from_def)

lemma sint_word_of_int: "- (2 ^ 31) \<le> n \<Longrightarrow> n < 2 ^ 31 \<Longrightarrow> sint (word_of_int n :: i32) = n"
  by (simp add: sint_sbintrunc' signed_take_bit_int_eq_self)

lemma rect_dim: "0 < (w::u32) \<Longrightarrow> w \<le> 32768 \<Longrightarrow> uint (w - 1) = uint w - 1 \<and> 0 < uint w \<and> uint w \<le> 32768"
  by (simp add: word_less_def word_le_def uint_sub_if' )

lemma i32_try_from_sint: "i32_try_from n = Some w \<Longrightarrow> sint w = n"
  using sint_word_of_int [of n] unfolding i32_try_from_Some by blast

text \<open>One axis of \<open>map\<close>: the offset lies on the source.\<close>

lemma map_axis:
  assumes "0 \<le> q" "q \<le> 1" "0 < (w::u32)" "w \<le> 32768"
  shows "0 \<le> as_i64 (fround (fmul (Fin q) (f64_from (w - 1)))) \<and> as_i64 (fround (fmul (Fin q) (f64_from (w - 1)))) < uint w"
proof -
  obtain n where w: "uint (w - 1) = n" "uint w = n + 1" "0 \<le> n" "n < 32768"
    using rect_dim [OF assms(3,4)] that [of "uint w - 1"] by simp
  have q: "0 \<le> q * of_int n" "q * of_int n \<le> of_int n"
    using assms(1,2) w(3) mult_right_mono [of q 1 "of_int n"] by simp_all
  have lim: "n < 2 ^ 53" using w by simp
  note b = f64_of_between [OF q lim]
  from fround_between [OF b(2,3)] obtain m where m: "fround (Fin (rne (q * of_int n))) = Fin (of_int m)" "0 \<le> m" "m \<le> n"
    by blast
  have "as_i64 (Fin (of_int m)) = m" unfolding as_i64_def using m w by (intro as_int_exact) simp_all
  then show ?thesis using m b(1) w(2) by (simp add: f64_from_def w(1) del: fround.simps of_int_uint)
qed

text \<open>One axis of \<open>absolute\<close>: the coordinate lies in the range of the input API, and is its end at the ends.\<close>

lemma absolute_axis_bounds:
  assumes "2 \<le> (w::u32)" "w \<le> 32768" "0 \<le> d" "d < uint w"
  shows "0 \<le> absolute_axis d w \<and> absolute_axis d w \<le> 65535"
proof -
  have pos: "0 < w" using assms(1) by (simp add: word_less_def word_le_def)
  obtain n where w: "uint (w - 1) = n" "uint w = n + 1" "0 \<le> n" "n < 32768"
    using rect_dim [OF pos assms(2)] that [of "uint w - 1"] by simp
  have n1: "1 \<le> n" using assms(1) w(2) by (simp add: word_le_def)
  have d: "d \<le> n" using assms(4) w(2) by simp
  have dl: "\<bar>d * 65535\<bar> < 2 ^ 53" using assms(3) d w(4) by (simp add: abs_mult)
  have prod: "fmul (Fin (of_int d)) (Fin 65535) = Fin (of_int (d * 65535))"
  proof -
    have "f64_of (of_int (d * 65535)) = Fin (rne (of_int (d * 65535)))"
      by (rule f64_of_between [where n = "d * 65535"]) (use assms(3) dl in simp_all)
    with rne_int [OF dl] show ?thesis by simp
  qed
  have np: "(0::rat) < of_int n" using n1 by simp
  have q: "0 \<le> (of_int (d * 65535) / of_int n :: rat)" "of_int (d * 65535) / of_int n \<le> (of_int 65535 :: rat)"
    using np assms(3) d by (simp_all add: divide_le_eq)
  note b = f64_of_between [OF q]
  have qv: "fdiv (Fin (of_int (d * 65535))) (f64_from (w - 1)) = Fin (rne (of_int (d * 65535) / of_int n))"
    using b(1) n1 by (simp add: f64_from_def w(1) del: of_int_uint)
  from fround_between [OF b(2,3)] obtain m where
    m: "fround (Fin (rne (of_int (d * 65535) / of_int n))) = Fin (of_int m)" "0 \<le> m" "m \<le> 65535" by auto
  have "as_i32 (Fin (of_int m)) = m" unfolding as_i32_def using m by (intro as_int_exact) simp_all
  then have "absolute_axis d w = m" unfolding absolute_axis_def prod qv m(1) .
  with m show ?thesis by simp
qed

lemma rect_map_Ok:
  assumes "rect_map r x y = Ok (px, py)"
  shows "rect_valid r" "sint (r_left r) \<le> sint px" "sint px < sint (r_left r) + uint (r_width r)"
    "sint (r_top r) \<le> sint py" "sint py < sint (r_top r) + uint (r_height r)"
proof -
  have v: "rect_valid r" and f: "is_finite x" "unit_interval x" "is_finite y" "unit_interval y"
    using assms unfolding rect_map_def by (metis Inl_Inr_False)+
  from unit_interval_Fin [OF f(1,2)] unit_interval_Fin [OF f(3,4)] obtain p q where
    pq: "x = Fin p" "0 \<le> p" "p \<le> 1" "y = Fin q" "0 \<le> q" "q \<le> 1" by blast
  show "rect_valid r" by (rule v)
  have w: "0 < r_width r" "r_width r \<le> 32768" "0 < r_height r" "r_height r \<le> 32768" using v by (auto simp: rect_valid_def)
  note X = map_axis [OF pq(2,3) w(1,2)] and Y = map_axis [OF pq(5,6) w(3,4)]
  let ?X = "as_i64 (fround (fmul (Fin p) (f64_from (r_width r - 1))))"
  let ?Y = "as_i64 (fround (fmul (Fin q) (f64_from (r_height r - 1))))"
  have "i32_try_from (sint (r_left r) + ?X) = Some px" "i32_try_from (sint (r_top r) + ?Y) = Some py"
    using assms v f pq(1,4) by (simp_all add: rect_map_def Let_def split: option.splits)
  then have "sint px = sint (r_left r) + ?X" "sint py = sint (r_top r) + ?Y"
    by (blast dest: i32_try_from_sint)+
  with X Y show "sint (r_left r) \<le> sint px" "sint px < sint (r_left r) + uint (r_width r)"
    "sint (r_top r) \<le> sint py" "sint py < sint (r_top r) + uint (r_height r)" by simp_all
qed

text \<open>The right and bottom edge are reached exactly.\<close>

lemma map_axis_edge:
  assumes "0 < (w::u32)" "w \<le> 32768"
  shows "as_i64 (fround (fmul (Fin 1) (f64_from (w - 1)))) = uint w - 1"
proof -
  obtain n where w: "uint (w - 1) = n" "uint w = n + 1" "0 \<le> n" "n < 32768"
    using rect_dim [OF assms] that [of "uint w - 1"] by simp
  have lim: "n < 2 ^ 53" "\<bar>n\<bar> < 2 ^ 53" using w by simp_all
  have "fmul (Fin 1) (f64_from (w - 1)) = Fin (of_int n)"
    using f64_of_between(1) [of "of_int n" n] rne_int [OF lim(2)] lim w(3) by (simp add: f64_from_def w(1) del: of_int_uint)
  moreover have "fround (Fin (of_int n)) = Fin (of_int n)"
  proof -
    have "\<lfloor>(of_int n + 1 / 2) :: rat\<rfloor> = n" by (rule floor_unique) simp_all
    then show ?thesis using w(3) by simp
  qed
  moreover have "as_i64 (Fin (of_int n)) = n" unfolding as_i64_def using w by (intro as_int_exact) simp_all
  ultimately show ?thesis using w(2) by (simp del: fround.simps fmul.simps)
qed

lemma rect_map_total:
  assumes "rect_valid r" "unit_interval x" "unit_interval y" "is_finite x" "is_finite y"
    and "sint (r_left r) + uint (r_width r) \<le> 2 ^ 31" "sint (r_top r) + uint (r_height r) \<le> 2 ^ 31"
  shows "is_ok (rect_map r x y)"
proof -
  obtain p q where pq: "x = Fin p" "0 \<le> p" "p \<le> 1" "y = Fin q" "0 \<le> q" "q \<le> 1"
    using unit_interval_Fin assms(2-5) by metis
  have w: "0 < r_width r" "r_width r \<le> 32768" "0 < r_height r" "r_height r \<le> 32768"
    using assms(1) by (auto simp: rect_valid_def)
  note X = map_axis [OF pq(2,3) w(1,2)] and Y = map_axis [OF pq(5,6) w(3,4)]
  have l: "- (2 ^ 31) \<le> sint (r_left r)" "- (2 ^ 31) \<le> sint (r_top r)"
    using sint_ge [of "r_left r"] sint_ge [of "r_top r"] by simp_all
  show ?thesis using assms X Y l by (simp add: rect_map_def Let_def i32_try_from_def pq(1,4) del: fmul.simps fround.simps)
qed

definition hd_screen :: rect where
  "hd_screen = \<lparr>r_left = - 1920, r_top = - 200, r_width = 1920, r_height = 1080\<rparr>"

section \<open>Properties\<close>

text \<open>C19. The pointer stays on the approved source: whatever rounding the floating-point product needs, a
  normalized point is mapped to a pixel of the source rectangle, the far corner to its last pixel;
  and the absolute coordinates computed from that pixel exist and lie in the range of the input
  API.\<close>

theorem pointer_stays_on_the_source:
  assumes "rect_map r x y = Ok (px, py)"
  shows "sint (r_left r) \<le> sint px \<and> sint px < sint (r_left r) + uint (r_width r)
    \<and> sint (r_top r) \<le> sint py \<and> sint py < sint (r_top r) + uint (r_height r)
    \<and> (x = Fin 1 \<longrightarrow> sint px = sint (r_left r) + uint (r_width r) - 1)
    \<and> (2 \<le> r_width r \<and> 2 \<le> r_height r \<longrightarrow> (\<exists>ax ay. rect_absolute r px py = Ok (ax, ay)
        \<and> 0 \<le> ax \<and> ax \<le> 65535 \<and> 0 \<le> ay \<and> ay \<le> 65535))"
proof -
  note b = rect_map_Ok [OF assms]
  have w: "0 < r_width r" "r_width r \<le> 32768" "r_height r \<le> 32768" using b(1) by (auto simp: rect_valid_def)
  have abs: "\<exists>ax ay. rect_absolute r px py = Ok (ax, ay) \<and> 0 \<le> ax \<and> ax \<le> 65535 \<and> 0 \<le> ay \<and> ay \<le> 65535"
    if "2 \<le> r_width r" "2 \<le> r_height r"
    using absolute_axis_bounds [OF that(1) w(2), of "sint px - sint (r_left r)"]
      absolute_axis_bounds [OF that(2) w(3), of "sint py - sint (r_top r)"] b that
    by (simp add: rect_absolute_def Let_def not_less)
  have edge: "sint px = sint (r_left r) + uint (r_width r) - 1" if x: "x = Fin 1"
  proof -
    have "i32_try_from (sint (r_left r) + as_i64 (fround (fmul x (f64_from (r_width r - 1))))) = Some px"
      using assms by (auto simp: rect_map_def Let_def split: if_splits option.splits)
    from i32_try_from_sint [OF this] show ?thesis using map_axis_edge [OF w(1,2)] x by simp
  qed
  show ?thesis using b(2-5) abs edge by blast
qed

theorem pointer_stays_on_the_source_witness:
  "\<exists>px py. rect_map hd_screen (Fin 1) (Fin (1 / 2)) = Ok (px, py) \<and> sint px = -1 \<and> - 200 \<le> sint py \<and> sint py < 880"
proof -
  have "is_ok (rect_map hd_screen (Fin 1) (Fin (1 / 2)))"
    by (rule rect_map_total) (simp_all add: hd_screen_def rect_valid_def unit_interval_def)
  then obtain px py where m: "rect_map hd_screen (Fin 1) (Fin (1 / 2)) = Ok (px, py)"
    by (cases "rect_map hd_screen (Fin 1) (Fin (1 / 2))") auto
  from pointer_stays_on_the_source [OF m] m show ?thesis by (auto simp: hd_screen_def)
qed

end
