(* ===== verification/Media_Demand.thy ===== *)
theory Media_Demand
  imports Geometry
begin

text \<open>
  The ownership logic of \<open>rc-core/src/media.rs\<close>: who watches, when capture resources are let go,
  the one-slot frame queue, and the freshness proof of a frame.
\<close>

section \<open>Model\<close>

record media_demand =
  viewers :: "uuid list"
  idle_since :: "instant option"

definition default_demand :: media_demand where
  "default_demand = \<lparr>viewers = [], idle_since = None\<rparr>"

definition subscribe :: "uuid \<Rightarrow> media_demand \<Rightarrow> media_demand" where
  "subscribe i d = d\<lparr>viewers := List.insert i (viewers d), idle_since := None\<rparr>"

definition unsubscribe :: "uuid \<Rightarrow> instant \<Rightarrow> media_demand \<Rightarrow> media_demand" where
  "unsubscribe i now d =
     (let d1 = d\<lparr>viewers := removeAll i (viewers d)\<rparr> in
      if viewers d1 = [] then d1\<lparr>idle_since := (case idle_since d1 of None \<Rightarrow> Some now | Some t \<Rightarrow> Some t)\<rparr> else d1)"

definition should_capture :: "media_demand \<Rightarrow> bool" where
  "should_capture d \<longleftrightarrow> viewers d \<noteq> []"

definition idle_for :: "nat \<Rightarrow> instant \<Rightarrow> media_demand \<Rightarrow> bool" where
  "idle_for n now d \<longleftrightarrow> viewers d = [] \<and> (case idle_since d of None \<Rightarrow> False | Some t \<Rightarrow> duration_since now t \<ge> secs n)"

definition release_resources :: "instant \<Rightarrow> media_demand \<Rightarrow> bool" where
  "release_resources now d = idle_for 2 now d"

definition should_exit :: "instant \<Rightarrow> media_demand \<Rightarrow> bool" where
  "should_exit now d = idle_for 10 now d"

record 'a latest_frame =
  lf_value :: "'a option"
  lf_dropped :: u64

definition default_latest :: "'a latest_frame" where
  "default_latest = \<lparr>lf_value = None, lf_dropped = 0\<rparr>"

definition lf_replace :: "'a \<Rightarrow> 'a latest_frame \<Rightarrow> 'a latest_frame" where
  "lf_replace x q =
     (if lf_value q \<noteq> None then q\<lparr>lf_value := Some x, lf_dropped := lf_dropped q + 1\<rparr> else q\<lparr>lf_value := Some x\<rparr>)"

definition lf_take :: "'a latest_frame \<Rightarrow> 'a latest_frame \<times> 'a option" where
  "lf_take q = (q\<lparr>lf_value := None\<rparr>, lf_value q)"

record frame_proof =
  fp_source :: uuid
  fp_generation :: u32
  fp_geometry_version :: u64
  fp_rect :: rect
  fp_received :: instant

definition proof_validate :: "frame_proof \<Rightarrow> uuid \<Rightarrow> u32 \<Rightarrow> u64 \<Rightarrow> instant \<Rightarrow> unit result" where
  "proof_validate fp source gen geometry now =
     (if fp_source fp \<noteq> source \<or> fp_generation fp \<noteq> gen \<or> fp_geometry_version fp \<noteq> geometry
         \<or> duration_since now (fp_received fp) > millis 500
      then Err SourceStale else Ok ())"

section \<open>Runs of viewers over a monotonic clock\<close>

text \<open>The time of the last change and the state; the moment the last viewer left is remembered.\<close>

inductive demand_run :: "instant \<Rightarrow> media_demand \<Rightarrow> bool" where
  fresh: "demand_run now default_demand"
| later: "demand_run now d \<Longrightarrow> now \<le> now' \<Longrightarrow> demand_run now' d"
| join: "demand_run now d \<Longrightarrow> demand_run now (subscribe i d)"
| leave: "demand_run now d \<Longrightarrow> demand_run now (unsubscribe i now d)"

lemma demand_run_inv:
  "demand_run now d \<Longrightarrow> distinct (viewers d) \<and> (viewers d \<noteq> [] \<longrightarrow> idle_since d = None)
     \<and> (\<forall>t. idle_since d = Some t \<longrightarrow> t \<le> now)"
proof (induction rule: demand_run.induct)
  case (leave now d i)
  then show ?case by (auto simp: unsubscribe_def Let_def distinct_removeAll split: option.splits)
qed (auto simp: default_demand_def subscribe_def intro: order_trans)

lemma idle_for_antimono: "idle_for n now d \<Longrightarrow> m \<le> n \<Longrightarrow> idle_for m now d"
  by (auto simp: idle_for_def secs_def split: option.splits)

lemma lf_counts:
  "fold lf_replace (x # xs) default_latest = \<lparr>lf_value = Some (last (x # xs)), lf_dropped = of_nat (length xs)\<rparr>"
proof -
  have "fold lf_replace xs \<lparr>lf_value = Some v, lf_dropped = n\<rparr>
      = \<lparr>lf_value = Some (last (v # xs)), lf_dropped = n + of_nat (length xs)\<rparr>" for v n
    by (induction xs arbitrary: v n) (auto simp: lf_replace_def algebra_simps)
  then show ?thesis by (simp add: lf_replace_def default_latest_def)
qed

end
