(* ===== verification/Media_Wire.thy ===== *)
theory Media_Wire
  imports Geometry Rust_Strings
begin

text \<open>
  The media control protocol of \<open>rc-core/src/media_wire.rs\<close>: the messages, their validation, the
  network filter for addresses and ICE candidates, the SDP filter and the bounded line reader.
  Errors are the messages of the source, so a result here is \<open>string + 'a\<close>.
\<close>

section \<open>Model: sources and profiles\<close>

type_synonym 'a checked = "string + 'a"

definition MAX_SIGNAL :: nat where "MAX_SIGNAL = 96 * 1024"

datatype native_source =
    Window str u32 str
  | Monitor str str

fun native_handle :: "native_source \<Rightarrow> str" where
  "native_handle (Window h _ _) = h"
| "native_handle (Monitor h _) = h"

text \<open>\<open>usize\<close> has 64 bits on the target, so the upper check never fires.\<close>

definition source_handle :: "native_source \<Rightarrow> u64 checked" where
  "source_handle n =
     (case parse_uint (2 ^ 64) (native_handle n) of
        None \<Rightarrow> Err ''Invalid native handle''
      | Some h \<Rightarrow> if h = 0 \<or> h > 2 ^ 64 - 1 then Err ''Invalid native handle'' else Ok (of_nat h))"

fun source_kind :: "native_source \<Rightarrow> str" where
  "source_kind (Window _ _ _) = lit ''window''"
| "source_kind (Monitor _ _) = lit ''monitor''"

record local_source =
  ls_native :: native_source
  ls_label :: str
  ls_rect :: rect

record source_view =
  sv_id :: uuid
  sv_generation :: u32
  sv_geometry_version :: str
  sv_label :: str
  sv_kind :: str
  sv_control_allowed :: bool
  sv_rect :: rect

record video_profile =
  vp_width :: u32
  vp_height :: u32
  vp_fps :: u32
  vp_bitrate_kbps :: u32

definition default_profile :: video_profile where
  "default_profile = \<lparr>vp_width = 1280, vp_height = 720, vp_fps = 15, vp_bitrate_kbps = 2500\<rparr>"

definition profile_validate :: "video_profile \<Rightarrow> unit checked" where
  "profile_validate p =
     (if \<not> (64 \<le> vp_width p \<and> vp_width p \<le> 1920) \<or> \<not> (64 \<le> vp_height p \<and> vp_height p \<le> 1080)
         \<or> vp_width p mod 2 \<noteq> 0 \<or> vp_height p mod 2 \<noteq> 0
         \<or> \<not> (1 \<le> vp_fps p \<and> vp_fps p \<le> 30) \<or> \<not> (128 \<le> vp_bitrate_kbps p \<and> vp_bitrate_kbps p \<le> 12000)
      then Err ''Unsupported video resource profile'' else Ok ())"

definition as_u32 :: "f64 \<Rightarrow> u32" where
  "as_u32 x = word_of_int (as_int 0 (2 ^ 32 - 1) x)"

definition fit_scale :: "video_profile \<Rightarrow> rect \<Rightarrow> f64" where
  "fit_scale p r = fmin (fmin (fdiv (f64_from (vp_width p)) (f64_from (r_width r)))
     (fdiv (f64_from (vp_height p)) (f64_from (r_height r)))) (Fin 1)"

definition fit_axis :: "u32 \<Rightarrow> f64 \<Rightarrow> u32" where
  "fit_axis n k = max (as_u32 (fmul (f64_from n) k) div 2 * 2) 64"

definition profile_fit :: "video_profile \<Rightarrow> rect \<Rightarrow> video_profile checked" where
  "profile_fit p r =
     (case profile_validate p of Err e \<Rightarrow> Err e | Ok _ \<Rightarrow>
      if \<not> rect_valid r \<or> r_width r < 64 \<or> r_height r < 64 then Err ''Capture source too small''
      else Ok (p\<lparr>vp_width := fit_axis (r_width r) (fit_scale p r), vp_height := fit_axis (r_height r) (fit_scale p r)\<rparr>))"

section \<open>Model: the network filter\<close>

definition octet_ok :: "str \<Rightarrow> bool" where
  "octet_ok s \<longleftrightarrow> \<not> (s = [] \<or> length s > 3 \<or> (length s > 1 \<and> hd s = 0x30) \<or> \<not> list_all is_digit s)"

definition tailnet_ip :: "str \<Rightarrow> bool" where
  "tailnet_ip ip =
     (let parts = split_on 0x2E ip in
      if length parts \<noteq> 4 then False
      else if \<not> list_all (\<lambda>s. octet_ok s \<and> parse_uint 256 s \<noteq> None) parts then False
      else (let n = map (\<lambda>s. the (parse_uint 256 s)) parts in n ! 0 = 100 \<and> 64 \<le> n ! 1 \<and> n ! 1 \<le> 127))"

definition candidate_allowed :: "str \<Rightarrow> str option \<Rightarrow> bool" where
  "candidate_allowed s exact_ip =
     (if length s > 2048 \<or> list_ex (\<lambda>b. b \<in> {13, 10, 0}) s then False
      else (let p = split_whitespace s in
        length p \<ge> 8 \<and> prefix (lit ''candidate:'') (p ! 0) \<and> length (p ! 0) > 10 \<and> p ! 1 = lit ''1''
        \<and> eq_ignore_ascii_case (p ! 2) (lit ''udp'') \<and> parse_uint (2 ^ 32) (p ! 3) \<noteq> None
        \<and> tailnet_ip (p ! 4) \<and> (case exact_ip of None \<Rightarrow> True | Some ip \<Rightarrow> ip = p ! 4)
        \<and> (case parse_uint (2 ^ 16) (p ! 5) of None \<Rightarrow> False | Some n \<Rightarrow> n > 0)
        \<and> p ! 6 = lit ''typ'' \<and> p ! 7 = lit ''host''))"

section \<open>Model: the SDP filter\<close>

definition sdp_lines :: "str \<Rightarrow> str list" where
  "sdp_lines s = map (trim_end_matches 13) (str_lines s)"

definition fingerprint_line :: "str \<Rightarrow> bool" where
  "fingerprint_line l =
     (case strip_prefix (lit ''a=fingerprint:sha-256 '') l of
        None \<Rightarrow> False
      | Some fp \<Rightarrow> (let b = split_on 0x3A fp in
          length b = 32 \<and> list_all (\<lambda>v. length v = 2 \<and> list_all is_hexdigit v) b))"

definition h264_line :: "str \<Rightarrow> bool" where
  "h264_line l \<longleftrightarrow> prefix (lit ''a=rtpmap:'') l \<and> suffix (lit '' H264/90000'') (map to_ascii_upper l)"

definition media_line :: "str \<Rightarrow> bool" where
  "media_line l \<longleftrightarrow> prefix (lit ''m='') l"

definition candidate_line :: "str \<Rightarrow> bool" where
  "candidate_line l \<longleftrightarrow> prefix (lit ''a=candidate:'') l \<or> l = lit ''a=end-of-candidates''"

definition sdp_accepted :: "str list \<Rightarrow> unit checked" where
  "sdp_accepted ls =
     (if length (filter media_line ls) \<noteq> 1 \<or> \<not> list_ex (\<lambda>l. prefix (lit ''m=video '') l) ls then Err ''Video only''
      else if \<not> list_ex fingerprint_line ls \<or> \<not> list_ex h264_line ls then Err ''DTLS-SRTP H264 required''
      else Ok ())"

definition CRLF :: str where "CRLF = [13, 10]"

definition sanitize_sdp :: "str \<Rightarrow> str checked" where
  "sanitize_sdp s =
     (if length s > 65536 \<or> list_ex (\<lambda>b. b = 0) s then Err ''Invalid SDP size''
      else (case sdp_accepted (sdp_lines s) of
        Err e \<Rightarrow> Err e
      | Ok _ \<Rightarrow> Ok (join_with CRLF (filter (\<lambda>l. \<not> candidate_line l) (sdp_lines s)) @ CRLF)))"

section \<open>Model: messages\<close>

record media_init =
  mi_protocol :: u16
  mi_source :: local_source
  mi_profile :: video_profile
  mi_tailnet_ip :: str
  mi_min_port :: u16
  mi_max_port :: u16

datatype media_mode = Hardware | SoftwareViewOnlySlow

datatype capture_state = Cap_Starting | Cap_Live | Cap_MinimizedOrStalled

definition init_validate :: "media_init \<Rightarrow> unit checked" where
  "init_validate i =
     (case profile_validate (mi_profile i) of Err e \<Rightarrow> Err e | Ok _ \<Rightarrow>
      (case source_handle (ls_native (mi_source i)) of Err e \<Rightarrow> Err e | Ok _ \<Rightarrow>
       if mi_protocol i \<noteq> 1 \<or> \<not> rect_valid (ls_rect (mi_source i)) \<or> \<not> tailnet_ip (mi_tailnet_ip i)
          \<or> mi_min_port i < 1024 \<or> mi_max_port i < mi_min_port i \<or> mi_max_port i - mi_min_port i > 31
       then Err ''Invalid media configuration'' else Ok ()))"

datatype helper_in =
    HIn_Init media_init
  | HIn_Answer str
  | HIn_Ice str u32
  | HIn_Stop

datatype helper_out =
    HOut_Ready u16
  | HOut_Offer str
  | HOut_Ice str u32
  | HOut_Frame str u64
  | HOut_Status media_mode capture_state u32 u32 bool bool bool
  | HOut_Error str
  | HOut_Stopped

datatype gui_action =
    Act_Move f64 f64
  | Act_Button f64 f64 u8 bool
  | Act_Wheel f64 f64 i32
  | Act_Key u16 bool bool
  | Act_Text str

datatype media_client_message =
    MC_Answer str
  | MC_Ice str u32
  | MC_Presented u32 str
  | MC_Acquire u32 str
  | MC_Renew str
  | MC_Release
  | MC_Input str u32 str str gui_action
  | MC_RefreshAuth str
  | MC_Ping
  | MC_Stop

definition point_ok :: "f64 \<Rightarrow> f64 \<Rightarrow> unit checked" where
  "point_ok x y =
     (if is_finite x \<and> is_finite y \<and> unit_interval x \<and> unit_interval y then Ok () else Err ''Invalid normalized point'')"

fun action_validate :: "gui_action \<Rightarrow> unit checked" where
  "action_validate (Act_Move x y) = point_ok x y"
| "action_validate (Act_Button x y button _) =
     (case point_ok x y of Err e \<Rightarrow> Err e | Ok _ \<Rightarrow> if button > 2 then Err ''Unsupported button'' else Ok ())"
| "action_validate (Act_Wheel x y delta) =
     (case point_ok x y of Err e \<Rightarrow> Err e
      | Ok _ \<Rightarrow> if \<not> (-1200 \<le> sint delta \<and> sint delta \<le> 1200) then Err ''Wheel out of range'' else Ok ())"
| "action_validate (Act_Key scan _ _) = (if 1 \<le> scan \<and> scan \<le> 88 then Ok () else Err ''Unsupported scan code'')"
| "action_validate (Act_Text txt) =
     (if utf16_len txt > 1024 \<or> 0 \<in> set txt then Err ''Text too large/invalid'' else Ok ())"

section \<open>Model: the bounded line reader\<close>

text \<open>\<open>read_until\<close> a line feed, on at most \<open>MAX_SIGNAL + 1\<close> bytes of the input: the line and the rest.\<close>

fun read_until :: "u8 \<Rightarrow> bytes \<Rightarrow> bytes" where
  "read_until d [] = []"
| "read_until d (b # r) = (if b = d then [b] else b # read_until d r)"

text \<open>\<open>from_slice\<close> is the JSON parser. The result has the input that is left.\<close>

definition read_json_line :: "(bytes \<Rightarrow> 'a option) \<Rightarrow> bytes \<Rightarrow> bytes \<times> 'a option checked" where
  "read_json_line from_slice input =
     (let line = read_until 10 (take (MAX_SIGNAL + 1) input); n = length line; rest = drop n input in
      if n = 0 then (rest, Ok None)
      else if n > MAX_SIGNAL \<or> last line \<noteq> 10 then (rest, Err ''Oversized/partial media frame'')
      else (case from_slice line of None \<Rightarrow> (rest, Err ''invalid data'') | Some v \<Rightarrow> (rest, Ok (Some v))))"

section \<open>Lemmas: addresses\<close>

text \<open>The text of an IPv4 address.\<close>

definition dotted :: "nat \<Rightarrow> nat \<Rightarrow> nat \<Rightarrow> nat \<Rightarrow> str" where
  "dotted a b c d = join_with [0x2E] [dec a, dec b, dec c, dec d]"

lemma dec_no_dot: "0x2E \<notin> set (dec n)"
  using dec_digits [of n] by (auto simp: list_all_iff is_digit_def word_le_nat_alt)

lemma dec_no_plus: "list_all is_digit s \<Longrightarrow> s \<noteq> [] \<Longrightarrow> hd s \<noteq> 0x2B"
  by (cases s) (auto simp: is_digit_def)

lemma dec_small: "n < 256 \<Longrightarrow> length (dec n) \<le> 3 \<and> (length (dec n) > 1 \<longrightarrow> hd (dec n) \<noteq> 0x30)"
proof -
  assume n: "n < 256"
  have one: "m < 10 \<Longrightarrow> dec m = [0x30 + of_nat m]" for m by (simp add: dec.simps)
  have nz: "m < 10 \<Longrightarrow> 0 < m \<Longrightarrow> (0x30 + of_nat m :: u8) \<noteq> 0x30" for m
  proof
    assume "m < 10" "0 < m" "(0x30 + of_nat m :: u8) = 0x30"
    then have "unat (0x30 + of_nat m :: u8) = 0x30" by simp
    with digit_byte [OF \<open>m < 10\<close>] \<open>0 < m\<close> show False by simp
  qed
  show ?thesis
  proof (cases "n < 100")
    case True
    show ?thesis
    proof (cases "n < 10")
      case False
      then have "dec n = [0x30 + of_nat (n div 10), 0x30 + of_nat (n mod 10)]" using True one [of "n div 10"] by (simp add: dec.simps [of n])
      then show ?thesis using nz [of "n div 10"] True False by simp
    qed (simp add: one)
  next
    case False
    then have "dec n = dec (n div 10 div 10) @ [0x30 + of_nat (n div 10 mod 10), 0x30 + of_nat (n mod 10)]"
      by (simp add: dec.simps [of n] dec.simps [of "n div 10"])
    moreover have "n div 10 div 10 < 10" "0 < n div 10 div 10" using n False by auto
    ultimately show ?thesis using one nz by simp
  qed
qed

lemma octet_iff: "octet_ok s \<and> parse_uint 256 s = Some n \<longleftrightarrow> n < 256 \<and> s = dec n"
proof
  assume a: "octet_ok s \<and> parse_uint 256 s = Some n"
  then have s: "list_all is_digit s" "s \<noteq> []" "length s > 1 \<longrightarrow> hd s \<noteq> 0x30" by (auto simp: octet_ok_def)
  then have "dec_val s = n \<and> n < 256" using a dec_no_plus [of s] by (auto simp: parse_uint_def Let_def split: if_splits)
  with dec_of_digits [OF s] show "n < 256 \<and> s = dec n" by auto
next
  assume a: "n < 256 \<and> s = dec n"
  then show "octet_ok s \<and> parse_uint 256 s = Some n"
    using dec_small [of n] dec_digits [of n] parse_dec [of n 256] by (auto simp: octet_ok_def)
qed

lemma tailnet_ip_iff:
  "tailnet_ip s \<longleftrightarrow> (\<exists>b c d. s = dotted 100 b c d \<and> 64 \<le> b \<and> b \<le> 127 \<and> c < 256 \<and> d < 256)"
proof
  assume t: "tailnet_ip s"
  then obtain p0 p1 p2 p3 where p: "split_on 0x2E s = [p0, p1, p2, p3]"
    by (auto simp: tailnet_ip_def Let_def length_Suc_conv numeral_eq_Suc split: if_splits)
  with t obtain a b c d where
    o: "octet_ok p0 \<and> parse_uint 256 p0 = Some a" "octet_ok p1 \<and> parse_uint 256 p1 = Some b"
       "octet_ok p2 \<and> parse_uint 256 p2 = Some c" "octet_ok p3 \<and> parse_uint 256 p3 = Some d"
    and r: "a = 100" "64 \<le> b" "b \<le> 127"
    by (auto simp: tailnet_ip_def Let_def split: if_splits)
  from o have "p0 = dec a" "p1 = dec b" "p2 = dec c" "p3 = dec d" "c < 256" "d < 256" unfolding octet_iff by auto
  with str_join_split [of "0x2E" s] p r show "\<exists>b c d. s = dotted 100 b c d \<and> 64 \<le> b \<and> b \<le> 127 \<and> c < 256 \<and> d < 256"
    by (intro exI [of _ b] exI [of _ c] exI [of _ d]) (simp add: dotted_def)
next
  assume "\<exists>b c d. s = dotted 100 b c d \<and> 64 \<le> b \<and> b \<le> 127 \<and> c < 256 \<and> d < 256"
  then obtain b c d where s: "s = dotted 100 b c d" "64 \<le> b" "b \<le> 127" "c < 256" "d < 256" by blast
  have sp: "split_on 0x2E s = [dec 100, dec b, dec c, dec d]"
    unfolding s(1) dotted_def by (rule str_split_join) (auto simp: dec_no_dot)
  have "octet_ok (dec n) \<and> parse_uint 256 (dec n) = Some n" if "n < 256" for n using that octet_iff by blast
  with sp s(2-5) show "tailnet_ip s" by (simp add: tailnet_ip_def Let_def)
qed

section \<open>Lemmas: SDP lines\<close>

text \<open>A clean line has no line feed and does not end in a carriage return.\<close>

definition clean_line :: "str \<Rightarrow> bool" where
  "clean_line l \<longleftrightarrow> 10 \<notin> set l \<and> (l \<noteq> [] \<longrightarrow> last l \<noteq> 13)"

lemma trim_end_matches_set: "set (trim_end_matches c s) \<subseteq> set s"
  by (auto simp: trim_end_matches_def dest: set_dropWhileD)

lemma trim_end_matches_last: "trim_end_matches c s \<noteq> [] \<Longrightarrow> last (trim_end_matches c s) \<noteq> c"
proof -
  assume "trim_end_matches c s \<noteq> []"
  then have "dropWhile (\<lambda>b. b = c) (rev s) \<noteq> []" by (simp add: trim_end_matches_def)
  from hd_dropWhile [OF this] this show ?thesis by (simp add: trim_end_matches_def last_rev)
qed

lemma trim_end_matches_id: "(s \<noteq> [] \<longrightarrow> last s \<noteq> c) \<Longrightarrow> trim_end_matches c s = s"
  by (cases "rev s") (auto simp: trim_end_matches_def hd_rev [symmetric] last_rev dest: arg_cong [of _ _ rev])

lemma split_on_bytes: "p \<in> set (split_on d s) \<Longrightarrow> set p \<subseteq> set s"
proof (induction s arbitrary: p)
  case (Cons a s)
  obtain q qs where "split_on d s = q # qs" by (cases "split_on d s") auto
  with Cons show ?case by (auto split: if_splits) blast
qed simp

lemma join_with_bytes: "set (join_with d ls) \<subseteq> set d \<union> \<Union> (set ` set ls)"
  by (induction d ls rule: join_with.induct) auto

lemma str_lines_bytes: "l \<in> set (str_lines s) \<Longrightarrow> 10 \<notin> set l \<and> set l \<subseteq> set s"
proof -
  have sub: "p \<in> set (split_on 10 s) \<Longrightarrow> 10 \<notin> set p \<and> set p \<subseteq> set s" for p
    using split_on_no_sep split_on_bytes by blast
  have cr: "set (strip_cr p) \<subseteq> set p" for p by (auto simp: strip_cr_def dest: in_set_butlastD)
  assume "l \<in> set (str_lines s)"
  then consider p where "p \<in> set (split_on 10 s)" "l = strip_cr p" | "l = last (split_on 10 s)"
    by (auto simp: str_lines_def Let_def split: if_splits dest: in_set_butlastD)
  then show ?thesis using sub cr last_in_set [OF split_on_nonempty [of 10 s]] by cases blast+
qed

lemma sdp_lines_clean: "l \<in> set (sdp_lines s) \<Longrightarrow> clean_line l"
  using str_lines_bytes trim_end_matches_set trim_end_matches_last
  by (fastforce simp: sdp_lines_def clean_line_def)

lemma str_lines_join:
  "list_all clean_line ls \<Longrightarrow> ls \<noteq> [] \<Longrightarrow> sdp_lines (join_with CRLF ls @ CRLF) = ls"
proof -
  have split: "list_all clean_line ls \<Longrightarrow> ls \<noteq> [] \<Longrightarrow>
      split_on 10 (join_with CRLF ls @ CRLF) = map (\<lambda>l. l @ [13]) ls @ [[]]" for ls
  proof (induction CRLF ls rule: join_with.induct)
    case (2 l)
    then show ?case using split_on_append [of 10 "l @ [13]" "[]"] by (simp add: CRLF_def clean_line_def)
  next
    case (3 p q r)
    have "10 \<notin> set (p @ [13])" using 3 by (simp add: clean_line_def)
    from split_on_append [OF this, of "join_with CRLF (q # r) @ CRLF"] 3 show ?case by (simp add: CRLF_def)
  qed simp
  have "clean_line l \<Longrightarrow> trim_end_matches 13 (strip_cr (l @ [13])) = l" for l
    by (simp add: strip_cr_def clean_line_def trim_end_matches_id)
  then show "list_all clean_line ls \<Longrightarrow> ls \<noteq> [] \<Longrightarrow> sdp_lines (join_with CRLF ls @ CRLF) = ls"
    by (simp add: sdp_lines_def str_lines_def split list_all_iff map_idI)
qed

text \<open>The lines that the checks look at are not candidate lines.\<close>

lemma not_candidate:
  "media_line l \<Longrightarrow> \<not> candidate_line l" "prefix (lit ''m=video '') l \<Longrightarrow> \<not> candidate_line l"
  "fingerprint_line l \<Longrightarrow> \<not> candidate_line l" "h264_line l \<Longrightarrow> \<not> candidate_line l"
  by (auto simp: media_line_def candidate_line_def fingerprint_line_def h264_line_def strip_prefix_def lit_def prefix_def
      split: option.splits if_splits)

lemma sdp_accepted_filter:
  "sdp_accepted (filter (\<lambda>l. \<not> candidate_line l) ls) = sdp_accepted ls"
proof -
  have "filter media_line (filter (\<lambda>l. \<not> candidate_line l) ls) = filter media_line ls"
    using not_candidate(1) by (simp add: filter_filter) (metis (mono_tags, lifting))
  moreover have "(\<And>l. P l \<Longrightarrow> \<not> candidate_line l) \<Longrightarrow> list_ex P (filter (\<lambda>l. \<not> candidate_line l) ls) = list_ex P ls" for P
    by (auto simp: list_ex_iff)
  ultimately show ?thesis using not_candidate unfolding sdp_accepted_def by presburger
qed

text \<open>What \<open>sanitize_sdp\<close> returns, in terms of its lines.\<close>

lemma sanitize_sdp_Ok:
  assumes "sanitize_sdp s = Ok out"
  shows "sdp_lines out = filter (\<lambda>l. \<not> candidate_line l) (sdp_lines s)" "sdp_accepted (sdp_lines out) = Ok ()"
    "0 \<notin> set out"
    "out = join_with CRLF (filter (\<lambda>l. \<not> candidate_line l) (sdp_lines s)) @ CRLF"
proof -
  let ?ls = "filter (\<lambda>l. \<not> candidate_line l) (sdp_lines s)"
  have z: "0 \<notin> set s" and acc: "sdp_accepted (sdp_lines s) = Ok ()" and out: "out = join_with CRLF ?ls @ CRLF"
    using assms by (auto simp: sanitize_sdp_def list_ex_iff split: if_splits sum.splits)
  show "out = join_with CRLF ?ls @ CRLF" by (rule out)
  have acc': "sdp_accepted ?ls = Ok ()" using acc sdp_accepted_filter by simp
  then have "?ls \<noteq> []" by (auto simp: sdp_accepted_def)
  moreover have "list_all clean_line ?ls" using sdp_lines_clean by (auto simp: list_all_iff)
  ultimately show ls: "sdp_lines out = ?ls" using str_lines_join out by simp
  show "sdp_accepted (sdp_lines out) = Ok ()" using ls acc' by simp
  have "l \<in> set (sdp_lines s) \<Longrightarrow> set l \<subseteq> set s" for l
    using str_lines_bytes trim_end_matches_set by (fastforce simp: sdp_lines_def)
  then have "\<Union> (set ` set ?ls) \<subseteq> set s" by fastforce
  moreover have "0 \<notin> set CRLF" by (simp add: CRLF_def)
  ultimately have "0 \<notin> set (join_with CRLF ?ls)" using z join_with_bytes [of CRLF ?ls] by blast
  then show "0 \<notin> set out" unfolding out by (simp add: CRLF_def)
qed

section \<open>Lemmas: fitting a profile\<close>

lemma fit_product:
  fixes W n :: int
  assumes W: "64 \<le> W" "W \<le> 1920" and n: "64 \<le> n" "n \<le> 32768" and k: "0 \<le> k" "k \<le> rne (of_int W / of_int n)"
  shows "\<exists>m. as_int 0 (2 ^ 32 - 1) (fmul (Fin (of_int n)) (Fin k)) = m \<and> 0 \<le> m \<and> m \<le> W"
proof -
  let ?q = "of_int W / of_int n :: rat"
  have np: "(0::rat) < of_int n" using n by simp
  have small: "2 powi (-1022) \<le> ?q"
  proof -
    have "(2::rat) powi (-1022) \<le> 2 powi (-9)" by (rule powi_mono) simp
    also have "\<dots> = 1 / 512" by (simp add: power_int_def power_one_over)
    also have "\<dots> \<le> ?q" using W n by (simp add: le_divide_eq)
    finally show ?thesis .
  qed
  have "rne ?q \<le> ?q + ?q * 2 powi (-53)" using rne_relative [OF small] by linarith
  then have "of_int n * k \<le> of_int n * (?q + ?q * 2 powi (-53))" using k np by (intro mult_left_mono) simp_all
  also have "\<dots> = of_int W + of_int W * 2 powi (-53)" using np by (simp add: field_simps)
  also have "\<dots> \<le> of_int (2 * W + 1) / 2" using W by (simp add: power_int_def field_simps)
  finally have le: "of_int n * k \<le> of_int (2 * W + 1) / 2" .
  have "rne (of_int (2 * W + 1) / 2) = of_int (2 * W + 1) / 2" using W by (intro rne_half) simp
  with rne_mono [OF le] have hi: "rne (of_int n * k) \<le> of_int (2 * W + 1) / 2" by simp
  have lo: "0 \<le> of_int n * k" using np k by simp
  have "of_int n * k \<le> of_int (W + 1)" using le by simp
  from f64_of_between [OF lo this] W have f: "fmul (Fin (of_int n)) (Fin k) = Fin (rne (of_int n * k))" by simp
  define m where "m = \<lfloor>rne (of_int n * k)\<rfloor>"
  have m: "0 \<le> m" "m \<le> W"
    using rne_nonneg [OF lo] hi by (simp_all add: m_def floor_le_iff)
  moreover have "as_int 0 (2 ^ 32 - 1) (Fin (rne (of_int n * k))) = m"
    unfolding as_int.simps Let_def m_def [symmetric] using rne_nonneg [OF lo] m W by simp
  ultimately show ?thesis unfolding f by blast
qed

lemma fmin_Fin: "fmin (Fin a) (Fin b) = Fin (min a b)"
  by (auto simp: fmin_def min_def)

lemma ratio_Fin:
  fixes a b :: int
  assumes "64 \<le> a" "a \<le> 1920" "64 \<le> b"
  shows "fdiv (Fin (of_int a)) (Fin (of_int b)) = Fin (rne (of_int a / of_int b))" "0 \<le> rne (of_int a / of_int b)"
proof -
  have bp: "(0::rat) < of_int b" using assms by simp
  have q: "0 \<le> (of_int a / of_int b :: rat)" "(of_int a / of_int b :: rat) \<le> of_int a"
    using assms bp mult_left_mono [of 1 "of_int b :: rat" "of_int a"] by (simp_all add: divide_le_eq)
  from f64_of_between [OF q] assms show "fdiv (Fin (of_int a)) (Fin (of_int b)) = Fin (rne (of_int a / of_int b))"
    "0 \<le> rne (of_int a / of_int b)" by simp_all
qed

lemma fit_axis_bounds:
  fixes n W :: u32
  assumes "64 \<le> W" "W \<le> 1920" "W mod 2 = 0" "64 \<le> n" "n \<le> 32768" "0 \<le> k" "k \<le> rne (of_int (uint W) / of_int (uint n))"
  shows "64 \<le> fit_axis n (Fin k) \<and> fit_axis n (Fin k) \<le> W \<and> fit_axis n (Fin k) mod 2 = 0"
proof -
  obtain a b where ab: "uint W = a" "uint n = b" by simp
  have B: "64 \<le> a" "a \<le> 1920" "64 \<le> b" "b \<le> 32768" using assms(1,2,4,5) ab by (simp_all add: word_le_def)
  from fit_product [OF B assms(6)] assms(7) ab obtain m where
    m: "as_int 0 (2 ^ 32 - 1) (fmul (Fin (of_int b)) (Fin k)) = m" "0 \<le> m" "m \<le> a" by auto
  let ?x = "word_of_int m :: u32"
  have x: "uint ?x = m" using m B by (simp add: uint_word_of_int_eq take_bit_int_eq_self)
  have f: "fit_axis n (Fin k) = max (?x div 2 * 2) 64"
    using m(1) by (simp add: fit_axis_def as_u32_def f64_from_def ab(2) del: of_int_uint fmul.simps)
  have d: "uint (?x div 2 * 2) = m div 2 * 2"
  proof -
    have "uint (?x div 2) = m div 2" by (simp add: uint_div x)
    moreover have "m div 2 * 2 < 2 ^ 32" using m B by simp
    ultimately show ?thesis by (simp add: uint_mult_lem [THEN iffD1])
  qed
  have "m div 2 * 2 \<le> a" using m by linarith
  then have le: "?x div 2 * 2 \<le> W" using d ab by (simp add: word_le_def)
  have "uint ((?x div 2 * 2) mod 2) = uint (?x div 2 * 2) mod uint (2::u32)" by (rule uint_mod)
  then have "uint ((?x div 2 * 2) mod 2) = 0" unfolding d by simp
  then have ev: "(?x div 2 * 2) mod 2 = 0" "(64::u32) mod 2 = 0" by (simp_all only: uint_0_iff) simp
  show ?thesis unfolding f using le ev assms(1) by (auto simp: max_def)
qed

section \<open>Properties\<close>

text \<open>The network filter is exact: an address is accepted exactly when it is the canonical text of an
  IPv4 address in 100.64.0.0/10, and an accepted ICE candidate is a single-component UDP host
  candidate with such an address, the expected one when one is given, and a port that is not zero.\<close>

theorem network_filter_is_exact:
  "(tailnet_ip s \<longleftrightarrow> (\<exists>b c d. s = dotted 100 b c d \<and> 64 \<le> b \<and> b \<le> 127 \<and> c < 256 \<and> d < 256))
   \<and> (candidate_allowed cand expected \<longrightarrow>
       (\<exists>b c d port. length cand \<le> 2048 \<and> 10 \<notin> set cand \<and> 13 \<notin> set cand
         \<and> split_whitespace cand ! 4 = dotted 100 b c d \<and> 64 \<le> b \<and> b \<le> 127 \<and> c < 256 \<and> d < 256
         \<and> (\<forall>ip. expected = Some ip \<longrightarrow> ip = dotted 100 b c d)
         \<and> parse_uint 65536 (split_whitespace cand ! 5) = Some port \<and> 0 < port
         \<and> split_whitespace cand ! 6 = lit ''typ'' \<and> split_whitespace cand ! 7 = lit ''host''))"
proof -
  have "\<exists>b c d port. length cand \<le> 2048 \<and> 10 \<notin> set cand \<and> 13 \<notin> set cand
         \<and> split_whitespace cand ! 4 = dotted 100 b c d \<and> 64 \<le> b \<and> b \<le> 127 \<and> c < 256 \<and> d < 256
         \<and> (\<forall>ip. expected = Some ip \<longrightarrow> ip = dotted 100 b c d)
         \<and> parse_uint 65536 (split_whitespace cand ! 5) = Some port \<and> 0 < port
         \<and> split_whitespace cand ! 6 = lit ''typ'' \<and> split_whitespace cand ! 7 = lit ''host''"
    if a: "candidate_allowed cand expected"
  proof -
    have ip: "tailnet_ip (split_whitespace cand ! 4)" and ex: "\<forall>ip. expected = Some ip \<longrightarrow> ip = split_whitespace cand ! 4"
      and rest: "length cand \<le> 2048" "10 \<notin> set cand" "13 \<notin> set cand"
        "split_whitespace cand ! 6 = lit ''typ''" "split_whitespace cand ! 7 = lit ''host''"
      and "\<exists>port. parse_uint 65536 (split_whitespace cand ! 5) = Some port \<and> 0 < port"
      using a by (auto simp: candidate_allowed_def Let_def list_ex_iff not_less split: if_splits option.splits)
    then obtain port where port: "parse_uint 65536 (split_whitespace cand ! 5) = Some port" "0 < port" by blast
    from ip obtain b c d where "split_whitespace cand ! 4 = dotted 100 b c d" "64 \<le> b" "b \<le> 127" "c < 256" "d < 256"
      unfolding tailnet_ip_iff by blast
    with ex rest port show ?thesis by metis
  qed
  then show ?thesis using tailnet_ip_iff by blast
qed

definition host_candidate :: str where
  "host_candidate = lit ''candidate:1 1 udp 1 100.64.0.2 50000 typ host''"

lemma host_candidate_words:
  "split_whitespace host_candidate = map lit [''candidate:1'', ''1'', ''udp'', ''1'', ''100.64.0.2'', ''50000'', ''typ'', ''host'']"
  by (simp add: host_candidate_def split_whitespace_def lit_def ws1_def ws2_def ws3_def piece_def)

lemma host_candidate_allowed: "candidate_allowed host_candidate None"
proof -
  have "tailnet_ip (lit ''100.64.0.2'')"
    by (simp add: tailnet_ip_def lit_def octet_ok_def parse_uint_def is_digit_def dec_val_def Let_def)
  then show ?thesis unfolding candidate_allowed_def host_candidate_words
    by (simp add: host_candidate_def lit_def eq_ignore_ascii_case_def to_ascii_lower_def parse_uint_def is_digit_def dec_val_def)
qed

theorem network_filter_is_exact_witness:
  "candidate_allowed host_candidate None
   \<and> (\<exists>b c d. split_whitespace host_candidate ! 4 = dotted 100 b c d \<and> 64 \<le> b \<and> b \<le> 127 \<and> c < 256 \<and> d < 256)"
  using network_filter_is_exact [of "[]" host_candidate None] host_candidate_allowed by blast


text \<open>C21. Fitting keeps the resource limits: the fitted picture is never larger than the profile in either
  direction, in spite of the floating-point rounding; it is even, at least 64 by 64, and the fitted
  profile is accepted by \<open>validate\<close>.\<close>

theorem fitted_profile_is_valid:
  assumes "profile_fit p r = Ok p'"
  shows "vp_width p' \<le> vp_width p \<and> vp_height p' \<le> vp_height p \<and> vp_fps p' = vp_fps p
    \<and> vp_bitrate_kbps p' = vp_bitrate_kbps p \<and> profile_validate p' = Ok ()"
proof -
  have v: "profile_validate p = Ok ()" and r: "rect_valid r" "64 \<le> r_width r" "64 \<le> r_height r"
    and p': "p' = p\<lparr>vp_width := fit_axis (r_width r) (fit_scale p r), vp_height := fit_axis (r_height r) (fit_scale p r)\<rparr>"
    using assms by (auto simp: profile_fit_def not_less split: sum.splits if_splits)
  have b: "64 \<le> vp_width p" "vp_width p \<le> 1920" "64 \<le> vp_height p" "vp_height p \<le> 1080" "vp_width p mod 2 = 0" "vp_height p mod 2 = 0"
    using v by (auto simp: profile_validate_def split: if_splits)
  have rd: "r_width r \<le> 32768" "r_height r \<le> 32768" using r(1) by (auto simp: rect_valid_def)
  have h1920: "vp_height p \<le> 1920" using b(4) by (simp add: word_le_def)
  let ?a = "rne (of_int (uint (vp_width p)) / of_int (uint (r_width r)))"
  let ?b = "rne (of_int (uint (vp_height p)) / of_int (uint (r_height r)))"
  have U: "64 \<le> uint (vp_width p)" "uint (vp_width p) \<le> 1920" "64 \<le> uint (vp_height p)" "uint (vp_height p) \<le> 1920"
    "64 \<le> uint (r_width r)" "64 \<le> uint (r_height r)" using b r h1920 by (simp_all add: word_le_def)
  note ra = ratio_Fin [OF U(1,2,5)] and rb = ratio_Fin [OF U(3,4,6)]
  have k: "fit_scale p r = Fin (min (min ?a ?b) 1)"
    unfolding fit_scale_def f64_from_def ra(1) rb(1) by (simp only: fmin_Fin)
  have k0: "0 \<le> min (min ?a ?b) 1" using ra(2) rb(2) by simp
  note X = fit_axis_bounds [OF b(1,2,5) r(2) rd(1) k0] and Y = fit_axis_bounds [OF b(3) h1920 b(6) r(3) rd(2) k0]
  have x: "64 \<le> vp_width p'" "vp_width p' \<le> vp_width p" "vp_width p' mod 2 = 0" using X by (simp_all add: p' k)
  have y: "64 \<le> vp_height p'" "vp_height p' \<le> vp_height p" "vp_height p' mod 2 = 0" using Y by (simp_all add: p' k)
  have "vp_width p' \<le> 1920" "vp_height p' \<le> 1080" using x y b by (auto intro: order_trans)
  moreover have "vp_fps p' = vp_fps p" "vp_bitrate_kbps p' = vp_bitrate_kbps p" by (simp_all add: p')
  ultimately show ?thesis using v x y by (simp add: profile_validate_def split: if_splits)
qed

text \<open>A description of one line per requirement, and a fitted default profile.\<close>

definition small_fingerprint :: str where
  "small_fingerprint = join_with [0x3A] (replicate 32 (lit ''0A''))"

definition small_lines :: "str list" where
  "small_lines = [lit ''m=video 9'', lit ''a=fingerprint:sha-256 '' @ small_fingerprint, lit ''a=rtpmap:96 H264/90000'',
     lit ''a=candidate:1'']"

definition small_sdp :: str where
  "small_sdp = join_with CRLF small_lines @ CRLF"

lemma small_fingerprint_bytes: "set small_fingerprint \<subseteq> {0x30, 0x41, 0x3A}" "small_fingerprint \<noteq> []"
    "length small_fingerprint = 95"
  by (simp_all add: small_fingerprint_def lit_def numeral_eq_Suc)

lemma small_lines_clean: "list_all clean_line small_lines"
proof -
  have "last small_fingerprint \<in> {0x30, 0x41, 0x3A}" using small_fingerprint_bytes last_in_set by blast
  then have "clean_line (lit ''a=fingerprint:sha-256 '' @ small_fingerprint)"
    using small_fingerprint_bytes by (auto simp: clean_line_def lit_def)
  then show ?thesis by (simp add: small_lines_def) (simp add: clean_line_def lit_def)
qed

lemma small_lines_accepted: "sdp_accepted small_lines = Ok ()"
proof -
  have "split_on 0x3A small_fingerprint = replicate 32 (lit ''0A'')"
    unfolding small_fingerprint_def by (rule str_split_join) (auto simp: lit_def)
  then have "fingerprint_line (lit ''a=fingerprint:sha-256 '' @ small_fingerprint)"
    by (simp add: fingerprint_line_def strip_prefix_def is_hexdigit_def is_digit_def lit_def list_all_iff)
  then have "list_ex fingerprint_line small_lines" by (simp add: small_lines_def)
  moreover have "h264_line (lit ''a=rtpmap:96 H264/90000'')"
    by (simp add: h264_line_def lit_def to_ascii_upper_def suffix_def)
  then have "list_ex h264_line small_lines" by (simp add: small_lines_def)
  moreover have "length (filter media_line small_lines) = 1" "list_ex (\<lambda>l. prefix (lit ''m=video '') l) small_lines"
    by (simp_all add: small_lines_def media_line_def lit_def)
  ultimately show ?thesis by (simp add: sdp_accepted_def)
qed

lemma small_sdp_ok: "is_ok (sanitize_sdp small_sdp)"
proof -
  have l: "sdp_lines small_sdp = small_lines"
    unfolding small_sdp_def by (rule str_lines_join [OF small_lines_clean]) (simp add: small_lines_def)
  have "0 \<notin> set small_fingerprint" using small_fingerprint_bytes by auto
  then have "\<not> list_ex (\<lambda>b. b = 0) small_sdp" "\<not> length small_sdp > 65536"
    using small_fingerprint_bytes(3)
    by (simp_all add: small_sdp_def small_lines_def CRLF_def lit_def list_ex_iff)
  then show ?thesis using l small_lines_accepted by (simp add: sanitize_sdp_def)
qed


theorem fitted_profile_is_valid_witness:
  "\<exists>p'. profile_fit default_profile hd_screen = Ok p' \<and> vp_width p' \<le> 1280 \<and> profile_validate p' = Ok ()"
proof -
  obtain p' where p: "profile_fit default_profile hd_screen = Ok p'"
    by (simp add: profile_fit_def default_profile_def profile_validate_def hd_screen_def rect_valid_def)
  from fitted_profile_is_valid [OF p] p show ?thesis by (auto simp: default_profile_def)
qed

end
