(* ===== verification/Config.thy ===== *)
theory Config
  imports Media_Wire
begin

text \<open>
  The configuration of \<open>rc-agent/src/config.rs\<close> and its media section of \<open>rc-agent/src/media.rs\<close>:
  defaults, validation, and the origin and host checks of the HTTP layer. The \<open>url\<close> crate is the
  parameter \<open>url_parse\<close>. Paths are strings in the Windows syntax.
\<close>

section \<open>Model: socket addresses\<close>

datatype ip_addr = V4 u8 u8 u8 u8 | V6 uuid u32

record socket_addr =
  sa_ip :: ip_addr
  sa_port :: u16

fun is_loopback :: "ip_addr \<Rightarrow> bool" where
  "is_loopback (V4 a _ _ _) \<longleftrightarrow> a = 127"
| "is_loopback (V6 w _) \<longleftrightarrow> w = 1"

definition ipv4_text :: "u8 \<Rightarrow> u8 \<Rightarrow> u8 \<Rightarrow> u8 \<Rightarrow> str" where
  "ipv4_text a b c d = dotted (unat a) (unat b) (unat c) (unat d)"

text \<open>\<open>Display\<close> of an IPv6 address: the first longest run of at least two zero segments is elided.\<close>

fun hex :: "nat \<Rightarrow> str" where
  "hex n = (if n < 16 then [if n < 10 then 0x30 + of_nat n else 0x57 + of_nat n]
     else hex (n div 16) @ hex (n mod 16))"

declare hex.simps [simp del]

definition segments :: "uuid \<Rightarrow> nat list" where
  "segments w = map (\<lambda>i. unat w div 2 ^ (16 * (7 - i)) mod 2 ^ 16) [0..<8]"

text \<open>The scan keeps the longest and the current run of zeros, as start and length.\<close>

definition zero_scan :: "(nat \<times> nat) \<times> (nat \<times> nat) \<Rightarrow> nat \<times> nat \<Rightarrow> (nat \<times> nat) \<times> (nat \<times> nat)" where
  "zero_scan x e = (case (x, e) of ((longest, cur), (i, s)) \<Rightarrow>
     if s = 0 then
       (let cur' = (if snd cur = 0 then (i, 1) else (fst cur, snd cur + 1))
        in (if snd cur' > snd longest then cur' else longest, cur'))
     else (longest, (0, 0)))"

definition segment_text :: "nat list \<Rightarrow> str" where
  "segment_text ss = join_with [0x3A] (map hex ss)"

definition ipv6_text :: "uuid \<Rightarrow> str" where
  "ipv6_text w =
     (let ss = segments w; (start, n) = fst (foldl zero_scan ((0, 0), (0, 0)) (enumerate 0 ss)) in
      if take 5 ss = [0, 0, 0, 0, 0] \<and> ss ! 5 = 0xFFFF
      then lit ''::ffff:'' @ dotted (ss ! 6 div 256) (ss ! 6 mod 256) (ss ! 7 div 256) (ss ! 7 mod 256)
      else if n > 1 then segment_text (take start ss) @ lit ''::'' @ segment_text (drop (start + n) ss)
      else segment_text ss)"

definition socket_text :: "socket_addr \<Rightarrow> str" where
  "socket_text a =
     (case sa_ip a of
        V4 p q r s \<Rightarrow> ipv4_text p q r s @ [0x3A] @ dec (unat (sa_port a))
      | V6 w scope \<Rightarrow> [0x5B] @ ipv6_text w @ (if scope = 0 then [] else [0x25] @ dec (unat scope)) @ lit '']:''
          @ dec (unat (sa_port a)))"

section \<open>Model: the media section\<close>

text \<open>
  \<open>Path::is_absolute\<close>: a drive followed by a separator, or a verbatim, device or network prefix.
\<close>

definition path_is_absolute :: "str \<Rightarrow> bool" where
  "path_is_absolute p =
     (let n = map (\<lambda>b. if b = 0x2F then 0x5C else b) p in
      if prefix [0x5C, 0x5C] n then
        (let r = drop 2 n in prefix [0x3F, 0x5C] r \<or> prefix [0x2E, 0x5C] r
           \<or> (case split_on 0x5C r of server # share # _ \<Rightarrow> server \<noteq> [] \<and> share \<noteq> [] | _ \<Rightarrow> False))
      else length n \<ge> 3 \<and> (0x41 \<le> n ! 0 \<and> n ! 0 \<le> 0x5A \<or> 0x61 \<le> n ! 0 \<and> n ! 0 \<le> 0x7A) \<and> n ! 1 = 0x3A \<and> n ! 2 = 0x5C)"

record media_config =
  mc_enabled :: bool
  mc_allow_control :: bool
  mc_tailnet_ip :: "str option"
  mc_allowed_peer_ips :: "str list"
  mc_min_port :: u16
  mc_max_port :: u16
  mc_helper_path :: "str option"
  mc_profile :: video_profile

definition default_media_config :: media_config where
  "default_media_config =
     \<lparr>mc_enabled = False, mc_allow_control = False, mc_tailnet_ip = None, mc_allowed_peer_ips = [],
      mc_min_port = 50000, mc_max_port = 50010, mc_helper_path = None, mc_profile = default_profile\<rparr>"

definition media_config_validate :: "media_config \<Rightarrow> unit checked" where
  "media_config_validate c =
     (case profile_validate (mc_profile c) of Err e \<Rightarrow> Err e | Ok _ \<Rightarrow>
      if mc_min_port c < 1024 \<or> mc_max_port c < mc_min_port c \<or> mc_max_port c - mc_min_port c > 31
      then Err ''Media UDP range must contain at most 32 ports above 1023''
      else if length (mc_allowed_peer_ips c) > 16 \<or> list_ex (\<lambda>x. \<not> tailnet_ip x) (mc_allowed_peer_ips c)
      then Err ''Media peers must be explicitly listed numeric Tailscale IPv4 addresses''
      else if mc_enabled c \<and> ((case mc_tailnet_ip c of None \<Rightarrow> True | Some x \<Rightarrow> \<not> tailnet_ip x) \<or> mc_allowed_peer_ips c = [])
      then Err ''Enabled media needs company tailnet_ip and allowed_peer_ips''
      else if (case mc_helper_path c of None \<Rightarrow> False | Some p \<Rightarrow> \<not> path_is_absolute p)
      then Err ''Explicit helper_path must be absolute''
      else Ok ())"

section \<open>Model: the configuration\<close>

record url_parts =
  u_scheme :: str
  u_host :: "str option"
  u_username :: str
  u_password :: "str option"
  u_path :: str
  u_query :: "str option"
  u_fragment :: "str option"
  u_port :: "u16 option"

record config =
  bind_addr :: socket_addr
  public_origin :: "str option"
  local_ui_origins :: "str list"
  data_dir :: str
  web_dir :: str
  cfg_max_sessions :: nat
  ring_limit :: nat
  allow_gui_experiments :: bool
  media :: media_config

definition FIXED_UI_ORIGINS :: "str list" where
  "FIXED_UI_ORIGINS =
     [lit ''http://tauri.localhost'', lit ''tauri://localhost'', lit ''http://localhost:1420'', lit ''http://127.0.0.1:1420'']"

text \<open>\<open>base\<close> is the directory for application data.\<close>

definition default_config :: "str \<Rightarrow> config" where
  "default_config base =
     \<lparr>bind_addr = \<lparr>sa_ip = V4 127 0 0 1, sa_port = 3847\<rparr>, public_origin = None,
      local_ui_origins = [lit ''http://tauri.localhost'', lit ''tauri://localhost''],
      data_dir = base @ [0x5C] @ lit ''RemoteCodex'', web_dir = lit ''apps/web/dist'',
      cfg_max_sessions = 8, ring_limit = 8 * 1024 * 1024, allow_gui_experiments = False, media = default_media_config\<rparr>"

definition public_origin_check :: "(str \<Rightarrow> url_parts option) \<Rightarrow> str \<Rightarrow> unit checked" where
  "public_origin_check url_parse s =
     (case url_parse s of None \<Rightarrow> Err ''invalid URL'' | Some u \<Rightarrow>
      if u_scheme u \<noteq> lit ''https'' \<or> u_host u = None \<or> u_username u \<noteq> [] \<or> u_password u \<noteq> None
         \<or> u_path u \<noteq> [0x2F] \<or> u_query u \<noteq> None \<or> u_fragment u \<noteq> None
      then Err ''public_origin must be an exact HTTPS origin'' else Ok ())"

definition config_validate :: "(str \<Rightarrow> url_parts option) \<Rightarrow> config \<Rightarrow> unit checked" where
  "config_validate url_parse c =
     (if \<not> is_loopback (sa_ip (bind_addr c))
      then Err ''Agent must bind to loopback. Configure Tailscale Serve for remote access.''
      else if sa_port (bind_addr c) = 0 then Err ''Management port cannot be zero''
      else if cfg_max_sessions c = 0 \<or> cfg_max_sessions c > 8
      then Err ''max_sessions must be 1..8 for the initial resource budget''
      else if ring_limit c < 32768 \<or> ring_limit c > 8 * 1024 * 1024 then Err ''ring_bytes outside supported bounds''
      else (case (case public_origin c of None \<Rightarrow> Ok () | Some s \<Rightarrow> public_origin_check url_parse s) of
        Err e \<Rightarrow> Err e
      | Ok _ \<Rightarrow>
        if \<not> list_all (\<lambda>x. x \<in> set FIXED_UI_ORIGINS) (local_ui_origins c)
        then Err ''Only the fixed local UI origins are permitted''
        else if allow_gui_experiments c
        then Err ''Legacy allow_gui_experiments flag is not accepted. Use explicit [media] configuration and local source approval.''
        else media_config_validate (media c)))"

definition local_origin :: "config \<Rightarrow> str" where
  "local_origin c = lit ''http://'' @ socket_text (bind_addr c)"

definition origins :: "config \<Rightarrow> str list" where
  "origins c = local_ui_origins c @ [local_origin c]
     @ (case public_origin c of None \<Rightarrow> [] | Some p \<Rightarrow> [trim_end_matches 0x2F p])"

definition origin_allowed :: "config \<Rightarrow> str \<Rightarrow> bool" where
  "origin_allowed c s \<longleftrightarrow> list_ex (\<lambda>v. v = s) (origins c)"

definition host_allowed :: "(str \<Rightarrow> url_parts option) \<Rightarrow> config \<Rightarrow> str \<Rightarrow> bool" where
  "host_allowed url_parse c s =
     (if s = socket_text (bind_addr c) then True
      else (case public_origin c of None \<Rightarrow> False | Some p \<Rightarrow>
        (case url_parse p of None \<Rightarrow> False | Some u \<Rightarrow>
          (let h = (case u_host u of None \<Rightarrow> [] | Some h \<Rightarrow> h);
               authority = (case u_port u of Some p \<Rightarrow> h @ [0x3A] @ dec (unat p) | None \<Rightarrow> h)
           in s = authority))))"

text \<open>\<open>load\<close>: \<open>read\<close> is the content of the file, \<open>parse\<close> the TOML parser.\<close>

definition config_load :: "(str \<Rightarrow> url_parts option) \<Rightarrow> str \<Rightarrow> (str option \<times> (str \<Rightarrow> config option)) option \<Rightarrow> config checked" where
  "config_load url_parse base path =
     (case (case path of
              None \<Rightarrow> Ok (default_config base)
            | Some (read, parse) \<Rightarrow> (case read of None \<Rightarrow> Err ''Read config''
                | Some body \<Rightarrow> (case parse body of None \<Rightarrow> Err ''Parse config'' | Some c \<Rightarrow> Ok c))) of
        Err e \<Rightarrow> Err e
      | Ok c \<Rightarrow> (case config_validate url_parse c of Err e \<Rightarrow> Err e | Ok _ \<Rightarrow> Ok c))"

section \<open>Lemmas\<close>

lemma config_validate_Ok:
  assumes "config_validate up c = Ok ()"
  shows "is_loopback (sa_ip (bind_addr c))" "sa_port (bind_addr c) \<noteq> 0" "1 \<le> cfg_max_sessions c" "cfg_max_sessions c \<le> 8"
    "32768 \<le> ring_limit c" "ring_limit c \<le> 8 * 1024 * 1024" "set (local_ui_origins c) \<subseteq> set FIXED_UI_ORIGINS"
    "\<forall>s. public_origin c = Some s \<longrightarrow> public_origin_check up s = Ok ()" "media_config_validate (media c) = Ok ()"
  using assms by (auto simp: config_validate_def list_all_iff split: if_splits sum.splits option.splits)

lemma default_config_valid: "config_validate up (default_config base) = Ok ()"
  by (simp add: config_validate_def default_config_def FIXED_UI_ORIGINS_def default_media_config_def
      media_config_validate_def profile_validate_def default_profile_def)

section \<open>Properties\<close>

text \<open>C22. A loaded configuration is local: the agent listens on a loopback address and a non-zero port,
  with bounded resources; the origins it accepts are the fixed ones of the desktop shell, its own
  address, and the configured HTTPS origin, compared as whole strings; enabled media is confined to
  canonical tailnet addresses and at most 32 unprivileged ports.\<close>

theorem loaded_config_is_local:
  assumes "config_load up base path = Ok c"
  shows "is_loopback (sa_ip (bind_addr c)) \<and> sa_port (bind_addr c) \<noteq> 0 \<and> 1 \<le> cfg_max_sessions c \<and> cfg_max_sessions c \<le> 8
    \<and> 32768 \<le> ring_limit c \<and> ring_limit c \<le> 8 * 1024 * 1024
    \<and> (origin_allowed c s \<longrightarrow> s \<in> set FIXED_UI_ORIGINS \<or> s = lit ''http://'' @ socket_text (bind_addr c)
        \<or> (\<exists>p u. public_origin c = Some p \<and> s = trim_end_matches 0x2F p \<and> up p = Some u
            \<and> u_scheme u = lit ''https'' \<and> u_username u = [] \<and> u_path u = [0x2F]))
    \<and> (mc_enabled (media c) \<longrightarrow> (\<exists>ip. mc_tailnet_ip (media c) = Some ip \<and> tailnet_ip ip)
        \<and> list_all tailnet_ip (mc_allowed_peer_ips (media c)) \<and> mc_allowed_peer_ips (media c) \<noteq> []
        \<and> 1024 \<le> mc_min_port (media c) \<and> mc_max_port (media c) - mc_min_port (media c) \<le> 31)"
proof -
  have v: "config_validate up c = Ok ()"
    using assms by (auto simp: config_load_def split: sum.splits option.splits prod.splits)
  note k = config_validate_Ok [OF v]
  have o: "s \<in> set FIXED_UI_ORIGINS \<or> s = lit ''http://'' @ socket_text (bind_addr c)
      \<or> (\<exists>p u. public_origin c = Some p \<and> s = trim_end_matches 0x2F p \<and> up p = Some u
            \<and> u_scheme u = lit ''https'' \<and> u_username u = [] \<and> u_path u = [0x2F])" if "origin_allowed c s"
  proof -
    have pub: "\<exists>u. up p = Some u \<and> u_scheme u = lit ''https'' \<and> u_username u = [] \<and> u_path u = [0x2F]"
      if "public_origin c = Some p" for p
      using k(8) that by (auto simp: public_origin_check_def split: option.splits if_splits)
    from that consider "s \<in> set (local_ui_origins c)" | "s = local_origin c"
      | p where "public_origin c = Some p" "s = trim_end_matches 0x2F p"
      by (cases "public_origin c") (auto simp: origin_allowed_def origins_def list_ex_iff)
    then show ?thesis using k(7) pub by cases (auto simp: local_origin_def)
  qed
  have m: "(\<exists>ip. mc_tailnet_ip (media c) = Some ip \<and> tailnet_ip ip)
        \<and> list_all tailnet_ip (mc_allowed_peer_ips (media c)) \<and> mc_allowed_peer_ips (media c) \<noteq> []
        \<and> 1024 \<le> mc_min_port (media c) \<and> mc_max_port (media c) - mc_min_port (media c) \<le> 31" if "mc_enabled (media c)"
    using that k(9)
    by (auto simp: media_config_validate_def list_all_iff list_ex_iff not_less split: sum.splits if_splits option.splits)
  show ?thesis using k o m by blast
qed

theorem loaded_config_is_local_witness:
  "is_loopback (sa_ip (bind_addr (default_config []))) \<and> cfg_max_sessions (default_config []) \<le> 8"
proof -
  have "config_load (\<lambda>_. None) [] None = Ok (default_config [])" by (simp add: config_load_def default_config_valid)
  from loaded_config_is_local [OF this] show ?thesis by blast
qed

end
