(* ===== verification/Media_Manager.thy ===== *)
theory Media_Manager
  imports Auth Config
begin

text \<open>
  The media manager of \<open>rc-agent/src/media.rs\<close>: the sources the local user has approved, the one stream
  that may be active on the host, the checks on the age of a frame, and the layout of the helper.

  The platform's list of sources, the fresh identifiers and the clock are arguments; cancellation
  tokens are numbers as in \<open>Auth\<close>, with a table of their own.
\<close>

section \<open>Model: the manager\<close>

record approved =
  ap_view :: source_view
  ap_local :: local_source
  ap_until :: instant

record active =
  act_id :: uuid
  act_client :: uuid
  act_cancel :: token

record media_manager =
  mm_config :: media_config
  mm_sources :: "(uuid, approved) hmap"
  mm_active :: "active option"
  mm_gui_controlled :: bool
  mm_next_token :: token
  mm_cancelled :: "token list"

definition new_media :: "media_config \<Rightarrow> media_manager" where
  "new_media c = \<lparr>mm_config = c, mm_sources = [], mm_active = None, mm_gui_controlled = False, mm_next_token = 0, mm_cancelled = []\<rparr>"

definition same_source :: "str \<Rightarrow> str \<Rightarrow> local_source \<Rightarrow> bool" where
  "same_source kind handle s \<longleftrightarrow> source_kind (ls_native s) = kind
     \<and> (case source_handle (ls_native s) of Err _ \<Rightarrow> False | Ok h \<Rightarrow> dec (unat h) = handle)"

definition view_of :: "uuid \<Rightarrow> bool \<Rightarrow> local_source \<Rightarrow> source_view" where
  "view_of i control s =
     \<lparr>sv_id = i, sv_generation = 1, sv_geometry_version = lit ''1'', sv_label = ls_label s,
      sv_kind = source_kind (ls_native s), sv_control_allowed = control, sv_rect = ls_rect s\<rparr>"

definition approve ::
    "local_source list option \<Rightarrow> instant \<Rightarrow> uuid \<Rightarrow> str \<Rightarrow> str \<Rightarrow> bool \<Rightarrow> media_manager \<Rightarrow> media_manager \<times> source_view checked" where
  "approve listed now fresh kind handle control m =
     (if \<not> mc_enabled (mm_config m) then (m, Err ''Media is disabled in host configuration'')
      else if control \<and> \<not> mc_allow_control (mm_config m) then (m, Err ''GUI control disabled in configuration'')
      else (case listed of
        None \<Rightarrow> (m, Err ''Source enumeration failed'')
      | Some ss \<Rightarrow>
        (case find (same_source kind handle) ss of
          None \<Rightarrow> (m, Err ''Local source no longer exists'')
        | Some s \<Rightarrow>
          (let kept = hm_retain (\<lambda>_ a. ap_until a > now) (mm_sources m) in
           if hm_len kept \<ge> 16 then (m\<lparr>mm_sources := kept\<rparr>, Err ''At most 16 approved sources'')
           else (let v = view_of fresh control s in
             (m\<lparr>mm_sources := hm_insert fresh \<lparr>ap_view = v, ap_local = s, ap_until = now + secs (8 * 3600)\<rparr> kept\<rparr>, Ok v))))))"

definition view_scope :: "source_view \<Rightarrow> scope" where
  "view_scope v = (if sv_kind v = lit ''window'' then WindowView else DesktopView)"

definition control_scope :: "source_view \<Rightarrow> scope" where
  "control_scope v = (if sv_kind v = lit ''window'' then WindowControl else DesktopControl)"

definition get_source :: "token list \<Rightarrow> instant \<Rightarrow> uuid \<Rightarrow> principal \<Rightarrow> media_manager \<Rightarrow> approved result" where
  "get_source revoked now i p m =
     (if \<not> mc_enabled (mm_config m) then Err MediaUnavailable
      else (case hm_get (mm_sources m) i of
        None \<Rightarrow> Err Forbidden
      | Some s \<Rightarrow>
        if \<not> ap_until s > now then Err Forbidden
        else (case require revoked now p (view_scope (ap_view s)) of Err e \<Rightarrow> Err e | Ok _ \<Rightarrow> Ok s)))"

definition begin_stream ::
    "token list \<Rightarrow> instant \<Rightarrow> uuid \<Rightarrow> principal \<Rightarrow> uuid \<Rightarrow> media_manager \<Rightarrow> media_manager \<times> (uuid \<times> token) result" where
  "begin_stream revoked now fresh p i m =
     (case get_source revoked now i p m of Err e \<Rightarrow> (m, Err e) | Ok _ \<Rightarrow>
      if mm_active m \<noteq> None then (m, Err LeaseBusy)
      else (let t = mm_next_token m in
        (m\<lparr>mm_active := Some \<lparr>act_id = fresh, act_client = p_client p, act_cancel = t\<rparr>, mm_next_token := Suc t\<rparr>, Ok (fresh, t))))"

definition finish_stream :: "uuid \<Rightarrow> media_manager \<Rightarrow> media_manager" where
  "finish_stream i m =
     (case mm_active m of None \<Rightarrow> m | Some a \<Rightarrow> if act_id a = i then m\<lparr>mm_active := None\<rparr> else m)"

definition cancel_active :: "(active \<Rightarrow> bool) \<Rightarrow> media_manager \<Rightarrow> media_manager" where
  "cancel_active P m =
     (case mm_active m of None \<Rightarrow> m | Some a \<Rightarrow> if P a then m\<lparr>mm_cancelled := act_cancel a # mm_cancelled m\<rparr> else m)"

definition cancel_all :: "media_manager \<Rightarrow> media_manager" where
  "cancel_all m = cancel_active (\<lambda>_. True) m"

definition media_revoke_client :: "uuid \<Rightarrow> media_manager \<Rightarrow> media_manager" where
  "media_revoke_client c m = cancel_active (\<lambda>a. act_client a = c) m"

definition clear_sources :: "media_manager \<Rightarrow> media_manager" where
  "clear_sources m = cancel_active (\<lambda>_. True) (m\<lparr>mm_sources := []\<rparr>)"

definition public_sources :: "token list \<Rightarrow> instant \<Rightarrow> principal \<Rightarrow> media_manager \<Rightarrow> source_view list" where
  "public_sources revoked now p m =
     map (ap_view \<circ> snd) (filter (\<lambda>(_, s). ap_until s > now \<and> is_ok (require revoked now p (view_scope (ap_view s)))) (mm_sources m))"

section \<open>Model: frames\<close>

definition helper_control_ready :: "bool \<Rightarrow> capture_state \<Rightarrow> instant \<Rightarrow> instant \<Rightarrow> instant \<Rightarrow> bool" where
  "helper_control_ready control_allowed cs last_encoded last_presented now \<longleftrightarrow>
     control_allowed \<and> cs = Cap_Live \<and> duration_since now last_encoded \<le> millis 500 \<and> duration_since now last_presented \<le> millis 500"

definition capture_age_ms :: "u64 \<Rightarrow> u64 \<Rightarrow> u64 checked" where
  "capture_age_ms now_ms captured =
     (if captured > now_ms then Err ''Captured frame timestamp is in the future''
      else if now_ms - captured > 60000 then Err ''Captured frame age exceeded safety bound''
      else Ok (now_ms - captured))"

section \<open>Model: the helper's layout\<close>

text \<open>
  A path is the list of its components after its root, each a string; \<open>parent\<close> drops the last one.
  The extension of a file name is what follows its last dot, unless the dot comes first.
\<close>

type_synonym path = "str list"

definition extension_of :: "str \<Rightarrow> str option" where
  "extension_of name =
     (let parts = split_on 0x2E name in
      if length parts < 2 \<or> name = lit ''..'' \<or> (length parts = 2 \<and> hd parts = []) then None else Some (last parts))"

definition helper_name :: "path \<Rightarrow> str" where
  "helper_name exe =
     (if exe \<noteq> [] \<and> (case extension_of (last exe) of None \<Rightarrow> False | Some x \<Rightarrow> eq_ignore_ascii_case x (lit ''exe''))
      then lit ''rc-media.exe'' else lit ''rc-media'')"

definition default_helper_from :: "path \<Rightarrow> bool \<Rightarrow> path" where
  "default_helper_from exe packaged =
     (let parent = (if exe = [] then [lit ''.''] else butlast exe) in
      if packaged then parent @ [lit ''media-runtime'', lit ''bin'', helper_name exe] else parent @ [helper_name exe])"

definition bundled_runtime :: "path \<Rightarrow> path option" where
  "bundled_runtime helper =
     (if helper = [] then None
      else (let bin = butlast helper in
        if bin = [] \<or> \<not> eq_ignore_ascii_case (last bin) (lit ''bin'') then None
        else (let runtime = butlast bin in
          if runtime = [] \<or> \<not> eq_ignore_ascii_case (last runtime) (lit ''media-runtime'') then None else Some runtime)))"

section \<open>Lemmas\<close>

definition media_wf :: "media_manager \<Rightarrow> bool" where
  "media_wf m \<longleftrightarrow> hm_wf (mm_sources m) \<and> hm_len (mm_sources m) \<le> 16
     \<and> (\<forall>i s. hm_get (mm_sources m) i = Some s \<longrightarrow> sv_id (ap_view s) = i
          \<and> (sv_control_allowed (ap_view s) \<longrightarrow> mc_allow_control (mm_config m))
          \<and> sv_kind (ap_view s) = source_kind (ls_native (ap_local s)) \<and> sv_rect (ap_view s) = ls_rect (ap_local s))
     \<and> (\<forall>t \<in> set (mm_cancelled m). t < mm_next_token m)
     \<and> (\<forall>a. mm_active m = Some a \<longrightarrow> act_cancel a < mm_next_token m)"

lemma cancel_active_simps [simp]:
  "mm_sources (cancel_active P m) = mm_sources m" "mm_config (cancel_active P m) = mm_config m"
  "mm_active (cancel_active P m) = mm_active m" "mm_next_token (cancel_active P m) = mm_next_token m"
  "mm_gui_controlled (cancel_active P m) = mm_gui_controlled m"
  by (simp_all add: cancel_active_def split: option.splits)

lemma cancel_active_wf: "media_wf m \<Longrightarrow> media_wf (cancel_active P m)"
  unfolding media_wf_def by (auto simp: cancel_active_def split: option.splits)

lemma new_media_wf: "media_wf (new_media c)"
  by (simp add: media_wf_def new_media_def)

lemma approve_wf:
  assumes "media_wf m"
  shows "media_wf (fst (approve listed now fresh kind handle control m))"
proof -
  let ?kept = "hm_retain (\<lambda>_ a. ap_until a > now) (mm_sources m)"
  have k: "hm_get ?kept i = Some s \<Longrightarrow> hm_get (mm_sources m) i = Some s" for i s
    using hm_get_retain_Some assms by (fastforce simp: media_wf_def)
  have l: "hm_len ?kept < 16 \<Longrightarrow> hm_len (hm_insert fresh v ?kept) \<le> 16" for v
    using hm_len_insert_le [of fresh v ?kept] by linarith
  have u: "hm_len ?kept \<le> 16" using assms by (auto simp: media_wf_def intro: order_trans [OF hm_len_retain])
  show ?thesis
    using assms l u
    by (auto simp: media_wf_def approve_def view_of_def Let_def not_le dest: k split: option.splits)
qed

lemma begin_wf: "media_wf m \<Longrightarrow> media_wf (fst (begin_stream revoked now fresh p i m))"
  by (auto simp: media_wf_def begin_stream_def Let_def less_Suc_eq split: sum.splits)

lemma finish_wf: "media_wf m \<Longrightarrow> media_wf (finish_stream i m)"
  by (auto simp: media_wf_def finish_stream_def split: option.splits)

text \<open>What is handed out was approved: the source is listed, unexpired and visible to the principal.\<close>

lemma get_source_Ok:
  "get_source revoked now i p m = Ok s \<longleftrightarrow>
     mc_enabled (mm_config m) \<and> hm_get (mm_sources m) i = Some s \<and> ap_until s > now
     \<and> require revoked now p (view_scope (ap_view s)) = Ok ()"
  by (auto simp: get_source_def split: option.splits sum.splits)

section \<open>Runs\<close>

datatype media_op =
    O_approve "local_source list option" instant uuid str str bool
  | O_begin "token list" instant uuid principal uuid
  | O_finish uuid
  | O_cancel_all
  | O_revoke uuid
  | O_clear
  | O_controlled bool

fun media_apply :: "media_op \<Rightarrow> media_manager \<Rightarrow> media_manager" where
  "media_apply (O_approve listed now fresh kind handle control) m = fst (approve listed now fresh kind handle control m)"
| "media_apply (O_begin revoked now fresh p i) m = fst (begin_stream revoked now fresh p i m)"
| "media_apply (O_finish i) m = finish_stream i m"
| "media_apply O_cancel_all m = cancel_all m"
| "media_apply (O_revoke c) m = media_revoke_client c m"
| "media_apply O_clear m = clear_sources m"
| "media_apply (O_controlled b) m = m\<lparr>mm_gui_controlled := b\<rparr>"

text \<open>The operations that end the stream of a client.\<close>

fun ends_stream_of :: "uuid \<Rightarrow> media_op \<Rightarrow> bool" where
  "ends_stream_of c O_cancel_all = True"
| "ends_stream_of c O_clear = True"
| "ends_stream_of c (O_revoke d) = (d = c)"
| "ends_stream_of c _ = False"

lemma approve_other [simp]:
  "mm_active (fst (approve listed now fresh kind handle control m)) = mm_active m"
  "mm_cancelled (fst (approve listed now fresh kind handle control m)) = mm_cancelled m"
  by (simp_all add: approve_def Let_def split: option.splits)

lemma begin_busy: "mm_active m \<noteq> None \<Longrightarrow> fst (begin_stream revoked now fresh p i m) = m"
  by (simp add: begin_stream_def split: sum.splits)

lemma media_apply_active:
  assumes "mm_active m = Some a" "op \<noteq> O_finish (act_id a)"
  shows "mm_active (media_apply op m) = Some a
    \<and> set (mm_cancelled (media_apply op m)) = set (mm_cancelled m) \<union> (if ends_stream_of (act_client a) op then {act_cancel a} else {})"
  using assms
  by (cases op) (auto simp: begin_busy finish_stream_def cancel_all_def media_revoke_client_def clear_sources_def cancel_active_def)

lemma media_run_active:
  assumes "mm_active m = Some a" "O_finish (act_id a) \<notin> set ops"
  shows "mm_active (fold media_apply ops m) = Some a
    \<and> (act_cancel a \<in> set (mm_cancelled (fold media_apply ops m)) \<longleftrightarrow>
        act_cancel a \<in> set (mm_cancelled m) \<or> list_ex (ends_stream_of (act_client a)) ops)"
  using assms
proof (induction ops arbitrary: m)
  case (Cons op ops)
  have "op \<noteq> O_finish (act_id a)" using Cons.prems(2) by auto
  note step = media_apply_active [OF Cons.prems(1) this]
  then have "mm_active (media_apply op m) = Some a" ..
  moreover have "act_cancel a \<in> set (mm_cancelled (media_apply op m)) \<longleftrightarrow> act_cancel a \<in> set (mm_cancelled m) \<or> ends_stream_of (act_client a) op"
    using step by (simp only: split: if_split) blast
  ultimately show ?case using Cons.IH [of "media_apply op m"] Cons.prems(2) by auto
qed simp

section \<open>Property\<close>

text \<open>C26. One stream owns the media of the host. Once a stream has begun, it stays the active one through any
  later operations other than its own end; every other attempt to begin is refused with \<open>LeaseBusy\<close> (or with the
  reason its source is refused); and its cancellation token is cancelled exactly when an operation that
  ends it was among them: a revocation of its client, a block, or the clearing of the sources.\<close>
theorem media_stream_is_exclusive:
  assumes "media_wf m" "begin_stream revoked now i p src m = (m', Ok (i, t))" "O_finish i \<notin> set ops"
  shows "mm_active (fold media_apply ops m') = Some \<lparr>act_id = i, act_client = p_client p, act_cancel = t\<rparr>
    \<and> (t \<in> set (mm_cancelled (fold media_apply ops m')) \<longleftrightarrow> list_ex (ends_stream_of (p_client p)) ops)
    \<and> snd (begin_stream revoked2 now2 i2 p2 src2 (fold media_apply ops m'))
        = (case get_source revoked2 now2 src2 p2 (fold media_apply ops m') of Err e \<Rightarrow> Err e | Ok _ \<Rightarrow> Err LeaseBusy)"
proof -
  let ?a = "\<lparr>act_id = i, act_client = p_client p, act_cancel = t\<rparr>"
  have m': "mm_active m' = Some ?a" "mm_cancelled m' = mm_cancelled m" "t = mm_next_token m"
    using assms(2) by (auto simp: begin_stream_def Let_def split: sum.splits if_splits)
  have "t \<notin> set (mm_cancelled m)" using assms(1) m'(3) by (auto simp: media_wf_def)
  then show ?thesis
    using media_run_active [OF m'(1), of ops] assms(3) m'(2)
    by (auto simp: begin_stream_def simp del: fold_simps split: sum.splits)
qed

definition small_approved :: approved where
  "small_approved =
     (let s = \<lparr>ls_native = Monitor [] [], ls_label = [], ls_rect = \<lparr>r_left = 0, r_top = 0, r_width = 100, r_height = 100\<rparr>\<rparr>
      in \<lparr>ap_view = view_of 1 True s, ap_local = s, ap_until = secs 100\<rparr>)"

definition small_media :: media_manager where
  "small_media = (new_media (default_media_config\<lparr>mc_enabled := True, mc_allow_control := True\<rparr>))\<lparr>mm_sources := [(1, small_approved)]\<rparr>"

definition media_owner :: principal where
  "media_owner = \<lparr>p_client = 7, p_scopes = [TerminalRead, DesktopView, DesktopControl], p_expires = secs 60, p_revoked = 0\<rparr>"

lemma small_media_wf: "media_wf small_media"
  by (simp add: media_wf_def small_media_def new_media_def small_approved_def Let_def view_of_def hm_wf_def)

definition small_stream :: media_manager where
  "small_stream = small_media\<lparr>mm_active := Some \<lparr>act_id = 5, act_client = 7, act_cancel = 0\<rparr>, mm_next_token := 1\<rparr>"

lemma small_media_begin: "begin_stream [] 0 5 media_owner 1 small_media = (small_stream, Ok (5, 0))"
  by (simp add: small_stream_def begin_stream_def get_source_def require_def small_media_def new_media_def small_approved_def media_owner_def
      view_of_def view_scope_def Let_def secs_def lit_def)

theorem media_stream_is_exclusive_witness:
  "snd (begin_stream [] 0 5 media_owner 1 small_media) = Ok (5, 0)
   \<and> 0 \<in> set (mm_cancelled (fold media_apply [O_revoke 8, O_revoke 7] small_stream))
   \<and> 0 \<notin> set (mm_cancelled (fold media_apply [O_revoke 8] small_stream))"
  using media_stream_is_exclusive [OF small_media_wf small_media_begin, of "[O_revoke 8, O_revoke 7]"]
    media_stream_is_exclusive [OF small_media_wf small_media_begin, of "[O_revoke 8]"] small_media_begin
  by (simp add: media_owner_def)

end
