(* ===== verification/Gui_Input.thy ===== *)
theory Gui_Input
  imports Media_Wire
begin

text \<open>
  The input backend of \<open>rc-platform-windows/src/gui_input.rs\<close> with the safety flags of
  \<open>gui_session.rs\<close>. The backend checks the desktop before it injects, remembers the keys and
  buttons it has pressed, and releases them when it is disarmed.

  Windows is the record \<open>os\<close> of what it answers at each of our numbered observations. Local input
  is seen when the thread pumps messages, which it does in \<open>allowed\<close>: \<open>os_revokes i\<close> says whether the
  flags are revoked at observation \<open>i\<close>, by a hook or by another thread.

  Every attempt to inject is logged with its success and with the flags at that moment.
\<close>

section \<open>Model: state\<close>

record safety =
  closed :: bool
  armed :: bool
  revision :: u64

definition default_safety :: safety where
  "default_safety = \<lparr>closed = False, armed = False, revision = 0\<rparr>"

text \<open>\<open>Safety::revoke\<close>; \<open>fetch_add\<close> wraps.\<close>

definition sf_revoke :: "safety \<Rightarrow> safety" where
  "sf_revoke s = s\<lparr>armed := False, revision := revision s + 1\<rparr>"

datatype input_event =
    Ev_move int int
  | Ev_button u8 bool
  | Ev_wheel i32
  | Ev_key u16 bool bool
  | Ev_unicode u16 bool

record injection =
  i_event :: input_event
  i_inserted :: bool
  i_flags :: safety

record os =
  os_now :: "nat \<Rightarrow> instant"
  os_desktop_ok :: "nat \<Rightarrow> bool"
  os_source :: "nat \<Rightarrow> rect option"
  os_virtual :: "nat \<Rightarrow> rect option"
  os_foreground :: "nat \<Rightarrow> u64"
  os_integrity :: "nat \<Rightarrow> u64 \<Rightarrow> bool"
  os_root_at :: "nat \<Rightarrow> i32 \<times> i32 \<Rightarrow> u64"
  os_inserts :: "nat \<Rightarrow> nat"
  os_revokes :: "nat \<Rightarrow> bool"

record backend =
  b_source :: local_source
  b_desktop :: rect
  b_last_frame :: instant
  b_keys :: "(u16 \<times> bool) list"
  b_buttons :: "u8 list"
  b_enabled :: bool

record gui =
  backend :: backend
  flags :: safety
  log :: "injection list"
  seen :: nat

definition new_backend :: "local_source \<Rightarrow> rect \<Rightarrow> instant \<Rightarrow> backend" where
  "new_backend src desk now =
     \<lparr>b_source = src, b_desktop = desk, b_last_frame = now - secs 5, b_keys = [], b_buttons = [], b_enabled = False\<rparr>"

text \<open>The next observation.\<close>

definition look :: "gui \<Rightarrow> gui" where
  "look g = g\<lparr>seen := Suc (seen g)\<rparr>"

section \<open>Model: injecting\<close>

text \<open>\<open>SendInput\<close> inserts a prefix of the events; anything but all of them is a failure.\<close>

definition send_input :: "os \<Rightarrow> input_event list \<Rightarrow> gui \<Rightarrow> gui \<times> bool" where
  "send_input w es g =
     (let n = os_inserts w (seen g);
          entries = map (\<lambda>(k, e). \<lparr>i_event = e, i_inserted = (k < n), i_flags = flags g\<rparr>) (enumerate 0 es)
      in (look (g\<lparr>log := log g @ entries\<rparr>), length es \<le> n))"

definition button_ok :: "u8 \<Rightarrow> bool" where
  "button_ok b \<longleftrightarrow> b \<le> 2"

definition release_injected :: "os \<Rightarrow> gui \<Rightarrow> gui" where
  "release_injected w g =
     (let g1 = foldl (\<lambda>g (scan, ext). fst (send_input w [Ev_key scan ext False] g)) g (b_keys (backend g));
          g2 = foldl (\<lambda>g b. if button_ok b then fst (send_input w [Ev_button b False] g) else g) g1 (b_buttons (backend g))
      in g2\<lparr>backend := (backend g2)\<lparr>b_keys := [], b_buttons := []\<rparr>\<rparr>)"

definition be_disarm :: "os \<Rightarrow> gui \<Rightarrow> gui" where
  "be_disarm w g = release_injected w (g\<lparr>backend := (backend g)\<lparr>b_enabled := False\<rparr>\<rparr>)"

definition be_frame :: "os \<Rightarrow> gui \<Rightarrow> gui" where
  "be_frame w g = look (g\<lparr>backend := (backend g)\<lparr>b_last_frame := os_now w (seen g)\<rparr>\<rparr>)"

text \<open>A window source must be the given window; its handle is parsed again.\<close>

definition is_target :: "native_source \<Rightarrow> u64 \<Rightarrow> bool" where
  "is_target src h =
     (case src of
        Window hnd _ _ \<Rightarrow> (case parse_uint (2 ^ 64) hnd of None \<Rightarrow> False | Some n \<Rightarrow> h = of_nat n)
      | Monitor _ _ \<Rightarrow> True)"

definition be_check :: "os \<Rightarrow> gui \<Rightarrow> gui \<times> bool" where
  "be_check w g =
     (let i = seen g; b = backend g in
      (look g,
       if duration_since (os_now w i) (b_last_frame b) > millis 500 \<or> \<not> os_desktop_ok w i then False
       else if os_source w i \<noteq> Some (ls_rect (b_source b)) \<or> os_virtual w i \<noteq> Some (b_desktop b) then False
       else if os_foreground w i = 0 then False
       else if \<not> is_target (ls_native (b_source b)) (os_foreground w i) then False
       else os_integrity w i (os_foreground w i)))"

definition be_arm :: "os \<Rightarrow> gui \<Rightarrow> gui \<times> bool" where
  "be_arm w g =
     (case be_check w g of (g1, ok) \<Rightarrow>
        if ok then (g1\<lparr>backend := (backend g1)\<lparr>b_enabled := True\<rparr>\<rparr>, True) else (g1, False))"

definition check_live :: "os \<Rightarrow> gui \<Rightarrow> gui \<times> bool" where
  "check_live w g = (case be_check w g of (g1, ok) \<Rightarrow> if ok then (g1, True) else (be_disarm w g1, False))"

text \<open>The closure \<open>allowed\<close> of an action with the given epoch: the messages are pumped, then the flags are read.\<close>

definition pump :: "os \<Rightarrow> gui \<Rightarrow> gui" where
  "pump w g = look (if os_revokes w (seen g) then g\<lparr>flags := sf_revoke (flags g)\<rparr> else g)"

definition live_epoch :: "u64 \<Rightarrow> safety \<Rightarrow> bool" where
  "live_epoch e s \<longleftrightarrow> armed s \<and> revision s = e \<and> \<not> closed s"

definition allowed :: "os \<Rightarrow> u64 \<Rightarrow> gui \<Rightarrow> gui \<times> bool" where
  "allowed w e g = (let g1 = pump w g in (g1, live_epoch e (flags g1)))"

definition move_to :: "os \<Rightarrow> f64 \<Rightarrow> f64 \<Rightarrow> gui \<Rightarrow> gui \<times> bool" where
  "move_to w x y g =
     (case rect_map (ls_rect (b_source (backend g))) x y of
        Err _ \<Rightarrow> (g, False)
      | Ok (px, py) \<Rightarrow>
        (let h = os_root_at w (seen g) (px, py); ok = os_integrity w (seen g) h; g1 = look g in
         if h = 0 \<or> \<not> ok \<or> \<not> is_target (ls_native (b_source (backend g1))) h then (g1, False)
         else (case rect_absolute (b_desktop (backend g1)) px py of
           Err _ \<Rightarrow> (g1, False)
         | Ok (ax, ay) \<Rightarrow> send_input w [Ev_move ax ay] g1)))"

section \<open>Model: actions\<close>

text \<open>\<open>str::encode_utf16\<close> of a string given by its UTF-8 bytes.\<close>

definition utf16_of :: "nat \<Rightarrow> u16 list" where
  "utf16_of c = (if c < 0x10000 then [of_nat c]
     else [of_nat (0xD800 + (c - 0x10000) div 0x400), of_nat (0xDC00 + (c - 0x10000) mod 0x400)])"

fun encode_utf16 :: "str \<Rightarrow> u16 list" where
  "encode_utf16 [] = []"
| "encode_utf16 (a # r) =
     (if a < 0x80 then utf16_of (unat a) @ encode_utf16 r
      else if a < 0xE0 then (case r of
          b # r' \<Rightarrow> utf16_of ((unat a mod 32) * 64 + unat b mod 64) @ encode_utf16 r' | _ \<Rightarrow> [])
      else if a < 0xF0 then (case r of
          b # c # r' \<Rightarrow> utf16_of ((unat a mod 16) * 4096 + (unat b mod 64) * 64 + unat c mod 64) @ encode_utf16 r' | _ \<Rightarrow> [])
      else (case r of
          b # c # d # r' \<Rightarrow> utf16_of ((unat a mod 8) * 262144 + (unat b mod 64) * 4096 + (unat c mod 64) * 64 + unat d mod 64)
            @ encode_utf16 r' | _ \<Rightarrow> []))"

text \<open>The loop over the units of a text.\<close>

fun type_units :: "os \<Rightarrow> u64 \<Rightarrow> u16 list \<Rightarrow> gui \<Rightarrow> gui \<times> bool" where
  "type_units w e [] g = (g, True)"
| "type_units w e (c # cs) g =
     (case allowed w e g of (g1, ok) \<Rightarrow>
      if \<not> ok then (g1, False)
      else (case check_live w g1 of (g2, live) \<Rightarrow>
        if \<not> live then (g2, False)
        else (case send_input w [Ev_unicode c True, Ev_unicode c False] g2 of (g3, sent) \<Rightarrow>
          if \<not> sent then (fst (send_input w [Ev_unicode c False] g3), False)
          else type_units w e cs g3)))"

definition set_keys :: "((u16 \<times> bool) list \<Rightarrow> (u16 \<times> bool) list) \<Rightarrow> gui \<Rightarrow> gui" where
  "set_keys f g = g\<lparr>backend := (backend g)\<lparr>b_keys := f (b_keys (backend g))\<rparr>\<rparr>"

definition set_buttons :: "(u8 list \<Rightarrow> u8 list) \<Rightarrow> gui \<Rightarrow> gui" where
  "set_buttons f g = g\<lparr>backend := (backend g)\<lparr>b_buttons := f (b_buttons (backend g))\<rparr>\<rparr>"

text \<open>A step that runs only when the pointer could be moved and the action is still allowed.\<close>

definition after_move :: "os \<Rightarrow> u64 \<Rightarrow> f64 \<Rightarrow> f64 \<Rightarrow> (gui \<Rightarrow> gui \<times> bool) \<Rightarrow> gui \<Rightarrow> gui \<times> bool" where
  "after_move w e x y f g =
     (case move_to w x y g of (g1, moved) \<Rightarrow>
      if \<not> moved then (g1, False)
      else (case allowed w e g1 of (g2, ok) \<Rightarrow> if \<not> ok then (g2, False) else f g2))"

fun act :: "os \<Rightarrow> u64 \<Rightarrow> gui_action \<Rightarrow> gui \<Rightarrow> gui \<times> bool" where
  "act w e (Act_Move x y) g = move_to w x y g"
| "act w e (Act_Button x y b down) g =
     after_move w e x y (\<lambda>g.
       if \<not> button_ok b then (g, False)
       else (case send_input w [Ev_button b down] g of (g1, sent) \<Rightarrow>
         if \<not> sent then (g1, False)
         else (set_buttons (if down then List.insert b else removeAll b) g1, True))) g"
| "act w e (Act_Wheel x y delta) g = after_move w e x y (send_input w [Ev_wheel delta]) g"
| "act w e (Act_Key scan ext down) g =
     (if down \<and> scan = 83 \<and> ext \<and> list_ex (\<lambda>k. fst k = 29) (b_keys (backend g)) \<and> list_ex (\<lambda>k. fst k = 56) (b_keys (backend g))
      then (g, False)
      else (case allowed w e g of (g1, ok) \<Rightarrow>
        if \<not> ok then (g1, False)
        else (case send_input w [Ev_key scan ext down] g1 of (g2, sent) \<Rightarrow>
          if \<not> sent then (g2, False)
          else (set_keys (if down then List.insert (scan, ext) else removeAll (scan, ext)) g2, True))))"
| "act w e (Act_Text txt) g = type_units w e (encode_utf16 txt) g"

definition be_apply :: "os \<Rightarrow> u64 \<Rightarrow> gui_action \<Rightarrow> gui \<Rightarrow> gui \<times> bool" where
  "be_apply w e a g =
     (if \<not> b_enabled (backend g) then (g, False)
      else (case allowed w e g of (g1, ok) \<Rightarrow>
        if \<not> ok then (g1, False)
        else if \<not> is_ok (action_validate a) then (g1, False)
        else (case check_live w g1 of (g2, live) \<Rightarrow>
          if \<not> live then (g2, False)
          else (case act w e a g2 of (g3, ok3) \<Rightarrow> if ok3 then (g3, True) else (be_disarm w g3, False)))))"

section \<open>Invariant: what is owed a release\<close>

datatype held = HKey u16 bool | HBtn u8

fun press_of :: "input_event \<Rightarrow> (held \<times> bool) option" where
  "press_of (Ev_key s e d) = Some (HKey s e, d)"
| "press_of (Ev_button b d) = Some (HBtn b, d)"
| "press_of _ = None"

text \<open>A key or button that was pressed is owed a release until one is attempted.\<close>

definition owed_step :: "held set \<Rightarrow> injection \<Rightarrow> held set" where
  "owed_step S i =
     (case press_of (i_event i) of None \<Rightarrow> S
      | Some (k, True) \<Rightarrow> if i_inserted i then insert k S else S
      | Some (k, False) \<Rightarrow> S - {k})"

definition owed :: "injection list \<Rightarrow> held set" where
  "owed l = foldl owed_step {} l"

definition held_by :: "backend \<Rightarrow> held set" where
  "held_by b = (\<lambda>(s, e). HKey s e) ` set (b_keys b) \<union> HBtn ` set (b_buttons b)"

definition gui_ok :: "gui \<Rightarrow> bool" where
  "gui_ok g \<longleftrightarrow> owed (log g) \<subseteq> held_by (backend g) \<and> list_all button_ok (b_buttons (backend g))
     \<and> (\<not> b_enabled (backend g) \<longrightarrow> owed (log g) = {} \<and> held_by (backend g) = {})"

text \<open>What a step adds to the log: releases, and events injected under the flags of the epoch.\<close>

fun is_release :: "input_event \<Rightarrow> bool" where
  "is_release (Ev_key _ _ d) = (\<not> d)"
| "is_release (Ev_button _ d) = (\<not> d)"
| "is_release (Ev_unicode _ d) = (\<not> d)"
| "is_release _ = False"

definition adds :: "u64 \<Rightarrow> gui \<Rightarrow> gui \<Rightarrow> bool" where
  "adds e g g' \<longleftrightarrow> (\<exists>new. log g' = log g @ new \<and> (\<forall>i \<in> set new. is_release (i_event i) \<or> live_epoch e (i_flags i)))"

section \<open>Lemmas\<close>

lemma look_simps [simp]: "backend (look g) = backend g" "flags (look g) = flags g" "log (look g) = log g"
  by (simp_all add: look_def)

lemma pump_simps [simp]: "backend (pump w g) = backend g" "log (pump w g) = log g"
  by (simp_all add: pump_def)

lemma send_input_simps [simp]:
  "backend (fst (send_input w es g)) = backend g" "flags (fst (send_input w es g)) = flags g"
  by (simp_all add: send_input_def Let_def)

lemma send_input_one:
  "log (fst (send_input w [e] g)) = log g @ [\<lparr>i_event = e, i_inserted = (0 < os_inserts w (seen g)), i_flags = flags g\<rparr>]"
  "snd (send_input w [e] g) \<longleftrightarrow> 0 < os_inserts w (seen g)"
  by (auto simp: send_input_def Let_def)

lemma owed_snoc [simp]: "owed (l @ [i]) = owed_step (owed l) i"
  by (simp add: owed_def)

lemma owed_append_none: "(\<forall>i \<in> set new. press_of (i_event i) = None) \<Longrightarrow> owed (l @ new) = owed l"
proof (induction new rule: rev_induct)
  case (snoc i new)
  then have "owed ((l @ new) @ [i]) = owed l" by (simp add: owed_step_def del: append_assoc)
  then show ?case by simp
qed simp

lemma owed_send_release:
  "press_of e = Some (k, False) \<Longrightarrow> owed (log (fst (send_input w [e] g))) = owed (log g) - {k}"
  by (simp add: send_input_one owed_step_def)

lemma release_keys:
  "owed (log (foldl (\<lambda>g (s, x). fst (send_input w [Ev_key s x False] g)) g ks)) = owed (log g) - (\<lambda>(s, x). HKey s x) ` set ks
   \<and> backend (foldl (\<lambda>g (s, x). fst (send_input w [Ev_key s x False] g)) g ks) = backend g
   \<and> flags (foldl (\<lambda>g (s, x). fst (send_input w [Ev_key s x False] g)) g ks) = flags g"
  by (induction ks arbitrary: g) (auto simp: owed_send_release)

lemma release_buttons:
  "list_all button_ok bs \<Longrightarrow>
   owed (log (foldl (\<lambda>g b. if button_ok b then fst (send_input w [Ev_button b False] g) else g) g bs)) = owed (log g) - HBtn ` set bs
   \<and> backend (foldl (\<lambda>g b. if button_ok b then fst (send_input w [Ev_button b False] g) else g) g bs) = backend g"
  by (induction bs arbitrary: g) (auto simp: owed_send_release)

lemma release_buttons_flags:
  "flags (foldl (\<lambda>g b. if button_ok b then fst (send_input w [Ev_button b False] g) else g) g bs) = flags g"
  by (induction bs arbitrary: g) auto

lemma disarm_clears:
  assumes "owed (log g) \<subseteq> held_by (backend g)" "list_all button_ok (b_buttons (backend g))"
  shows "owed (log (be_disarm w g)) = {}" "gui_ok (be_disarm w g)"
    "b_enabled (backend (be_disarm w g)) = False" "held_by (backend (be_disarm w g)) = {}"
proof -
  let ?g = "g\<lparr>backend := (backend g)\<lparr>b_enabled := False\<rparr>\<rparr>"
  let ?g1 = "foldl (\<lambda>g (s, x). fst (send_input w [Ev_key s x False] g)) ?g (b_keys (backend ?g))"
  let ?g2 = "foldl (\<lambda>g b. if button_ok b then fst (send_input w [Ev_button b False] g) else g) ?g1 (b_buttons (backend ?g))"
  have d: "be_disarm w g = ?g2\<lparr>backend := (backend ?g2)\<lparr>b_keys := [], b_buttons := []\<rparr>\<rparr>"
    by (simp add: be_disarm_def release_injected_def Let_def)
  have k: "owed (log ?g1) = owed (log g) - (\<lambda>(s, x). HKey s x) ` set (b_keys (backend g))" "backend ?g1 = backend ?g"
    using release_keys [of w ?g "b_keys (backend ?g)"] by simp_all
  have b: "owed (log ?g2) = owed (log ?g1) - HBtn ` set (b_buttons (backend g))" "backend ?g2 = backend ?g"
    using release_buttons [of "b_buttons (backend ?g)" w ?g1] assms(2) k(2) by simp_all
  show e: "owed (log (be_disarm w g)) = {}" using assms(1) k b by (auto simp: d held_by_def)
  show f: "b_enabled (backend (be_disarm w g)) = False" "held_by (backend (be_disarm w g)) = {}"
    unfolding d by (use b(2) in \<open>simp_all add: held_by_def\<close>)
  show "gui_ok (be_disarm w g)" using e f by (simp add: gui_ok_def) (simp add: d)
qed

lemma disarm_flags [simp]: "flags (be_disarm w g) = flags g"
  using release_keys by (simp add: be_disarm_def release_injected_def Let_def release_buttons_flags)

lemma gui_ok_disarm: "gui_ok g \<Longrightarrow> gui_ok (be_disarm w g)"
  using disarm_clears(2) [of g w] by (simp add: gui_ok_def)

lemma gui_ok_same: "backend g' = backend g \<Longrightarrow> log g' = log g \<Longrightarrow> gui_ok g' = gui_ok g"
  by (simp add: gui_ok_def)

lemma gui_ok_views [simp]: "gui_ok (look g) = gui_ok g" "gui_ok (pump w g) = gui_ok g"
  by (simp_all add: gui_ok_def)

lemma gui_ok_plain_send:
  "gui_ok g \<Longrightarrow> \<forall>e \<in> set es. press_of e = None \<Longrightarrow> gui_ok (fst (send_input w es g))"
proof -
  assume g: "gui_ok g" and es: "\<forall>e \<in> set es. press_of e = None"
  have "owed (log (fst (send_input w es g))) = owed (log g)"
    unfolding send_input_def Let_def fst_conv look_simps
    using es by (simp, intro owed_append_none) (auto simp: in_set_enumerate_eq)
  with g show ?thesis by (simp add: gui_ok_def)
qed

lemma be_check_simps [simp]:
  "backend (fst (be_check w g)) = backend g" "log (fst (be_check w g)) = log g" "flags (fst (be_check w g)) = flags g"
  by (simp_all add: be_check_def Let_def)

lemma gui_ok_check: "gui_ok g \<Longrightarrow> gui_ok (fst (be_check w g))"
  by (simp add: be_check_def Let_def)

lemma check_live_ok:
  assumes "gui_ok g" "check_live w g = (g', r)"
  shows "gui_ok g' \<and> flags g' = flags g \<and> (r \<longrightarrow> backend g' = backend g)"
  using assms gui_ok_check [OF assms(1), of w] gui_ok_disarm be_check_simps [of w g]
  by (cases "be_check w g") (auto simp: check_live_def split: if_splits)

lemma allowed_ok:
  assumes "gui_ok g" "allowed w e g = (g', r)"
  shows "gui_ok g' \<and> backend g' = backend g \<and> log g' = log g \<and> (r \<longleftrightarrow> live_epoch e (flags g'))"
  using assms by (auto simp: allowed_def Let_def)

lemma move_to_ok:
  assumes "gui_ok g" "move_to w x y g = (g', r)"
  shows "gui_ok g' \<and> flags g' = flags g \<and> backend g' = backend g"
proof -
  have s: "gui_ok (fst (send_input w [Ev_move a b] (look g)))" for a b
    using assms(1) by (intro gui_ok_plain_send) simp_all
  have s': "send_input w [Ev_move a b] (look g) = (g', r) \<Longrightarrow> gui_ok g' \<and> flags g' = flags g \<and> backend g' = backend g" for a b
    using s [of a b] send_input_simps [of w "[Ev_move a b]" "look g"] by simp
  show ?thesis
    using assms s'
    by (auto simp: move_to_def Let_def split: sum.splits prod.splits if_splits)
qed

lemma type_units_ok:
  "gui_ok g \<Longrightarrow> type_units w e cs g = (g', r) \<Longrightarrow> gui_ok g' \<and> (r \<longrightarrow> backend g' = backend g)"
proof (induction cs arbitrary: g)
  case (Cons c cs)
  obtain g1 ok where a: "allowed w e g = (g1, ok)" by fastforce
  obtain g2 live where l: "check_live w g1 = (g2, live)" by fastforce
  obtain g3 sent where s: "send_input w [Ev_unicode c True, Ev_unicode c False] g2 = (g3, sent)" by fastforce
  have 1: "gui_ok g1" "backend g1 = backend g" using allowed_ok [OF Cons.prems(1) a] by auto
  have 2: "gui_ok g2" "live \<longrightarrow> backend g2 = backend g" using check_live_ok [OF 1(1) l] 1 by auto
  have 3: "gui_ok g3" "backend g3 = backend g2"
    using gui_ok_plain_send [OF 2(1), of "[Ev_unicode c True, Ev_unicode c False]" w] s
      send_input_simps [of w "[Ev_unicode c True, Ev_unicode c False]" g2] by auto
  have 4: "gui_ok (fst (send_input w [Ev_unicode c False] g3))" using 3 by (intro gui_ok_plain_send) auto
  show ?case
    using Cons.prems(2) a l s 1 2 3 4 Cons.IH [OF 3(1)] by (auto split: if_splits)
qed simp

text \<open>A press that was inserted is remembered, a release is forgotten.\<close>

lemma key_sent_ok:
  assumes "gui_ok g" "b_enabled (backend g)" "send_input w [Ev_key s x d] g = (g', sent)"
  shows "gui_ok g' \<or> sent" "sent \<Longrightarrow> gui_ok (set_keys (if d then List.insert (s, x) else removeAll (s, x)) g')"
    "b_enabled (backend g')"
proof -
  have l: "log g' = log g @ [\<lparr>i_event = Ev_key s x d, i_inserted = sent, i_flags = flags g\<rparr>]" and b: "backend g' = backend g"
    using assms(3) send_input_one [of w "Ev_key s x d" g] send_input_simps [of w "[Ev_key s x d]" g] by auto
  have o: "owed (log g') = (if d then (if sent then insert (HKey s x) (owed (log g)) else owed (log g)) else owed (log g) - {HKey s x})"
    by (simp add: l owed_step_def)
  show "gui_ok g' \<or> sent" "sent \<Longrightarrow> gui_ok (set_keys (if d then List.insert (s, x) else removeAll (s, x)) g')" "b_enabled (backend g')"
    using assms(1,2) o b by (auto simp: gui_ok_def set_keys_def held_by_def)
qed

lemma button_sent_ok:
  assumes "gui_ok g" "b_enabled (backend g)" "button_ok b" "send_input w [Ev_button b d] g = (g', sent)"
  shows "gui_ok g' \<or> sent" "sent \<Longrightarrow> gui_ok (set_buttons (if d then List.insert b else removeAll b) g')" "b_enabled (backend g')"
proof -
  have l: "log g' = log g @ [\<lparr>i_event = Ev_button b d, i_inserted = sent, i_flags = flags g\<rparr>]" and bk: "backend g' = backend g"
    using assms(4) send_input_one [of w "Ev_button b d" g] send_input_simps [of w "[Ev_button b d]" g] by auto
  have o: "owed (log g') = (if d then (if sent then insert (HBtn b) (owed (log g)) else owed (log g)) else owed (log g) - {HBtn b})"
    by (simp add: l owed_step_def)
  show "gui_ok g' \<or> sent" "sent \<Longrightarrow> gui_ok (set_buttons (if d then List.insert b else removeAll b) g')" "b_enabled (backend g')"
    using assms(1-3) o bk by (auto simp: gui_ok_def set_buttons_def held_by_def list_all_iff split: if_splits)
qed

lemma act_ok:
  assumes "gui_ok g" "b_enabled (backend g)" "act w e a g = (g', r)"
  shows "gui_ok g'"
proof (cases a)
  case (Act_Move x y)
  then show ?thesis using move_to_ok [OF assms(1), of w x y g' r] assms(3) by simp
next
  case (Act_Button x y b d)
  obtain g1 moved where m: "move_to w x y g = (g1, moved)" by fastforce
  obtain g2 ok where al: "allowed w e g1 = (g2, ok)" by fastforce
  obtain g3 sent where s: "send_input w [Ev_button b d] g2 = (g3, sent)" by fastforce
  have 1: "gui_ok g1" "backend g1 = backend g" using move_to_ok [OF assms(1) m] by auto
  have 2: "gui_ok g2" "backend g2 = backend g" using allowed_ok [OF 1(1) al] 1 by auto
  show ?thesis
    using assms(3) Act_Button m al s 1 2 button_sent_ok [OF 2(1) _ _ s] assms(2)
    by (auto simp: after_move_def split: if_splits)
next
  case (Act_Wheel x y delta)
  obtain g1 moved where m: "move_to w x y g = (g1, moved)" by fastforce
  obtain g2 ok where al: "allowed w e g1 = (g2, ok)" by fastforce
  have 1: "gui_ok g1" using move_to_ok [OF assms(1) m] by auto
  have 2: "gui_ok g2" using allowed_ok [OF 1 al] by auto
  have 3: "gui_ok (fst (send_input w [Ev_wheel delta] g2))" using 2 by (intro gui_ok_plain_send) auto
  show ?thesis using assms(3) Act_Wheel m al 1 2 3 by (auto simp: after_move_def split: if_splits)
next
  case (Act_Key s x d)
  obtain g1 ok where al: "allowed w e g = (g1, ok)" by fastforce
  obtain g2 sent where sd: "send_input w [Ev_key s x d] g1 = (g2, sent)" by fastforce
  have 1: "gui_ok g1" "backend g1 = backend g" using allowed_ok [OF assms(1) al] by auto
  show ?thesis
    using assms Act_Key al sd 1 key_sent_ok [OF 1(1) _ sd] by (auto split: if_splits)
next
  case (Act_Text body)
  then show ?thesis using type_units_ok [OF assms(1), of w e "encode_utf16 body" g' r] assms(3) by simp
qed

lemma be_apply_ok:
  assumes "gui_ok g" "be_apply w e a g = (g', r)"
  shows "gui_ok g'"
proof -
  obtain g1 ok where al: "allowed w e g = (g1, ok)" by fastforce
  obtain g2 live where l: "check_live w g1 = (g2, live)" by fastforce
  obtain g3 ok3 where ac: "act w e a g2 = (g3, ok3)" by fastforce
  have 1: "gui_ok g1" "backend g1 = backend g" using allowed_ok [OF assms(1) al] by auto
  have 2: "gui_ok g2" "live \<longrightarrow> backend g2 = backend g" using check_live_ok [OF 1(1) l] 1 by auto
  show ?thesis
    using assms al l ac 1 2 act_ok [OF 2(1) _ ac] gui_ok_disarm
    by (auto simp: be_apply_def split: if_splits)
qed

section \<open>Lemmas: what is injected, and when\<close>

lemma adds_refl [simp]: "adds e g g"
  by (simp add: adds_def)

lemma adds_same: "log g' = log g \<Longrightarrow> adds e g g'"
  by (simp add: adds_def)

lemma adds_trans: "adds e g h \<Longrightarrow> adds e h k \<Longrightarrow> adds e g k"
  by (fastforce simp: adds_def)

lemma adds_from_same: "adds e g h \<Longrightarrow> log g' = log g \<Longrightarrow> adds e g' h"
  by (simp add: adds_def)

lemma adds_send:
  "live_epoch e (flags g) \<or> (\<forall>x \<in> set es. is_release x) \<Longrightarrow> adds e g (fst (send_input w es g))"
  by (force simp: adds_def send_input_def Let_def in_set_enumerate_eq)

lemma adds_release_fold:
  "(\<And>x g. adds e g (f g x)) \<Longrightarrow> adds e g (foldl f g xs)"
  by (induction xs arbitrary: g) (auto intro: adds_trans)

lemma adds_disarm: "adds e g (be_disarm w g)"
proof -
  let ?g = "g\<lparr>backend := (backend g)\<lparr>b_enabled := False\<rparr>\<rparr>"
  let ?g1 = "foldl (\<lambda>g (s, x). fst (send_input w [Ev_key s x False] g)) ?g (b_keys (backend ?g))"
  have 1: "adds e ?g ?g1" by (rule adds_release_fold) (auto intro: adds_send split: prod.splits)
  have "adds e ?g1 (foldl (\<lambda>g b. if button_ok b then fst (send_input w [Ev_button b False] g) else g) ?g1 (b_buttons (backend ?g)))"
    by (rule adds_release_fold) (auto intro: adds_send)
  from adds_trans [OF 1 this] show ?thesis
    by (simp add: be_disarm_def release_injected_def Let_def adds_def)
qed

lemma adds_check_live: "check_live w g = (g', r) \<Longrightarrow> adds e g g' \<and> flags g' = flags g"
  using adds_disarm [of e "fst (be_check w g)" w] be_check_simps [of w g]
  by (cases "be_check w g") (auto simp: check_live_def intro: adds_same adds_from_same split: if_splits)

lemma adds_allowed: "allowed w e g = (g', r) \<Longrightarrow> adds e g g' \<and> (r \<longrightarrow> live_epoch e (flags g'))"
  by (auto simp: allowed_def Let_def intro: adds_same)

lemma adds_move:
  assumes "live_epoch e (flags g)" "move_to w x y g = (g', r)"
  shows "adds e g g' \<and> flags g' = flags g"
proof -
  have s: "send_input w [Ev_move a b] (look g) = (g', r) \<Longrightarrow> adds e g g' \<and> flags g' = flags g" for a b
    using adds_send [of e "look g" "[Ev_move a b]" w] send_input_simps [of w "[Ev_move a b]" "look g"] assms(1)
    by (auto intro: adds_from_same)
  show ?thesis
    using assms(2) s by (auto simp: move_to_def Let_def adds_same split: sum.splits prod.splits if_splits)
qed

lemma adds_type: "type_units w e cs g = (g', r) \<Longrightarrow> adds e g g'"
proof (induction cs arbitrary: g)
  case (Cons c cs)
  obtain g1 ok where a: "allowed w e g = (g1, ok)" by fastforce
  obtain g2 live where l: "check_live w g1 = (g2, live)" by fastforce
  obtain g3 sent where s: "send_input w [Ev_unicode c True, Ev_unicode c False] g2 = (g3, sent)" by fastforce
  have 1: "adds e g g1" "ok \<longrightarrow> live_epoch e (flags g1)" using adds_allowed [OF a] by auto
  have 2: "adds e g g2" "flags g2 = flags g1" using adds_check_live [OF l, of e] adds_trans [OF 1(1)] by auto
  have 3: "ok \<Longrightarrow> adds e g g3"
    using adds_send [of e g2 "[Ev_unicode c True, Ev_unicode c False]" w] 1 2 s by (auto intro: adds_trans)
  have 4: "ok \<Longrightarrow> adds e g (fst (send_input w [Ev_unicode c False] g3))"
    using adds_send [of e g3 "[Ev_unicode c False]" w] 3 by (auto intro: adds_trans)
  show ?case
    using Cons.prems a l s 1 2 3 4 Cons.IH [of g3] by (auto split: if_splits intro: adds_trans)
qed simp

lemma adds_after_move:
  assumes "live_epoch e (flags g)" "after_move w e x y f g = (g', r)"
    and "\<And>h h' q. live_epoch e (flags h) \<Longrightarrow> f h = (h', q) \<Longrightarrow> adds e h h'"
  shows "adds e g g'"
proof -
  obtain g1 moved where m: "move_to w x y g = (g1, moved)" by fastforce
  obtain g2 ok where al: "allowed w e g1 = (g2, ok)" by fastforce
  have 1: "adds e g g1" using adds_move [OF assms(1) m] by auto
  have 2: "adds e g g2" "ok \<longrightarrow> live_epoch e (flags g2)" using adds_allowed [OF al] adds_trans [OF 1] by auto
  show ?thesis
    using assms(2) m al 1 2 assms(3) [of g2] by (auto simp: after_move_def split: if_splits intro: adds_trans)
qed

lemma adds_act:
  assumes "live_epoch e (flags g)" "act w e a g = (g', r)"
  shows "adds e g g'"
proof (cases a)
  case (Act_Move x y)
  then show ?thesis using adds_move [OF assms(1), of w x y g' r] assms(2) by simp
next
  case (Act_Button x y b d)
  have "adds e h h'" if "live_epoch e (flags h)" "(if \<not> button_ok b then (h, False)
       else (case send_input w [Ev_button b d] h of (g1, sent) \<Rightarrow>
         if \<not> sent then (g1, False)
         else (set_buttons (if d then List.insert b else removeAll b) g1, True))) = (h', q)" for h h' q
    using that adds_send [of e h "[Ev_button b d]" w]
    by (cases "send_input w [Ev_button b d] h") (auto simp: set_buttons_def adds_def split: if_splits)
  with adds_after_move [OF assms(1)] assms(2) Act_Button show ?thesis by fastforce
next
  case (Act_Wheel x y delta)
  have "adds e h h'" if "live_epoch e (flags h)" "send_input w [Ev_wheel delta] h = (h', q)" for h h' q
    using that adds_send [of e h "[Ev_wheel delta]" w] by simp
  with adds_after_move [OF assms(1)] assms(2) Act_Wheel show ?thesis by fastforce
next
  case (Act_Key s x d)
  obtain g1 ok where al: "allowed w e g = (g1, ok)" by fastforce
  obtain g2 sent where sd: "send_input w [Ev_key s x d] g1 = (g2, sent)" by fastforce
  have 1: "adds e g g1" "ok \<longrightarrow> live_epoch e (flags g1)" using adds_allowed [OF al] by auto
  have 2: "ok \<Longrightarrow> adds e g g2" using adds_send [of e g1 "[Ev_key s x d]" w] 1 sd by (auto intro: adds_trans)
  have 3: "adds e g (set_keys f g2) = adds e g g2" for f by (simp add: set_keys_def adds_def)
  show ?thesis using assms(2) Act_Key al sd 1 2 3 by (auto split: if_splits)
next
  case (Act_Text body)
  then show ?thesis using adds_type [of w e "encode_utf16 body" g g' r] assms(2) by simp
qed

lemma adds_apply:
  assumes "be_apply w e a g = (g', r)"
  shows "adds e g g'"
proof -
  obtain g1 ok where al: "allowed w e g = (g1, ok)" by fastforce
  obtain g2 live where l: "check_live w g1 = (g2, live)" by fastforce
  obtain g3 ok3 where ac: "act w e a g2 = (g3, ok3)" by fastforce
  have 1: "adds e g g1" "ok \<longrightarrow> live_epoch e (flags g1)" using adds_allowed [OF al] by auto
  have 2: "adds e g g2" "flags g2 = flags g1" using adds_check_live [OF l, of e] adds_trans [OF 1(1)] by auto
  have 3: "ok \<Longrightarrow> adds e g g3" using adds_act [of e g2 w a g3 ok3] 1 2 ac by (auto intro: adds_trans)
  have 4: "ok \<Longrightarrow> adds e g (be_disarm w g3)" using 3 adds_disarm by (blast intro: adds_trans)
  show ?thesis using assms al l ac 1 2 3 4 by (auto simp: be_apply_def split: if_splits)
qed

end
