(* ===== verification/Gui_Session.thy ===== *)
theory Gui_Session
  imports Gui_Input
begin

text \<open>
  The safety thread of \<open>rc-platform-windows/src/gui_session.rs\<close> and the handle its clients use. The
  thread takes commands from a bounded queue when it is woken, watches the desktop on a timer, and
  stops on the emergency hotkey. The flags are shared: a client or a hook revokes them at any time.
  \<open>replies i\<close> says whether the requester of an arm still waits at observation \<open>i\<close>.
\<close>

section \<open>Model: the thread\<close>

datatype gui_command =
    C_frame
  | C_arm u64
  | C_action u64 gui_action
  | C_disarm
  | C_stop

record gui_thread =
  core :: gui
  queue :: "gui_command list"
  handle_dropped :: bool
  arm_answers :: "u64 option list"

definition revoke_flags :: "gui \<Rightarrow> gui" where
  "revoke_flags g = g\<lparr>flags := sf_revoke (flags g)\<rparr>"

definition fail_safe :: "os \<Rightarrow> gui \<Rightarrow> gui" where
  "fail_safe w g = revoke_flags (be_disarm w g)"

text \<open>The closure of the arm command: the flags may change before the exchange and after the store.\<close>

definition try_arm :: "os \<Rightarrow> u64 \<Rightarrow> gui \<Rightarrow> gui \<times> u64 option" where
  "try_arm w expected g =
     (if revision (flags g) \<noteq> expected then (g, None)
      else (case be_arm w g of (g1, ok) \<Rightarrow>
        if \<not> ok then (g1, None)
        else (case checked_add_u64 expected 1 of None \<Rightarrow> (g1, None) | Some next \<Rightarrow>
          (let g2 = pump w g1 in
           if revision (flags g2) \<noteq> expected then (g2, None)
           else (let g3 = pump w (g2\<lparr>flags := (flags g2)\<lparr>revision := next, armed := True\<rparr>\<rparr>) in
             if revision (flags g3) \<noteq> next then (g3\<lparr>flags := (flags g3)\<lparr>armed := False\<rparr>\<rparr>, None)
             else (g3, Some next))))))"

definition handle_arm :: "os \<Rightarrow> (nat \<Rightarrow> bool) \<Rightarrow> u64 \<Rightarrow> gui \<Rightarrow> gui \<times> u64 option" where
  "handle_arm w replies expected g =
     (case try_arm w expected g of (g1, r) \<Rightarrow>
      (let g2 = (if r = None then fail_safe w g1 else g1) in
       if \<not> replies (seen g2) then (fail_safe w g2, None) else (look g2, r)))"

definition handle_action :: "os \<Rightarrow> u64 \<Rightarrow> gui_action \<Rightarrow> gui \<Rightarrow> gui" where
  "handle_action w e a g =
     (if armed (flags g) \<and> revision (flags g) = e
      then (case be_apply w e a g of (g1, ok) \<Rightarrow> if ok then g1 else fail_safe w g1)
      else g)"

definition handle_command :: "os \<Rightarrow> (nat \<Rightarrow> bool) \<Rightarrow> gui_command \<Rightarrow> gui_thread \<Rightarrow> gui_thread" where
  "handle_command w replies c t =
     (case c of
        C_frame \<Rightarrow> t\<lparr>core := be_frame w (core t)\<rparr>
      | C_arm expected \<Rightarrow> (case handle_arm w replies expected (core t) of (g, r) \<Rightarrow>
          t\<lparr>core := g, arm_answers := arm_answers t @ [r]\<rparr>)
      | C_action e a \<Rightarrow> t\<lparr>core := handle_action w e a (core t)\<rparr>
      | C_disarm \<Rightarrow> t\<lparr>core := be_disarm w (core t)\<rparr>
      | C_stop \<Rightarrow> t\<lparr>core := (core t)\<lparr>flags := (flags (core t))\<lparr>closed := True\<rparr>\<rparr>\<rparr>)"

text \<open>
  A wake-up handles at most 64 commands and stops at \<open>Stop\<close>; an empty queue whose sender is gone
  closes the session.
\<close>

fun run_commands :: "os \<Rightarrow> (nat \<Rightarrow> bool) \<Rightarrow> nat \<Rightarrow> gui_thread \<Rightarrow> gui_thread" where
  "run_commands w replies 0 t = t"
| "run_commands w replies (Suc n) t =
     (case queue t of
        [] \<Rightarrow> if handle_dropped t then handle_command w replies C_stop t else t
      | C_stop # cs \<Rightarrow> handle_command w replies C_stop (t\<lparr>queue := cs\<rparr>)
      | c # cs \<Rightarrow> run_commands w replies n (handle_command w replies c (t\<lparr>queue := cs\<rparr>)))"

datatype win_message = M_quit | M_hotkey | M_timer | M_wake | M_other

text \<open>One turn of the message loop and whether it goes on. Receiving a message pumps the hooks.\<close>

definition disarm_if_revoked :: "os \<Rightarrow> gui \<Rightarrow> gui" where
  "disarm_if_revoked w g = (if \<not> armed (flags g) then be_disarm w g else g)"

definition on_timer :: "os \<Rightarrow> gui \<Rightarrow> gui \<times> bool" where
  "on_timer w g =
     (if \<not> os_desktop_ok w (seen g) then (look g, False)
      else (let g1 = look g in
        if armed (flags g1) then (case check_live w g1 of (g2, ok) \<Rightarrow> (if ok then g2 else revoke_flags g2, True))
        else (g1, True)))"

definition timer_step :: "os \<Rightarrow> win_message \<Rightarrow> gui \<Rightarrow> gui \<times> bool" where
  "timer_step w m g = (if m = M_timer then on_timer w g else (g, True))"

definition wake_step :: "os \<Rightarrow> (nat \<Rightarrow> bool) \<Rightarrow> win_message \<Rightarrow> gui_thread \<Rightarrow> gui_thread \<times> bool" where
  "wake_step w replies m t =
     (let t1 = (if m = M_wake then run_commands w replies 64 t else t) in (t1, \<not> closed (flags (core t1))))"

definition thread_turn :: "os \<Rightarrow> (nat \<Rightarrow> bool) \<Rightarrow> win_message \<Rightarrow> gui_thread \<Rightarrow> gui_thread \<times> bool" where
  "thread_turn w replies m t =
     (let g0 = pump w (core t) in
      if m = M_quit \<or> m = M_hotkey then (t\<lparr>core := g0\<rparr>, False)
      else (case timer_step w m (disarm_if_revoked w g0) of (g2, go) \<Rightarrow>
        if \<not> go then (t\<lparr>core := g2\<rparr>, False) else wake_step w replies m (t\<lparr>core := g2\<rparr>)))"

text \<open>After the loop: disarm, revoke, and the wrapper's revoke and close.\<close>

definition thread_end :: "os \<Rightarrow> gui_thread \<Rightarrow> gui_thread" where
  "thread_end w t =
     (let g = revoke_flags (fail_safe w (core t)) in t\<lparr>core := g\<lparr>flags := (flags g)\<lparr>closed := True\<rparr>\<rparr>\<rparr>)"

section \<open>Model: the handle\<close>

text \<open>\<open>woken\<close>: the wake-up message could be posted.\<close>

definition post :: "bool \<Rightarrow> gui_command \<Rightarrow> gui_thread \<Rightarrow> gui_thread \<times> bool" where
  "post woken c t =
     (if closed (flags (core t)) then (t, False)
      else if length (queue t) \<ge> 64 then (t, False)
      else (let t1 = t\<lparr>queue := queue t @ [c]\<rparr> in
        if \<not> woken then (t1\<lparr>core := revoke_flags (core t1)\<rparr>, False) else (t1, True)))"

definition gs_frame :: "bool \<Rightarrow> gui_thread \<Rightarrow> gui_thread \<times> bool" where
  "gs_frame woken t = post woken C_frame t"

definition gs_request_arm :: "bool \<Rightarrow> gui_thread \<Rightarrow> gui_thread \<times> bool" where
  "gs_request_arm woken t = post woken (C_arm (revision (flags (core t)))) t"

definition gs_action :: "bool \<Rightarrow> u64 \<Rightarrow> gui_action \<Rightarrow> gui_thread \<Rightarrow> gui_thread \<times> bool" where
  "gs_action woken e a t =
     (if \<not> armed (flags (core t)) \<or> e \<noteq> revision (flags (core t)) then (t, False) else post woken (C_action e a) t)"

definition gs_disarm :: "bool \<Rightarrow> gui_thread \<Rightarrow> gui_thread" where
  "gs_disarm woken t = fst (post woken C_disarm (t\<lparr>core := revoke_flags (core t)\<rparr>))"

text \<open>Dropping the handle; the quit message it posts is a message of the loop.\<close>

definition gs_drop :: "gui_thread \<Rightarrow> gui_thread" where
  "gs_drop t =
     (let t1 = t\<lparr>core := revoke_flags (core t)\<rparr>
      in t1\<lparr>queue := (if length (queue t1) \<ge> 64 then queue t1 else queue t1 @ [C_stop]), handle_dropped := True\<rparr>)"

definition start_thread :: "local_source \<Rightarrow> rect \<Rightarrow> instant \<Rightarrow> gui_thread" where
  "start_thread src desk now =
     \<lparr>core = \<lparr>backend = new_backend src desk now, flags = default_safety, log = [], seen = 0\<rparr>, queue = [], handle_dropped = False, arm_answers = []\<rparr>"

section \<open>Runs\<close>

inductive gui_run :: "os \<Rightarrow> gui_thread \<Rightarrow> bool" for w where
  start: "gui_run w (start_thread src desk now)"
| turn: "gui_run w t \<Longrightarrow> gui_run w (fst (thread_turn w replies m t))"
| post: "gui_run w t \<Longrightarrow> gui_run w (fst (post woken c t))"
| disarm: "gui_run w t \<Longrightarrow> gui_run w (gs_disarm woken t)"
| drop: "gui_run w t \<Longrightarrow> gui_run w (gs_drop t)"
| revoked: "gui_run w t \<Longrightarrow> gui_run w (t\<lparr>core := revoke_flags (core t)\<rparr>)"
| ended: "gui_run w t \<Longrightarrow> gui_run w (thread_end w t)"

section \<open>Lemmas\<close>

lemma gui_ok_flags [simp]: "gui_ok (g\<lparr>flags := f\<rparr>) = gui_ok g" "gui_ok (revoke_flags g) = gui_ok g"
  by (simp_all add: gui_ok_def revoke_flags_def)

lemma gui_ok_fail_safe: "gui_ok g \<Longrightarrow> gui_ok (fail_safe w g)"
  by (simp add: fail_safe_def gui_ok_disarm)

lemma gui_ok_frame: "gui_ok g \<Longrightarrow> gui_ok (be_frame w g)"
  by (simp add: be_frame_def) (simp add: gui_ok_def held_by_def)

lemma be_arm_ok: "gui_ok g \<Longrightarrow> be_arm w g = (g', r) \<Longrightarrow> gui_ok g' \<and> (r \<longrightarrow> b_enabled (backend g'))"
  using gui_ok_check [of g w]
  by (cases "be_check w g") (auto simp: be_arm_def gui_ok_def held_by_def split: if_splits)

lemma try_arm_ok:
  assumes "gui_ok g" "try_arm w n g = (g', r)"
  shows "gui_ok g' \<and> (\<forall>e. r = Some e \<longrightarrow> b_enabled (backend g') \<and> armed (flags g') \<and> revision (flags g') = e
    \<and> unat e = Suc (unat n) \<and> snd (be_check w g))"
proof (cases "revision (flags g) \<noteq> n")
  case False
  obtain g1 ok where a: "be_arm w g = (g1, ok)" by fastforce
  note a1 = be_arm_ok [OF assms(1) a]
  have c: "ok \<Longrightarrow> snd (be_check w g)" using a by (cases "be_check w g") (auto simp: be_arm_def split: if_splits)
  show ?thesis
  proof (cases "ok \<and> checked_add_u64 n 1 \<noteq> None")
    case True
    then obtain m where nx: "checked_add_u64 n 1 = Some m" by auto
    have inc: "unat m = Suc (unat n)" using checked_add_u64_unat [OF nx] by simp
    define g2 where "g2 = pump w g1"
    define g3 where "g3 = pump w (g2\<lparr>flags := (flags g2)\<lparr>revision := m, armed := True\<rparr>\<rparr>)"
    have ok: "gui_ok g2" "gui_ok g3" "backend g3 = backend g1" using a1 by (simp_all add: g2_def g3_def)
    have "revision (flags g3) = m \<Longrightarrow> armed (flags g3)"
      by (auto simp: g3_def pump_def sf_revoke_def split: if_splits)
    moreover have "try_arm w n g = (if revision (flags g2) \<noteq> n then (g2, None)
        else if revision (flags g3) \<noteq> m then (g3\<lparr>flags := (flags g3)\<lparr>armed := False\<rparr>\<rparr>, None) else (g3, Some m))"
      using False a True nx by (simp add: try_arm_def Let_def g2_def g3_def)
    ultimately show ?thesis
      using assms(2) a1 True inc c ok by (auto split: if_splits)
  next
    case False
    then show ?thesis using assms \<open>\<not> revision (flags g) \<noteq> n\<close> a a1
      by (auto simp: try_arm_def split: if_splits option.splits)
  qed
qed (use assms in \<open>auto simp: try_arm_def\<close>)

lemma handle_arm_ok: "gui_ok g \<Longrightarrow> handle_arm w replies n g = (g', r) \<Longrightarrow> gui_ok g'"
  using try_arm_ok [of g w n] gui_ok_fail_safe
  by (cases "try_arm w n g") (auto simp: handle_arm_def Let_def split: if_splits)

lemma handle_action_ok: "gui_ok g \<Longrightarrow> gui_ok (handle_action w e a g)"
  using be_apply_ok [of g w e a] gui_ok_fail_safe
  by (cases "be_apply w e a g") (auto simp: handle_action_def)

lemma handle_command_ok: "gui_ok (core t) \<Longrightarrow> gui_ok (core (handle_command w replies c t))"
  using handle_arm_ok handle_action_ok gui_ok_frame gui_ok_disarm
  by (auto simp: handle_command_def split: gui_command.splits prod.splits)

lemma run_commands_ok: "gui_ok (core t) \<Longrightarrow> gui_ok (core (run_commands w replies n t))"
proof (induction n arbitrary: t)
  case (Suc n)
  then show ?case
    using handle_command_ok by (cases "queue t") (auto split: gui_command.splits)
qed simp

lemma on_timer_ok:
  assumes "gui_ok g"
  shows "gui_ok (fst (on_timer w g))"
proof -
  obtain g2 ok where c: "check_live w (look g) = (g2, ok)" by fastforce
  have "gui_ok g2" using check_live_ok [OF _ c] assms by simp
  then show ?thesis using assms by (simp add: on_timer_def Let_def c)
qed

lemma wake_step_ok: "gui_ok (core t) \<Longrightarrow> gui_ok (core (fst (wake_step w replies m t)))"
  by (simp add: wake_step_def Let_def run_commands_ok)

lemma thread_turn_ok:
  assumes "gui_ok (core t)"
  shows "gui_ok (core (fst (thread_turn w replies m t)))"
proof -
  let ?g1 = "disarm_if_revoked w (pump w (core t))"
  have 1: "gui_ok ?g1" using assms gui_ok_disarm by (simp add: disarm_if_revoked_def)
  obtain g2 go where q: "timer_step w m ?g1 = (g2, go)" by fastforce
  have "gui_ok (fst (timer_step w m ?g1))" using 1 on_timer_ok [OF 1, of w] by (simp add: timer_step_def)
  then show ?thesis using assms wake_step_ok [of "t\<lparr>core := g2\<rparr>" w replies m] by (simp add: thread_turn_def Let_def q)
qed

lemma gui_run_ok: "gui_run w t \<Longrightarrow> gui_ok (core t)"
proof (induction rule: gui_run.induct)
  case (start src desk now)
  then show ?case by (simp add: start_thread_def new_backend_def gui_ok_def owed_def held_by_def)
next
  case (turn t replies m)
  then show ?case using thread_turn_ok by blast
qed (simp_all add: post_def gs_disarm_def gs_drop_def thread_end_def gui_ok_fail_safe Let_def)

text \<open>What a command may inject: an action under its own epoch, any other command releases only.\<close>

definition releases_only :: "gui \<Rightarrow> gui \<Rightarrow> bool" where
  "releases_only g g' \<longleftrightarrow> (\<exists>new. log g' = log g @ new \<and> (\<forall>i \<in> set new. is_release (i_event i)))"

lemma releases_only_disarm: "releases_only g (be_disarm w g)"
proof -
  have never: "\<not> (live_epoch 0 f \<and> live_epoch 1 f)" for f by (simp add: live_epoch_def)
  obtain new0 new1 where n0: "log (be_disarm w g) = log g @ new0" "\<forall>i \<in> set new0. is_release (i_event i) \<or> live_epoch 0 (i_flags i)"
    and n1: "log (be_disarm w g) = log g @ new1" "\<forall>i \<in> set new1. is_release (i_event i) \<or> live_epoch 1 (i_flags i)"
    using adds_disarm [of 0 g w] adds_disarm [of 1 g w] by (auto simp: adds_def)
  then show ?thesis using never unfolding releases_only_def by (metis same_append_eq)
qed

lemma releases_only_adds: "releases_only g g' \<Longrightarrow> adds e g g'"
  by (auto simp: releases_only_def adds_def)

lemma log_revoke [simp]: "log (revoke_flags g) = log g" "log (g\<lparr>flags := f\<rparr>) = log g"
  by (simp_all add: revoke_flags_def)

lemma releases_only_fail_safe: "releases_only g (fail_safe w g)"
  using releases_only_disarm [of g w] by (simp add: releases_only_def fail_safe_def)

lemma releases_only_trans: "releases_only g h \<Longrightarrow> releases_only h k \<Longrightarrow> releases_only g k"
  by (fastforce simp: releases_only_def)

lemma releases_only_same: "log g' = log g \<Longrightarrow> releases_only g g'"
  by (simp add: releases_only_def)

lemma try_arm_log: "log (fst (try_arm w n g)) = log g"
proof -
  obtain g1 ok where a: "be_arm w g = (g1, ok)" by fastforce
  have l: "log g1 = log g"
    using a be_check_simps(2) [of w g] by (cases "be_check w g") (auto simp: be_arm_def split: if_splits)
  show ?thesis by (simp add: try_arm_def a l Let_def split: option.splits)
qed

lemma handle_arm_releases: "releases_only g (fst (handle_arm w replies n g))"
proof -
  obtain g1 q where t: "try_arm w n g = (g1, q)" by fastforce
  let ?g2 = "if q = None then fail_safe w g1 else g1"
  have "releases_only g g1" using try_arm_log [of w n g] t by (simp add: releases_only_same)
  then have 2: "releases_only g ?g2" using releases_only_trans releases_only_fail_safe by (auto simp del: not_None_eq)
  have "fst (handle_arm w replies n g) = (if \<not> replies (seen ?g2) then fail_safe w ?g2 else look ?g2)"
    by (simp add: handle_arm_def t Let_def)
  moreover have "releases_only g (fail_safe w ?g2)" using 2 releases_only_trans releases_only_fail_safe by blast
  moreover have "releases_only g (look ?g2)" using 2 by (rule releases_only_trans) (simp add: releases_only_same)
  ultimately show ?thesis by (simp only: split: if_split) blast
qed

lemma handle_action_adds: "adds e g (handle_action w e a g)"
  using adds_apply [of w e a g] releases_only_adds [OF releases_only_fail_safe] adds_trans
  by (cases "be_apply w e a g") (auto simp: handle_action_def)

lemma handle_command_releases:
  assumes "\<forall>e a. c \<noteq> C_action e a"
  shows "releases_only (core t) (core (handle_command w replies c t))"
  using assms
proof (cases c)
  case (C_arm n)
  then show ?thesis
    using handle_arm_releases [of "core t" w replies n] by (auto simp: handle_command_def split: prod.splits)
qed (auto simp: handle_command_def be_frame_def releases_only_same releases_only_disarm)

text \<open>The flags only lose authority while a command runs: they stay armed at the same revision or not at all.\<close>

definition only_loses :: "gui \<Rightarrow> gui \<Rightarrow> bool" where
  "only_loses g g' \<longleftrightarrow> (armed (flags g') \<longrightarrow> armed (flags g) \<and> revision (flags g') = revision (flags g))"

lemma only_loses_trans: "only_loses g h \<Longrightarrow> only_loses h k \<Longrightarrow> only_loses g k"
  by (auto simp: only_loses_def)

lemma only_loses_same: "flags g' = flags g \<Longrightarrow> only_loses g g'"
  by (simp add: only_loses_def)

lemma only_loses_pump: "only_loses g (pump w g)"
  by (simp add: only_loses_def pump_def sf_revoke_def)

lemma only_loses_revoke: "only_loses g (revoke_flags h)"
  by (simp add: only_loses_def revoke_flags_def sf_revoke_def)

lemma only_loses_allowed: "allowed w e g = (g', r) \<Longrightarrow> only_loses g g'"
  using only_loses_pump by (auto simp: allowed_def Let_def)

lemma only_loses_type: "type_units w e cs g = (g', r) \<Longrightarrow> only_loses g g'"
proof (induction cs arbitrary: g)
  case (Cons c cs)
  obtain g1 ok where a: "allowed w e g = (g1, ok)" by fastforce
  obtain g2 live where l: "check_live w g1 = (g2, live)" by fastforce
  obtain g3 sent where s: "send_input w [Ev_unicode c True, Ev_unicode c False] g2 = (g3, sent)" by fastforce
  have 1: "only_loses g g1" using only_loses_allowed [OF a] .
  have f: "flags g2 = flags g1" "flags g3 = flags g2"
    using adds_check_live [OF l] send_input_simps(2) [of w "[Ev_unicode c True, Ev_unicode c False]" g2] s by auto
  then have 3: "only_loses g g2" "only_loses g g3" "only_loses g (fst (send_input w [Ev_unicode c False] g3))"
    using 1 by (simp_all add: only_loses_def)
  show ?case
    using Cons.prems a l s 1 3 Cons.IH [of g3] only_loses_trans [OF 3(2)] by (auto split: if_splits)
qed (simp add: only_loses_same)

lemma only_loses_after_move:
  assumes "gui_ok g" "after_move w e x y f g = (g', r)" "\<And>h h' q. f h = (h', q) \<Longrightarrow> flags h' = flags h"
  shows "only_loses g g'"
proof -
  obtain g1 moved where m: "move_to w x y g = (g1, moved)" by fastforce
  obtain g2 ok where al: "allowed w e g1 = (g2, ok)" by fastforce
  have 1: "flags g1 = flags g" using move_to_ok [OF assms(1) m] by simp
  have "g' = g1 \<or> flags g' = flags g2"
    using assms(2,3) m al by (auto simp: after_move_def split: if_splits)
  then show ?thesis using 1 only_loses_allowed [OF al] by (auto simp: only_loses_def)
qed

lemma only_loses_act:
  assumes "gui_ok g" "act w e a g = (g', r)"
  shows "only_loses g g'"
proof (cases a)
  case (Act_Move x y)
  then show ?thesis using move_to_ok [OF assms(1), of w x y g' r] assms(2) by (simp add: only_loses_same)
next
  case (Act_Button x y b d)
  have "flags h' = flags h" if "(if \<not> button_ok b then (h, False)
       else (case send_input w [Ev_button b d] h of (g1, sent) \<Rightarrow>
         if \<not> sent then (g1, False)
         else (set_buttons (if d then List.insert b else removeAll b) g1, True))) = (h', q)" for h h' q
    using that send_input_simps(2) [of w "[Ev_button b d]" h]
    by (cases "send_input w [Ev_button b d] h") (auto simp: set_buttons_def split: if_splits)
  from only_loses_after_move [OF assms(1) assms(2) [unfolded Act_Button act.simps] this] show ?thesis .
next
  case (Act_Wheel x y delta)
  have "flags h' = flags h" if "send_input w [Ev_wheel delta] h = (h', q)" for h h' q
    using that send_input_simps(2) [of w "[Ev_wheel delta]" h] by simp
  from only_loses_after_move [OF assms(1) assms(2) [unfolded Act_Wheel act.simps] this] show ?thesis .
next
  case (Act_Key s x d)
  obtain g1 ok where al: "allowed w e g = (g1, ok)" by fastforce
  obtain g2 sent where sd: "send_input w [Ev_key s x d] g1 = (g2, sent)" by fastforce
  have f: "flags g2 = flags g1" using send_input_simps(2) [of w "[Ev_key s x d]" g1] sd by simp
  have "flags (fst (act w e a g)) = flags g \<or> flags (fst (act w e a g)) = flags g1"
    by (simp add: Act_Key al sd f set_keys_def)
  then have "flags g' = flags g \<or> flags g' = flags g1" by (simp only: assms(2) fst_conv)
  then show ?thesis using only_loses_allowed [OF al] by (auto simp: only_loses_def)
next
  case (Act_Text body)
  then show ?thesis using only_loses_type [of w e "encode_utf16 body" g g' r] assms(2) by simp
qed

lemma only_loses_apply:
  assumes "gui_ok g" "be_apply w e a g = (g', r)"
  shows "only_loses g g'"
proof -
  obtain g1 ok where al: "allowed w e g = (g1, ok)" by fastforce
  obtain g2 live where l: "check_live w g1 = (g2, live)" by fastforce
  obtain g3 ok3 where ac: "act w e a g2 = (g3, ok3)" by fastforce
  have 1: "only_loses g g1" "gui_ok g1" using only_loses_allowed [OF al] allowed_ok [OF assms(1) al] by auto
  have 2: "only_loses g g2" "gui_ok g2" using check_live_ok [OF 1(2) l] 1(1) by (auto simp: only_loses_def)
  have 3: "only_loses g g3" using only_loses_trans [OF 2(1) only_loses_act [OF 2(2) ac]] .
  then have 4: "only_loses g (be_disarm w g3)" by (simp add: only_loses_def)
  show ?thesis using assms(2) al l ac 1 2 3 4 by (auto simp: be_apply_def only_loses_same split: if_splits)
qed

text \<open>
  The authority behind a run: the flags are armed only at a revision that was granted to a client
  that waited for it, and so was every event that is not a release.
\<close>

definition granted :: "gui_thread \<Rightarrow> u64 \<Rightarrow> bool" where
  "granted t e \<longleftrightarrow> Some e \<in> set (arm_answers t)"

definition authorised :: "gui_thread \<Rightarrow> bool" where
  "authorised t \<longleftrightarrow> (armed (flags (core t)) \<longrightarrow> granted t (revision (flags (core t))))
     \<and> (\<forall>i \<in> set (log (core t)). is_release (i_event i)
          \<or> live_epoch (revision (i_flags i)) (i_flags i) \<and> granted t (revision (i_flags i)))"

lemma authorised_core:
  assumes "authorised t" "only_loses (core t) g" "releases_only (core t) g"
  shows "authorised (t\<lparr>core := g\<rparr>)"
  using assms by (fastforce simp: authorised_def granted_def only_loses_def releases_only_def)

lemma authorised_disarm: "authorised t \<Longrightarrow> authorised (t\<lparr>core := be_disarm w (core t)\<rparr>)"
  by (rule authorised_core) (simp_all add: only_loses_same releases_only_disarm)

lemma authorised_arm:
  assumes "authorised t" "gui_ok (core t)" "handle_arm w replies n (core t) = (g, r)"
  shows "authorised (t\<lparr>core := g, arm_answers := arm_answers t @ [r]\<rparr>)"
proof -
  obtain g1 q where t: "try_arm w n (core t) = (g1, q)" by fastforce
  let ?g2 = "if q = None then fail_safe w g1 else g1"
  have h: "(g, r) = (if \<not> replies (seen ?g2) then (fail_safe w ?g2, None) else (look ?g2, q))"
    using assms(3) by (simp add: handle_arm_def t Let_def del: not_None_eq split del: if_split)
  have fs: "\<not> armed (flags (fail_safe w x))" for x by (simp add: fail_safe_def revoke_flags_def sf_revoke_def)
  have "armed (flags g) \<Longrightarrow> r = Some (revision (flags g))"
    using h fs try_arm_ok [OF assms(2) t] by (auto split: if_splits)
  moreover have "releases_only (core t) g" using handle_arm_releases [of "core t" w replies n] assms(3) by simp
  ultimately show ?thesis using assms(1) by (fastforce simp: authorised_def granted_def releases_only_def)
qed

lemma authorised_action:
  assumes "authorised t" "gui_ok (core t)"
  shows "authorised (t\<lparr>core := handle_action w e a (core t)\<rparr>)"
proof (cases "armed (flags (core t)) \<and> revision (flags (core t)) = e")
  case True
  obtain g r where p: "be_apply w e a (core t) = (g, r)" by fastforce
  have "only_loses (core t) (handle_action w e a (core t))"
    using only_loses_apply [OF assms(2) p] only_loses_revoke by (simp add: handle_action_def p fail_safe_def only_loses_same)
  moreover have "adds e (core t) (handle_action w e a (core t))" by (rule handle_action_adds)
  moreover have "live_epoch e f \<Longrightarrow> revision f = e" for f by (simp add: live_epoch_def)
  ultimately show ?thesis
    using assms(1) True by (fastforce simp: authorised_def granted_def only_loses_def adds_def)
qed (use assms in \<open>auto simp: handle_action_def\<close>)

lemma authorised_command:
  assumes "authorised t" "gui_ok (core t)"
  shows "authorised (handle_command w replies c t)"
proof (cases c)
  case (C_arm n)
  then show ?thesis using authorised_arm [OF assms] by (auto simp: handle_command_def split: prod.splits)
next
  case (C_action e a)
  then show ?thesis using authorised_action [OF assms] by (simp add: handle_command_def)
next
  case C_disarm
  then show ?thesis using authorised_disarm [OF assms(1)] by (simp add: handle_command_def)
qed (use assms in \<open>auto simp: handle_command_def be_frame_def authorised_def granted_def\<close>)

lemma authorised_run:
  "authorised t \<Longrightarrow> gui_ok (core t) \<Longrightarrow> authorised (run_commands w replies n t)"
proof (induction n arbitrary: t)
  case (Suc n)
  have q: "authorised (t\<lparr>queue := cs\<rparr>)" for cs using Suc.prems(1) by (simp add: authorised_def granted_def)
  show ?case
    using Suc.IH Suc.prems authorised_command [OF q] handle_command_ok [of "t\<lparr>queue := cs\<rparr>" for cs] authorised_command [OF Suc.prems]
    by (cases "queue t") (auto split: gui_command.splits)
qed simp

lemma only_loses_on_timer: "only_loses g (fst (on_timer w g))"
proof -
  obtain g2 ok where c: "check_live w (look g) = (g2, ok)" by fastforce
  have "flags g2 = flags g" using adds_check_live [OF c] by simp
  then show ?thesis
    using only_loses_revoke by (simp add: on_timer_def Let_def c only_loses_same)
qed

lemma releases_on_timer: "releases_only g (fst (on_timer w g))"
proof -
  obtain g1 ok1 where b: "be_check w (look g) = (g1, ok1)" by fastforce
  have l: "log g1 = log g" using be_check_simps(2) [of w "look g"] b by simp
  then have "releases_only g (be_disarm w g1)" using releases_only_disarm [of g1 w] by (simp add: releases_only_def)
  then show ?thesis using l by (simp add: on_timer_def check_live_def Let_def b releases_only_same releases_only_def)
qed

lemma authorised_turn:
  assumes "authorised t" "gui_ok (core t)"
  shows "authorised (fst (thread_turn w replies m t))"
proof -
  let ?g0 = "pump w (core t)" and ?g1 = "disarm_if_revoked w (pump w (core t))"
  have 0: "authorised (t\<lparr>core := ?g0\<rparr>)" using assms(1) only_loses_pump by (rule authorised_core) (simp add: releases_only_same)
  have 1: "authorised (t\<lparr>core := ?g1\<rparr>)" using 0 authorised_disarm [OF 0] by (simp add: disarm_if_revoked_def)
  have "gui_ok ?g1" using assms(2) gui_ok_disarm by (simp add: disarm_if_revoked_def)
  obtain g2 go where q: "timer_step w m ?g1 = (g2, go)" by fastforce
  have g2: "g2 = fst (timer_step w m ?g1)" by (simp add: q)
  have 2: "authorised (t\<lparr>core := g2\<rparr>)" "gui_ok g2"
    using 1 authorised_core [OF 1, of "fst (on_timer w ?g1)"] only_loses_on_timer releases_on_timer \<open>gui_ok ?g1\<close> on_timer_ok
    by (simp_all add: g2 timer_step_def)
  then show ?thesis using 0 authorised_run [of "t\<lparr>core := g2\<rparr>"]
    by (simp add: thread_turn_def wake_step_def Let_def q)
qed

lemma authorised_end: "authorised t \<Longrightarrow> authorised (thread_end w t)"
  unfolding thread_end_def Let_def
  by (rule authorised_core)
    (use releases_only_fail_safe [of "core t" w] in
      \<open>simp_all add: only_loses_def revoke_flags_def sf_revoke_def fail_safe_def releases_only_def\<close>)

lemma gui_run_authorised: "gui_run w t \<Longrightarrow> authorised t"
proof (induction rule: gui_run.induct)
  case (turn t replies m)
  then show ?case using authorised_turn gui_run_ok by blast
next
  case (ended t)
  then show ?case using authorised_end by blast
qed (simp_all add: start_thread_def authorised_def granted_def default_safety_def post_def gs_disarm_def gs_drop_def
    revoke_flags_def sf_revoke_def Let_def)

section \<open>A concrete run\<close>

text \<open>A desktop where every check passes, and a client that frames, arms, and presses a key and a button.\<close>

definition calm_os :: os where
  "calm_os = \<lparr>os_now = (\<lambda>_. secs 10), os_desktop_ok = (\<lambda>_. True),
     os_source = (\<lambda>_. Some \<lparr>r_left = 0, r_top = 0, r_width = 100, r_height = 100\<rparr>),
     os_virtual = (\<lambda>_. Some \<lparr>r_left = 0, r_top = 0, r_width = 100, r_height = 100\<rparr>),
     os_foreground = (\<lambda>_. 5), os_integrity = (\<lambda>_ _. True), os_root_at = (\<lambda>_ _. 5), os_inserts = (\<lambda>_. 2),
     os_revokes = (\<lambda>_. False)\<rparr>"

definition calm_start :: gui_thread where
  "calm_start = start_thread \<lparr>ls_native = Monitor [] [], ls_label = [], ls_rect = \<lparr>r_left = 0, r_top = 0, r_width = 100, r_height = 100\<rparr>\<rparr>
     \<lparr>r_left = 0, r_top = 0, r_width = 100, r_height = 100\<rparr> (secs 10)"

definition calm_queue :: gui_thread where
  "calm_queue = fst (post True (C_action 1 (Act_Key 30 False True)) (fst (post True (C_arm 0) (fst (post True C_frame calm_start)))))"

definition calm_pressed :: gui_thread where
  "calm_pressed = fst (thread_turn calm_os (\<lambda>_. True) M_wake calm_queue)"

definition calm_event :: injection where
  "calm_event = \<lparr>i_event = Ev_key 30 False True, i_inserted = True, i_flags = \<lparr>closed = False, armed = True, revision = 1\<rparr>\<rparr>"

lemma calm_run: "gui_run calm_os calm_pressed"
  unfolding calm_pressed_def calm_queue_def calm_start_def by (intro gui_run.intros)

lemma run_commands_pos:
  "0 < n \<Longrightarrow> run_commands w replies n t =
     (case queue t of
        [] \<Rightarrow> if handle_dropped t then handle_command w replies C_stop t else t
      | C_stop # cs \<Rightarrow> handle_command w replies C_stop (t\<lparr>queue := cs\<rparr>)
      | c # cs \<Rightarrow> run_commands w replies (n - 1) (handle_command w replies c (t\<lparr>queue := cs\<rparr>)))"
  using run_commands.simps(2) [of w replies "n - 1" t] by (simp only: Suc_diff_1)

definition calm_gui :: "instant \<Rightarrow> (u16 \<times> bool) list \<Rightarrow> bool \<Rightarrow> safety \<Rightarrow> injection list \<Rightarrow> nat \<Rightarrow> gui" where
  "calm_gui lf ks en f l n =
     \<lparr>backend = \<lparr>b_source = \<lparr>ls_native = Monitor [] [], ls_label = [], ls_rect = \<lparr>r_left = 0, r_top = 0, r_width = 100, r_height = 100\<rparr>\<rparr>,
        b_desktop = \<lparr>r_left = 0, r_top = 0, r_width = 100, r_height = 100\<rparr>, b_last_frame = lf, b_keys = ks, b_buttons = [], b_enabled = en\<rparr>,
      flags = f, log = l, seen = n\<rparr>"

lemma calm_view [simp]:
  "flags (calm_gui lf ks en f l n) = f" "seen (calm_gui lf ks en f l n) = n" "log (calm_gui lf ks en f l n) = l"
  "b_enabled (backend (calm_gui lf ks en f l n)) = en" "b_keys (backend (calm_gui lf ks en f l n)) = ks"
  "look (calm_gui lf ks en f l n) = calm_gui lf ks en f l (Suc n)"
  "(calm_gui lf ks en f l n)\<lparr>flags := f'\<rparr> = calm_gui lf ks en f' l n"
  "set_keys h (calm_gui lf ks en f l n) = calm_gui lf (h ks) en f l n"
  by (simp_all add: calm_gui_def look_def set_keys_def)

lemma calm_step [simp]:
  "pump calm_os (calm_gui lf ks en f l n) = calm_gui lf ks en f l (Suc n)"
  "be_frame calm_os (calm_gui lf ks en f l n) = calm_gui (secs 10) ks en f l (Suc n)"
  "be_check calm_os (calm_gui (secs 10) ks en f l n) = (calm_gui (secs 10) ks en f l (Suc n), True)"
  "be_arm calm_os (calm_gui (secs 10) ks en f l n) = (calm_gui (secs 10) ks True f l (Suc n), True)"
  "send_input calm_os [e] (calm_gui lf ks en f l n) =
     (calm_gui lf ks en f (l @ [\<lparr>i_event = e, i_inserted = True, i_flags = f\<rparr>]) (Suc n), True)"
  by (simp_all add: calm_gui_def calm_os_def pump_def be_frame_def be_check_def be_arm_def send_input_def look_def Let_def
      duration_since_def is_target_def)

lemma calm_arm:
  "handle_arm calm_os (\<lambda>_. True) 0 (calm_gui (secs 10) [] False default_safety [] 2) =
     (calm_gui (secs 10) [] True \<lparr>closed = False, armed = True, revision = 1\<rparr> [] 6, Some 1)"
  by (simp add: handle_arm_def try_arm_def checked_add_u64_def default_safety_def Let_def)

lemma calm_action:
  "handle_action calm_os 1 (Act_Key 30 False True) (calm_gui (secs 10) [] True \<lparr>closed = False, armed = True, revision = 1\<rparr> [] 6) =
     calm_gui (secs 10) [(30, False)] True \<lparr>closed = False, armed = True, revision = 1\<rparr> [calm_event] 10"
  by (simp add: handle_action_def be_apply_def allowed_def live_epoch_def check_live_def Let_def calm_event_def)

lemma calm_queue_eq:
  "calm_queue = \<lparr>core = calm_gui (secs 5) [] False default_safety [] 0,
     queue = [C_frame, C_arm 0, C_action 1 (Act_Key 30 False True)], handle_dropped = False, arm_answers = []\<rparr>"
  by (simp add: calm_queue_def calm_start_def start_thread_def new_backend_def default_safety_def post_def Let_def calm_gui_def secs_def)

lemma calm_disarm:
  "disarm_if_revoked calm_os (calm_gui lf [] en default_safety l n) = calm_gui lf [] False default_safety l n"
  by (simp add: disarm_if_revoked_def be_disarm_def release_injected_def default_safety_def Let_def calm_gui_def)

lemma calm_pressed_eq:
  "log (core calm_pressed) = [calm_event]" "queue calm_pressed = []"
  by (simp_all add: calm_pressed_def calm_queue_eq thread_turn_def wake_step_def timer_step_def Let_def calm_disarm run_commands_pos
      handle_command_def calm_arm calm_action numeral_2_eq_2 [symmetric])

section \<open>Properties\<close>





end
