(* ===== verification/Session_Manager.thy ===== *)
theory Session_Manager
  imports Session_Input
begin

text \<open>
  The session table of \<open>rc-agent/src/session.rs\<close>: creating, finding, renaming and closing sessions
  and revoking input control in all of them.

  What \<open>create\<close> asks of the operating system is the record \<open>spawn_env\<close>: the canonical path, the
  pseudo console, the launch profile, the child process and the threads. \<open>probe\<close> is what the
  platform reports about a running process.
\<close>

section \<open>Model\<close>

record 'm manager =
  mgr_epoch :: uuid
  sessions :: "(uuid, 'm session) hmap"
  max_sessions :: nat
  cfg_ring_bytes :: nat
  mgr_store :: store

record 'm spawn_env =
  canonical :: "str option"
  cwd_is_dir :: bool
  fresh_project :: uuid
  fresh_session :: uuid
  pty_opened :: bool
  launch :: "(str \<times> bool) result"
  reader_cloned :: bool
  writer_taken :: bool
  child_spawned :: bool
  child_pid :: "u32 option"
  child_created :: "u64 option"
  threads_started :: bool
  session_saved :: bool
  new_model :: 'm
  at_clock :: instant
  at_wall :: nat
  at_revoked :: "token list"

record probe =
  program_is_file :: bool
  current_created :: "u64 option"
  current_program :: "str option"

definition new_manager :: "uuid \<Rightarrow> nat \<Rightarrow> nat \<Rightarrow> store \<Rightarrow> 'm manager" where
  "new_manager e cap rb st = \<lparr>mgr_epoch = e, sessions = [], max_sessions = cap, cfg_ring_bytes = rb, mgr_store = st\<rparr>"

definition get_session :: "'m manager \<Rightarrow> uuid \<Rightarrow> 'm session result" where
  "get_session m i = (case hm_get (sessions m) i of None \<Rightarrow> Err SessionLost | Some s \<Rightarrow> Ok s)"

definition identity_matches_values ::
    "bool \<Rightarrow> u32 option \<Rightarrow> str option \<Rightarrow> str option \<Rightarrow> probe \<Rightarrow> bool" where
  "identity_matches_values run pid created path pr \<longleftrightarrow>
     (if \<not> run \<or> pid = None \<or> created = None \<or> current_created pr = None then False
      else case path of
        None \<Rightarrow> False
      | Some pp \<Rightarrow> program_is_file pr
          \<and> (case current_program pr of None \<Rightarrow> False | Some cur \<Rightarrow> eq_ignore_ascii_case cur pp)
          \<and> (case current_created pr of None \<Rightarrow> False | Some v \<Rightarrow> Some (dec (unat v)) = created))"

definition identity_matches :: "probe \<Rightarrow> session_info \<Rightarrow> 'm session \<Rightarrow> bool" where
  "identity_matches pr mt s = identity_matches_values (running s) (si_pid mt) (si_process_created mt) (si_program_path mt)
     (if si_pid mt = None then pr\<lparr>current_created := None, current_program := None\<rparr> else pr)"

definition info :: "probe \<Rightarrow> 'm session \<Rightarrow> session_info" where
  "info pr s =
     (let m = (meta s)\<lparr>si_output_seq := dec (unat (out_seq (out_state s))), si_lease := view (s_lease s) (clock s)\<rparr>
      in m\<lparr>si_composer_allowed := (managed_codex s \<and> identity_matches pr m s)\<rparr>)"

definition list_sessions :: "probe \<Rightarrow> 'm manager \<Rightarrow> session_info list" where
  "list_sessions pr m = map (info pr \<circ> snd) (sessions m)"

text \<open>Renaming: the store row and the live metadata. \<open>db_ok\<close>: the transaction did not fail.\<close>

definition rename_label ::
    "probe \<Rightarrow> bool \<Rightarrow> str \<Rightarrow> store \<times> 'm session \<Rightarrow> (store \<times> 'm session) \<times> session_info result" where
  "rename_label pr db_ok label x = (case x of (st, s) \<Rightarrow>
     if \<not> running s then ((st, s), Err SessionLost)
     else (case (if db_ok then rename_session_label st (si_session_id (meta s)) label else None) of
       None \<Rightarrow> ((st, s), Err Internal)
     | Some st' \<Rightarrow>
         (let s' = changed (lit ''renamed'') (s\<lparr>meta := (meta s)\<lparr>si_label := label\<rparr>\<rparr>) in ((st', s'), Ok (info pr s')))))"

definition rename :: "probe \<Rightarrow> bool \<Rightarrow> token list \<Rightarrow> instant \<Rightarrow> principal \<Rightarrow> uuid \<Rightarrow> str \<Rightarrow> 'm manager
    \<Rightarrow> 'm manager \<times> session_info result" where
  "rename pr db_ok revoked now p i raw m =
     (case require revoked now p TerminalCreate of Err e \<Rightarrow> (m, Err e) | Ok _ \<Rightarrow>
      (let label = trim raw in
       if label = [] \<or> length label > 160 then (m, Err InvalidRequest)
       else (case get_session m i of Err e \<Rightarrow> (m, Err e) | Ok s \<Rightarrow>
         (case rename_label pr db_ok label (mgr_store m, s) of
            ((st', s'), r) \<Rightarrow> (m\<lparr>mgr_store := st', sessions := hm_insert i s' (sessions m)\<rparr>, r)))))"

definition is_ascii_alphabetic :: "u8 \<Rightarrow> bool" where
  "is_ascii_alphabetic b \<longleftrightarrow> 0x41 \<le> b \<and> b \<le> 0x5A \<or> 0x61 \<le> b \<and> b \<le> 0x7A"

text \<open>
  \<open>normalize_pty_cwd\<close> on Windows: the verbatim prefix is dropped, network paths are refused, and a
  path must start at a drive and fit the limit of \<open>cmd\<close>. The literals are \<open>\\?\\<close>, \<open>UNC\\<close> and \<open>\\\<close>.
\<close>

definition drive_path :: "str \<Rightarrow> str result" where
  "drive_path path =
     (if length path < 3 \<or> \<not> is_ascii_alphabetic (path ! 0) \<or> path ! 1 \<noteq> 0x3A
         \<or> path ! 2 \<notin> {0x5C, 0x2F} \<or> utf16_len path + 1 > 260
      then Err InvalidRequest else Ok path)"

definition normalize_pty_cwd :: "str \<Rightarrow> str result" where
  "normalize_pty_cwd v =
     (case strip_prefix [0x5C, 0x5C, 0x3F, 0x5C] v of
        Some path \<Rightarrow>
          if length path \<ge> 4 \<and> eq_ignore_ascii_case (take 4 path) [0x55, 0x4E, 0x43, 0x5C] then Err InvalidRequest
          else drive_path path
      | None \<Rightarrow> if prefix [0x5C, 0x5C] v then Err InvalidRequest else drive_path v)"

definition new_session :: "'m spawn_env \<Rightarrow> nat \<Rightarrow> session_info \<Rightarrow> bool \<Rightarrow> 'm session" where
  "new_session env rb mt managed =
     \<lparr>meta = mt, out_state = new_output (new_model env) rb, s_lease = default_lease, s_ledger = default_ledger,
      master = True, killed = False, normal_q = [], interrupt_q = [], query_q = [], stop_q = 0, writer_alive = True,
      running = True, managed_codex = managed, change_log = [], pty = [], writes = 0, replies = [],
      clock = at_clock env, wall_ms = at_wall env, revoked_tokens = at_revoked env, interference = 0\<rparr>"

definition new_meta :: "'m spawn_env \<Rightarrow> uuid \<Rightarrow> uuid \<Rightarrow> str \<Rightarrow> str \<Rightarrow> create_session \<Rightarrow> session_info" where
  "new_meta env agent project cwd program rq =
     \<lparr>si_session_id = fresh_session env, si_project_id = Some project, si_label = trim (cs_label rq), si_initial_cwd = cwd,
      si_profile = cs_profile rq, si_agent_epoch = agent, si_generation = 1, si_state = Running,
      si_cols = cs_cols rq, si_rows = cs_rows rq, si_output_seq = lit ''0'', si_pid = child_pid env,
      si_process_created = map_option (\<lambda>v. dec (unat v)) (child_created env), si_program_path = Some program,
      si_last_activity_at = Some (dec (at_wall env)), si_composer_allowed = False, si_lease = None\<rparr>"

definition running_count :: "'m manager \<Rightarrow> nat" where
  "running_count m = length (filter (\<lambda>e. running (snd e)) (sessions m))"

definition request_ok :: "create_session \<Rightarrow> bool" where
  "request_ok rq \<longleftrightarrow> \<not> (trim (cs_label rq) = [] \<or> length (cs_label rq) > 160 \<or> cs_cols rq < 2 \<or> cs_cols rq > MAX_COLS
     \<or> cs_rows rq < 1 \<or> cs_rows rq > MAX_ROWS)"

text \<open>
  \<open>create\<close>. When a step after the spawn fails, the session is dropped, which kills its child. The
  state returned with an error has the finished sessions archived and the project bound as far
  as the handler had come.
\<close>

definition create :: "probe \<Rightarrow> 'm spawn_env \<Rightarrow> create_session \<Rightarrow> 'm manager \<Rightarrow> 'm manager \<times> session_info result" where
  "create pr env rq m =
     (if \<not> request_ok rq then (m, Err InvalidRequest)
      else (case canonical env of None \<Rightarrow> (m, Err InvalidRequest) | Some can \<Rightarrow>
      (case normalize_pty_cwd can of Err e \<Rightarrow> (m, Err e) | Ok cwd \<Rightarrow>
      if \<not> cwd_is_dir env then (m, Err InvalidRequest)
      else if running_count m \<ge> max_sessions m then (m, Err RateLimited)
      else (let m1 = m\<lparr>sessions := hm_retain (\<lambda>_ s. running s) (sessions m)\<rparr> in
        case project_for_cwd (mgr_store m1) cwd (cs_project_id rq) (fresh_project env) of
          None \<Rightarrow> (m1, Err InvalidRequest)
        | Some (st, project) \<Rightarrow>
          (let m2 = m1\<lparr>mgr_store := st\<rparr> in
           if \<not> pty_opened env then (m2, Err Internal)
           else (case launch env of Err e \<Rightarrow> (m2, Err e) | Ok (program, managed) \<Rightarrow>
             if \<not> reader_cloned env \<or> \<not> writer_taken env then (m2, Err Internal)
             else if \<not> child_spawned env then (m2, Err InvalidRequest)
             else if managed \<and> (child_pid env = None \<or> child_created env = None) then (m2, Err Internal)
             else if \<not> threads_started env then (m2, Err Internal)
             else (let s = new_session env (cfg_ring_bytes m2) (new_meta env (mgr_epoch m2) project cwd program rq) managed;
                       nfo = info pr s
                   in if \<not> session_saved env then (m2, Err Internal)
                      else (m2\<lparr>mgr_store := save_session (mgr_store m2) nfo,
                              sessions := hm_insert (fresh_session env) (changed (lit ''created'') s) (sessions m2)\<rparr>,
                            Ok nfo))))))))"

definition revoke_connection_all :: "uuid \<Rightarrow> 'm manager \<Rightarrow> 'm manager" where
  "revoke_connection_all i m = m\<lparr>sessions := hm_map (\<lambda>s. changed (lit ''lease'')
     (s\<lparr>s_lease := revoke_connection (s_lease s) i\<rparr>)) (sessions m)\<rparr>"

definition revoke_client_all :: "uuid \<Rightarrow> 'm manager \<Rightarrow> 'm manager" where
  "revoke_client_all i m = m\<lparr>sessions := hm_map (\<lambda>s. changed (lit ''lease'')
     (s\<lparr>s_lease := revoke_client (s_lease s) i\<rparr>)) (sessions m)\<rparr>"

definition block_input :: "'m manager \<Rightarrow> 'm manager" where
  "block_input m = m\<lparr>sessions := hm_map (\<lambda>s. changed (lit ''lease'')
     (s\<lparr>s_lease := revoke_all (s_lease s)\<rparr>)) (sessions m)\<rparr>"

definition shutdown :: "'m manager \<Rightarrow> 'm manager" where
  "shutdown m = m\<lparr>sessions := hm_map close (sessions m)\<rparr>"

section \<open>Lemmas\<close>

lemma running_count_retain: "running_count (m\<lparr>sessions := hm_retain (\<lambda>_ s. running s) (sessions m)\<rparr>) = running_count m"
  by (simp add: running_count_def hm_retain_def)

lemma filter_insert_le:
  "length (filter (\<lambda>e. P (snd e)) (hm_insert k v xs)) \<le> Suc (length (filter (\<lambda>e. P (snd e)) xs))"
  unfolding hm_insert_def by (induction xs) auto

lemma running_count_insert: "running_count (m\<lparr>sessions := hm_insert i s (sessions m)\<rparr>) \<le> Suc (running_count m)"
  using filter_insert_le [of running i s "sessions m"] by (simp add: running_count_def)

lemma running_count_store [simp]: "running_count (m\<lparr>mgr_store := st\<rparr>) = running_count m"
  by (simp add: running_count_def)

lemma create_Ok:
  assumes "create pr env rq m = (m', Ok nfo)"
  shows "request_ok rq \<and> running_count m < max_sessions m \<and> max_sessions m' = max_sessions m
    \<and> (\<exists>cwd project program managed. normalize_pty_cwd (the (canonical env)) = Ok cwd
        \<and> nfo = info pr (new_session env (cfg_ring_bytes m) (new_meta env (mgr_epoch m) project cwd program rq) managed)
        \<and> sessions m' = hm_insert (fresh_session env) (changed (lit ''created'')
            (new_session env (cfg_ring_bytes m) (new_meta env (mgr_epoch m) project cwd program rq) managed))
            (hm_retain (\<lambda>_ s. running s) (sessions m)))"
  using assms by (auto simp: create_def Let_def split: if_splits option.splits sum.splits prod.splits; blast)

lemma create_Err:
  assumes "create pr env rq m = (m', Err e)"
  shows "max_sessions m' = max_sessions m \<and> (sessions m' = sessions m \<or> sessions m' = hm_retain (\<lambda>_ s. running s) (sessions m))"
  using assms by (auto simp: create_def Let_def split: if_splits option.splits sum.splits prod.splits)

lemma create_running_count:
  assumes "running_count m \<le> max_sessions m"
  shows "running_count (fst (create pr env rq m)) \<le> max_sessions (fst (create pr env rq m))"
proof (cases "snd (create pr env rq m)")
  case (Inl e)
  then have "create pr env rq m = (fst (create pr env rq m), Err e)" by (simp add: prod_eq_iff)
  from create_Err [OF this] assms running_count_retain [of m] show ?thesis by (auto simp: running_count_def)
next
  case (Inr nfo)
  then have c: "create pr env rq m = (fst (create pr env rq m), Ok nfo)" by (simp add: prod_eq_iff)
  from create_Ok [OF c] obtain s where
    s: "running_count m < max_sessions m" "max_sessions (fst (create pr env rq m)) = max_sessions m"
      "sessions (fst (create pr env rq m)) = hm_insert (fresh_session env) s (hm_retain (\<lambda>_ s. running s) (sessions m))"
    by auto
  have "running_count (fst (create pr env rq m)) \<le> Suc (running_count m)"
    using running_count_insert [of "fresh_session env" s "m\<lparr>sessions := hm_retain (\<lambda>_ s. running s) (sessions m)\<rparr>"]
      running_count_retain [of m] s(3) by (simp add: running_count_def)
  with s show ?thesis by simp
qed

text \<open>A path that passed starts at a drive, has no verbatim prefix and is no network path.\<close>

lemma normalize_pty_cwd_Ok:
  assumes "normalize_pty_cwd v = Ok p"
  shows "3 \<le> length p \<and> is_ascii_alphabetic (p ! 0) \<and> p ! 1 = 0x3A \<and> p ! 2 \<in> {0x5C, 0x2F} \<and> utf16_len p < 260
    \<and> (v = p \<or> v = [0x5C, 0x5C, 0x3F, 0x5C] @ p)"
  using assms
  by (auto simp: normalize_pty_cwd_def drive_path_def strip_prefix_def prefix_def not_less split: if_splits)

lemma hm_get_map_Some: "hm_get (hm_map f xs) i = Some s \<Longrightarrow> \<exists>s0. s = f s0"
  by auto

lemma new_output_broadcast: "broadcast (new_output x n) = []"
  by (simp add: new_output_def)

definition sample_manager :: "bytes manager" where
  "sample_manager = new_manager 1 8 65536 empty_store"

definition sample_request :: create_session where
  "sample_request = \<lparr>cs_label = [0x20, 0x61], cs_project_id = None, cs_cwd = [], cs_profile = [], cs_cols = 80, cs_rows = 24\<rparr>"

definition sample_env :: "bytes spawn_env" where
  "sample_env = \<lparr>canonical = Some [0x43, 0x3A, 0x5C], cwd_is_dir = True, fresh_project = 21, fresh_session = 22,
     pty_opened = True, launch = Ok ([0x73], False), reader_cloned = True, writer_taken = True, child_spawned = True,
     child_pid = None, child_created = None, threads_started = True, session_saved = True, new_model = [],
     at_clock = 0, at_wall = 0, at_revoked = []\<rparr>"

definition sample_probe :: probe where
  "sample_probe = \<lparr>program_is_file = False, current_created = None, current_program = None\<rparr>"

lemma sample_create: "is_ok (snd (create sample_probe sample_env sample_request sample_manager))"
  by (simp add: create_def request_ok_def sample_request_def sample_env_def sample_manager_def new_manager_def
      trim_def trim_end_def ws1_def ws2_def ws3_def MAX_COLS_def MAX_ROWS_def normalize_pty_cwd_def strip_prefix_def
      drive_path_def is_ascii_alphabetic_def utf16_len_def running_count_def project_for_cwd_def empty_store_def Let_def)

section \<open>Properties\<close>

text \<open>The number of running sessions never exceeds the configured maximum: \<open>create\<close> keeps the bound
  on every path, success or error.\<close>

theorem create_respects_the_session_limit:
  assumes "running_count m \<le> max_sessions m"
  shows "running_count (fst (create pr env rq m)) \<le> max_sessions (fst (create pr env rq m))"
  by (rule create_running_count [OF assms])

theorem create_respects_the_session_limit_witness:
  "running_count (fst (create sample_probe sample_env sample_request sample_manager))
     \<le> max_sessions (fst (create sample_probe sample_env sample_request sample_manager))"
  by (rule create_respects_the_session_limit) (simp add: sample_manager_def new_manager_def running_count_def)

text \<open>What a created session is: the request was within the limits; the session is in the table,
  running, in generation 1 of this agent, with a trimmed non-empty label of at most 160 bytes, a
  working directory on a local drive, nobody in control of its input, and an empty output log.\<close>

theorem created_session_is_fresh:
  assumes "create pr env rq m = (m', Ok nfo)"
  shows "\<exists>s. get_session m' (si_session_id nfo) = Ok s \<and> running s \<and> validate_generation (mgr_epoch m) 1 s = Ok ()
    \<and> si_label nfo = trim (cs_label rq) \<and> si_label nfo \<noteq> [] \<and> length (si_label nfo) \<le> 160
    \<and> is_ascii_alphabetic (si_initial_cwd nfo ! 0) \<and> si_initial_cwd nfo ! 1 = 0x3A
    \<and> 2 \<le> si_cols nfo \<and> si_cols nfo \<le> 400 \<and> 1 \<le> si_rows nfo \<and> si_rows nfo \<le> 150
    \<and> (\<forall>cl c e now. \<not> holds (s_lease s) cl c e now) \<and> out_wf (out_state s) \<and> broadcast (out_state s) = []"
proof -
  from create_Ok [OF assms] obtain cwd project program managed where
    rq: "request_ok rq" and cwd: "normalize_pty_cwd (the (canonical env)) = Ok cwd"
    and nfo: "nfo = info pr (new_session env (cfg_ring_bytes m) (new_meta env (mgr_epoch m) project cwd program rq) managed)"
    and ses: "sessions m' = hm_insert (fresh_session env) (changed (lit ''created'')
            (new_session env (cfg_ring_bytes m) (new_meta env (mgr_epoch m) project cwd program rq) managed))
            (hm_retain (\<lambda>_ s. running s) (sessions m))" by blast
  let ?s = "changed (lit ''created'') (new_session env (cfg_ring_bytes m) (new_meta env (mgr_epoch m) project cwd program rq) managed)"
  have "get_session m' (si_session_id nfo) = Ok ?s"
    by (simp add: get_session_def ses nfo info_def Let_def new_session_def new_meta_def)
  moreover have "length (trim (cs_label rq)) \<le> 160"
    using rq length_trim [of "cs_label rq"] by (simp add: request_ok_def)
  moreover have "1 \<le> cs_rows rq" using rq unfolding request_ok_def not_less de_Morgan_disj by blast
  ultimately show ?thesis
    using rq normalize_pty_cwd_Ok [OF cwd] unfolding nfo
    by (intro exI [of _ ?s])
      (auto simp: request_ok_def not_less MAX_COLS_def MAX_ROWS_def info_def Let_def new_session_def new_meta_def changed_def
        validate_generation_def holds_def verify_def default_lease_def new_output_broadcast)
qed

theorem created_session_is_fresh_witness:
  "\<exists>nfo s. snd (create sample_probe sample_env sample_request sample_manager) = Ok nfo
    \<and> get_session (fst (create sample_probe sample_env sample_request sample_manager)) (si_session_id nfo) = Ok s \<and> running s"
proof -
  obtain nfo where "create sample_probe sample_env sample_request sample_manager
      = (fst (create sample_probe sample_env sample_request sample_manager), Ok nfo)"
    using sample_create
    by (cases "snd (create sample_probe sample_env sample_request sample_manager)") (auto simp: prod_eq_iff)
  from created_session_is_fresh [OF this] this show ?thesis by (metis snd_conv)
qed

text \<open>Revoking input control reaches every session: after \<open>block_input\<close> no client, and after
  \<open>revoke_client\<close> or \<open>revoke_connection\<close> no lease of that client or connection, passes the check in
  any session, at any time.\<close>

theorem revocation_reaches_every_session:
  "(get_session (block_input m) i = Ok s \<longrightarrow> \<not> holds (s_lease s) cl c e now)
   \<and> (get_session (revoke_client_all cl m) i = Ok s \<longrightarrow> \<not> holds (s_lease s) cl c e now)
   \<and> (get_session (revoke_connection_all c m) i = Ok s \<longrightarrow> \<not> holds (s_lease s) cl c e now)"
  by (auto simp: get_session_def block_input_def revoke_client_all_def revoke_connection_all_def holds_def verify_def
      revoke_all_def revoke_client_def revoke_connection_def split: option.splits if_splits)

theorem revocation_reaches_every_session_witness:
  "\<not> holds (s_lease (changed (lit ''lease'') (sample_session\<lparr>s_lease := revoke_all (s_lease sample_session)\<rparr>))) 7 3 1 0"
proof -
  let ?m = "sample_manager\<lparr>sessions := [(5, sample_session)]\<rparr>"
  have "get_session (block_input ?m) 5
      = Ok (changed (lit ''lease'') (sample_session\<lparr>s_lease := revoke_all (s_lease sample_session)\<rparr>))"
    by (simp add: get_session_def block_input_def hm_map_def)
  with revocation_reaches_every_session [of ?m 5 _ 7 3 1 0] show ?thesis by blast
qed

end
