(* ===== verification/Control_Channel.thy ===== *)
theory Control_Channel
  imports Session_Manager Config "HOL-Library.Multiset"
begin

text \<open>
  The control channel of \<open>rc-agent/src/ws.rs\<close>: the ticket of the upgrade request, the two upgrade
  handlers, the dispatch of a control message to the sessions, and the loop with its biased
  select. The socket is the list of messages sent (\<open>sink\<close>); the bounded reply channel is \<open>tx\<close>.

  Tasks that wait for an input to be written are counted in \<open>children\<close>; a task that has finished
  and is not yet joined is in \<open>finished\<close>.
\<close>

section \<open>Model: upgrade\<close>

text \<open>The value of \<open>sec-websocket-protocol\<close>, \<open>None\<close> when it is absent or not text.\<close>

definition ticket :: "str option \<Rightarrow> str result" where
  "ticket h =
     (case h of None \<Rightarrow> Err Unauthenticated | Some raw \<Rightarrow>
      (let parts = map trim (split_on 0x2C raw) in
       if lit ''rctm.v1'' \<notin> set parts then Err InvalidRequest
       else (let candidates = List.map_filter (strip_prefix (lit ''rc-ticket.'')) parts in
         if length candidates \<noteq> 1 then Err Unauthenticated else Ok (hd candidates))))"

definition origin_ok :: "config \<Rightarrow> str option \<Rightarrow> bool" where
  "origin_ok c origin \<longleftrightarrow> (case origin of None \<Rightarrow> False | Some v \<Rightarrow> origin_allowed c v)"

definition control_upgrade ::
    "'h crypto \<Rightarrow> config \<Rightarrow> instant \<Rightarrow> str option \<Rightarrow> str option \<Rightarrow> 'h auth \<Rightarrow> 'h auth \<times> principal result" where
  "control_upgrade cr c now origin protocol a =
     (if \<not> origin_ok c origin then (a, Err OriginRejected)
      else (case ticket protocol of Err e \<Rightarrow> (a, Err e) | Ok t \<Rightarrow>
        (case consume_ws cr now t (lit ''control'') a of
           (a', Err e) \<Rightarrow> (a', Err e)
         | (a', Ok (p, _)) \<Rightarrow> (a', Ok p))))"

definition terminal_upgrade ::
    "'h crypto \<Rightarrow> config \<Rightarrow> instant \<Rightarrow> str option \<Rightarrow> str option \<Rightarrow> 'm manager \<Rightarrow> 'h auth
      \<Rightarrow> 'h auth \<times> (principal \<times> uuid) result" where
  "terminal_upgrade cr c now origin protocol m a =
     (if \<not> origin_ok c origin then (a, Err OriginRejected)
      else (case ticket protocol of Err e \<Rightarrow> (a, Err e) | Ok t \<Rightarrow>
        (case consume_ws cr now t (lit ''terminal'') a of
           (a', Err e) \<Rightarrow> (a', Err e)
         | (a', Ok (p, None)) \<Rightarrow> (a', Err InvalidRequest)
         | (a', Ok (p, Some i)) \<Rightarrow> (case get_session m i of Err e \<Rightarrow> (a', Err e) | Ok _ \<Rightarrow> (a', Ok (p, i))))))"

section \<open>Model: dispatch\<close>

datatype control_reply =
    R_hello uuid uuid uuid
  | R_pong uuid
  | R_lease uuid uuid lease_view
  | R_lease_released uuid uuid
  | R_resized uuid uuid
  | R_accepted uuid uuid uuid
  | R_written uuid uuid uuid u64
  | R_delivery_failed uuid uuid uuid error_code
  | R_delivery_unknown uuid uuid uuid
  | R_rejected uuid error_code
  | R_error
  | R_auth_refreshed uuid
  | R_resync
  | R_event str

text \<open>What a dispatch reads from outside: the emulator, the console's answer, whether the blocking task could be joined, the base64 decoder and the time of receipt.\<close>

record 'm dispatch_env =
  d_em :: "'m emulator"
  d_pty_ok :: bool
  d_joined :: bool
  d_b64 :: "str \<Rightarrow> bytes option"
  d_received :: instant

text \<open>A session operation on the table: the session is found, changed in place, and its answer returned.\<close>

definition with_session ::
    "uuid \<Rightarrow> ('m session \<Rightarrow> 'm session \<times> 'a result) \<Rightarrow> 'm manager \<Rightarrow> 'm manager \<times> 'a result" where
  "with_session i f m =
     (case get_session m i of Err e \<Rightarrow> (m, Err e) | Ok s \<Rightarrow>
      (case f s of (s', r) \<Rightarrow> (m\<lparr>sessions := hm_insert i s' (sessions m)\<rparr>, r)))"

definition checked_generation :: "uuid \<Rightarrow> u32 \<Rightarrow> ('m session \<Rightarrow> 'm session \<times> 'a result) \<Rightarrow> 'm session \<Rightarrow> 'm session \<times> 'a result" where
  "checked_generation agent gen f s =
     (case validate_generation agent gen s of Err e \<Rightarrow> (s, Err e) | Ok _ \<Rightarrow> f s)"

definition payload_bytes :: "(str \<Rightarrow> bytes option) \<Rightarrow> input_payload \<Rightarrow> bytes result" where
  "payload_bytes b64 p =
     (case p of Utf8_payload t \<Rightarrow> Ok t
      | Binary_payload t \<Rightarrow> (case b64 t of None \<Rightarrow> Err InvalidRequest | Some d \<Rightarrow> Ok d))"

definition enqueue_payload ::
    "'m dispatch_env \<Rightarrow> principal \<Rightarrow> uuid \<Rightarrow> u64 \<Rightarrow> uuid \<Rightarrow> u64 \<Rightarrow> input_payload \<Rightarrow> 'm session \<Rightarrow> 'm session \<times> unit result" where
  "enqueue_payload env p conn le iid seq pl s =
     (case payload_bytes (d_b64 env) pl of Err e \<Rightarrow> (s, Err e)
      | Ok data \<Rightarrow> enqueue p conn le iid seq data (d_received env) s)"

definition resize_blocking ::
    "'m dispatch_env \<Rightarrow> principal \<Rightarrow> uuid \<Rightarrow> u64 \<Rightarrow> u16 \<Rightarrow> u16 \<Rightarrow> 'm session \<Rightarrow> 'm session \<times> unit result" where
  "resize_blocking env p conn le cols rows s =
     (case session_resize (d_em env) (d_pty_ok env) p conn le cols rows s of
        (s', r) \<Rightarrow> (s', if d_joined env then r else Err Internal))"

text \<open>The \<open>match\<close> of \<open>dispatch\<close>: the new table, the reply, and whether a waiting task was started.\<close>

definition map_reply :: "('a \<Rightarrow> control_reply) \<Rightarrow> 'm manager \<times> 'a result \<Rightarrow> 'm manager \<times> control_reply result" where
  "map_reply f x = (case x of (m, Err e) \<Rightarrow> (m, Err e) | (m, Ok v) \<Rightarrow> (m, Ok (f v)))"

definition handle ::
    "'m dispatch_env \<Rightarrow> principal \<Rightarrow> uuid \<Rightarrow> nat \<Rightarrow> control_message \<Rightarrow> 'm manager \<Rightarrow> 'm manager \<times> control_reply result" where
  "handle env p conn children msg m =
     (case msg of
        RefreshAuth _ _ \<Rightarrow> (m, Err InvalidRequest)
      | Ping r \<Rightarrow> (m, Ok (R_pong r))
      | LeaseAcquire r sid takeover \<Rightarrow> map_reply (R_lease r sid) (with_session sid (session_acquire p conn takeover) m)
      | LeaseRenew r sid le \<Rightarrow> map_reply (R_lease r sid) (with_session sid (session_renew p conn le) m)
      | LeaseRelease r sid le \<Rightarrow> map_reply (\<lambda>_. R_lease_released r sid) (with_session sid (session_release p conn le) m)
      | Resize r sid agent gen le cols rows \<Rightarrow>
          map_reply (\<lambda>_. R_resized r sid) (with_session sid (checked_generation agent gen (resize_blocking env p conn le cols rows)) m)
      | Input r sid agent gen le iid seq pl \<Rightarrow>
          if children \<ge> 128 then (m, Err RateLimited)
          else map_reply (\<lambda>_. R_accepted r sid iid)
            (with_session sid (checked_generation agent gen (enqueue_payload env p conn le iid seq pl)) m))"

record ('m, 'h) control =
  c_p :: principal
  c_connection :: uuid
  c_window :: instant
  c_count :: nat
  children :: nat
  finished :: nat
  tx :: "control_reply list"
  sink :: "control_reply list"
  mgr :: "'m manager"
  c_auth :: "'h auth"

text \<open>\<open>try_send\<close> on the reply channel of 128 places.\<close>

definition try_reply :: "control_reply \<Rightarrow> ('m, 'h) control \<Rightarrow> ('m, 'h) control option" where
  "try_reply v st = (if length (tx st) \<ge> 128 then None else Some (st\<lparr>tx := tx st @ [v]\<rparr>))"

fun is_input :: "control_message \<Rightarrow> bool" where
  "is_input (Input _ _ _ _ _ _ _ _) = True"
| "is_input _ = False"

definition dispatch :: "'m dispatch_env \<Rightarrow> control_message \<Rightarrow> ('m, 'h) control \<Rightarrow> ('m, 'h) control \<times> unit result" where
  "dispatch env msg st =
     (case handle env (c_p st) (c_connection st) (children st) msg (mgr st) of
        (m, Err e) \<Rightarrow> (st\<lparr>mgr := m\<rparr>, Err e)
      | (m, Ok v) \<Rightarrow>
        (let st1 = st\<lparr>mgr := m, children := (if is_input msg then Suc (children st) else children st)\<rparr> in
         case try_reply v st1 of None \<Rightarrow> (st1, Err RateLimited) | Some st2 \<Rightarrow> (st2, Ok ())))"

text \<open>A task learns the outcome of its input and reports it, when the channel has room.\<close>

definition input_outcome :: "uuid \<Rightarrow> uuid \<Rightarrow> uuid \<Rightarrow> u64 result option \<Rightarrow> control_reply" where
  "input_outcome r sid iid outcome =
     (case outcome of
        Some (Ok us) \<Rightarrow> R_written r sid iid us
      | Some (Err e) \<Rightarrow> R_delivery_failed r sid iid e
      | None \<Rightarrow> R_delivery_unknown r sid iid)"

definition child_reports :: "control_reply \<Rightarrow> ('m, 'h) control \<Rightarrow> ('m, 'h) control" where
  "child_reports v st =
     (let st1 = st\<lparr>finished := Suc (finished st)\<rparr> in case try_reply v st1 of None \<Rightarrow> st1 | Some st2 \<Rightarrow> st2)"

section \<open>Model: the loop\<close>

datatype incoming =
    In_text "control_message option"
  | In_close
  | In_other
  | In_failed

datatype notice =
    N_event str
  | N_lagged
  | N_closed

text \<open>One iteration sees the clock, the shutdown flag, the outcome of a send, and what the socket and the event channel have ready.\<close>

record 'm control_env =
  ce_now :: instant
  ce_shutdown :: bool
  ce_send_ok :: bool
  ce_incoming :: "incoming option"
  ce_notice :: "notice option"
  ce_dispatch :: "'m dispatch_env"

definition send :: "control_reply \<Rightarrow> ('m, 'h) control \<Rightarrow> ('m, 'h) control" where
  "send v st = st\<lparr>sink := sink st @ [v]\<rparr>"

definition start_control :: "principal \<Rightarrow> uuid \<Rightarrow> instant \<Rightarrow> 'm manager \<Rightarrow> 'h auth \<Rightarrow> ('m, 'h) control" where
  "start_control p conn now m a =
     \<lparr>c_p = p, c_connection = conn, c_window = now, c_count = 0, children = 0, finished = 0, tx = [],
      sink = [R_hello conn (p_client p) (mgr_epoch m)], mgr = m, c_auth = a\<rparr>"

text \<open>The steps below return whether the loop goes on.\<close>

text \<open>The rate window: at most 2000 messages per second are handled.\<close>

definition count_message :: "instant \<Rightarrow> ('m, 'h) control \<Rightarrow> ('m, 'h) control \<times> bool" where
  "count_message now st =
     (let st1 = (if duration_since now (c_window st) \<ge> secs 1 then st\<lparr>c_window := now, c_count := 0\<rparr> else st);
          st2 = st1\<lparr>c_count := Suc (c_count st1)\<rparr>
      in (st2, c_count st2 \<le> 2000))"

definition refresh :: "'h crypto \<Rightarrow> instant \<Rightarrow> uuid \<Rightarrow> str \<Rightarrow> ('m, 'h) control \<Rightarrow> ('m, 'h) control \<times> bool" where
  "refresh cr now rid t st =
     (case consume_ws cr now t (lit ''control'') (c_auth st) of
        (a, Ok (next, None)) \<Rightarrow>
          if p_client next = p_client (c_p st) then (send (R_auth_refreshed rid) (st\<lparr>c_auth := a, c_p := next\<rparr>), True)
          else (st\<lparr>c_auth := a\<rparr>, False)
      | (a, _) \<Rightarrow> (st\<lparr>c_auth := a\<rparr>, False))"

definition on_message ::
    "'h crypto \<Rightarrow> 'm control_env \<Rightarrow> incoming \<Rightarrow> ('m, 'h) control \<Rightarrow> ('m, 'h) control \<times> bool" where
  "on_message cr env msg st =
     (case msg of
        In_failed \<Rightarrow> (st, False)
      | In_close \<Rightarrow> (st, False)
      | In_other \<Rightarrow> (st, True)
      | In_text body \<Rightarrow>
        (case count_message (ce_now env) st of (st1, ok) \<Rightarrow>
         if \<not> ok then (st1, False)
         else (case body of
            None \<Rightarrow> (send R_error st1, True)
          | Some (RefreshAuth rid t) \<Rightarrow> refresh cr (ce_now env) rid t st1
          | Some other \<Rightarrow>
            (case dispatch (ce_dispatch env) other st1 of
               (st2, Ok _) \<Rightarrow> (st2, True)
             | (st2, Err e) \<Rightarrow> (send (R_rejected (request_id other) e) st2, True)))))"

text \<open>One iteration of the biased select; with nothing ready the state stays.\<close>

definition control_iter :: "'h crypto \<Rightarrow> 'm control_env \<Rightarrow> ('m, 'h) control \<Rightarrow> ('m, 'h) control \<times> bool" where
  "control_iter cr env st =
     (if p_revoked (c_p st) \<in> set (cancelled (c_auth st)) then (st, False)
      else if ce_shutdown env then (st, False)
      else if p_expires (c_p st) \<le> ce_now env then (st, False)
      else (case tx st of
        v # rest \<Rightarrow> if ce_send_ok env then (send v (st\<lparr>tx := rest\<rparr>), True) else (st\<lparr>tx := rest\<rparr>, False)
      | [] \<Rightarrow>
        (case ce_incoming env of
          Some msg \<Rightarrow> on_message cr env msg st
        | None \<Rightarrow>
          (case ce_notice env of
            Some (N_event v) \<Rightarrow> if ce_send_ok env then (send (R_event v) st, True) else (st, False)
          | Some N_lagged \<Rightarrow> (send R_resync st, True)
          | Some N_closed \<Rightarrow> (st, False)
          | None \<Rightarrow> if finished st > 0 then (st\<lparr>finished := finished st - 1, children := children st - 1\<rparr>, True)
                    else (st, True)))))"

text \<open>After the loop: the tasks are aborted and the leases of the connection are revoked.\<close>

definition control_end :: "('m, 'h) control \<Rightarrow> ('m, 'h) control" where
  "control_end st = st\<lparr>children := 0, finished := 0, mgr := revoke_connection_all (c_connection st) (mgr st)\<rparr>"

section \<open>Invariant\<close>

text \<open>The budgets of one connection.\<close>

definition control_ok :: "('m, 'h) control \<Rightarrow> bool" where
  "control_ok st \<longleftrightarrow> length (tx st) \<le> 128 \<and> children st \<le> 128 \<and> c_count st \<le> 2001 \<and> finished st \<le> children st"

lemma send_simps [simp]:
  "tx (send v st) = tx st" "children (send v st) = children st" "c_count (send v st) = c_count st"
  "finished (send v st) = finished st" "mgr (send v st) = mgr st" "c_auth (send v st) = c_auth st" "c_p (send v st) = c_p st"
  by (simp_all add: send_def)

lemma control_ok_send [simp]: "control_ok (send v st) = control_ok st"
  by (simp add: control_ok_def)

lemma control_ok_other [simp]:
  "control_ok (st\<lparr>mgr := m\<rparr>) = control_ok st" "control_ok (st\<lparr>c_auth := a\<rparr>) = control_ok st"
  "control_ok (st\<lparr>c_p := p\<rparr>) = control_ok st" "control_ok (st\<lparr>c_window := w\<rparr>) = control_ok st"
  by (simp_all add: control_ok_def)

lemma try_reply_ok: "try_reply v st = Some st' \<Longrightarrow> control_ok st \<Longrightarrow> control_ok st'"
  by (auto simp: try_reply_def control_ok_def split: if_splits)

lemma handle_input_room:
  "handle env p conn n msg m = (m', Ok v) \<Longrightarrow> is_input msg \<Longrightarrow> n < 128"
  by (cases msg) (auto simp: handle_def split: if_splits)

lemma dispatch_ok:
  assumes "control_ok st" "dispatch env msg st = (st', r)"
  shows "control_ok st'"
proof -
  obtain m h where h: "handle env (c_p st) (c_connection st) (children st) msg (mgr st) = (m, h)" by fastforce
  show ?thesis
  proof (cases h)
    case (Inl e)
    then show ?thesis using assms h by (auto simp: dispatch_def)
  next
    case (Inr v)
    let ?st1 = "st\<lparr>mgr := m, children := (if is_input msg then Suc (children st) else children st)\<rparr>"
    have "control_ok ?st1" using assms(1) handle_input_room [of env "c_p st" "c_connection st" "children st" msg "mgr st" m v] h Inr
      by (auto simp: control_ok_def)
    with assms(2) h Inr try_reply_ok [of v ?st1] show ?thesis
      by (auto simp: dispatch_def Let_def split: option.splits)
  qed
qed

lemma count_message_ok:
  "control_ok st \<Longrightarrow> c_count st \<le> 2000 \<Longrightarrow> count_message now st = (st', ok) \<Longrightarrow>
     control_ok st' \<and> (ok \<longrightarrow> c_count st' \<le> 2000) \<and> mgr st' = mgr st \<and> tx st' = tx st"
  by (auto simp: count_message_def Let_def control_ok_def)

lemma dispatch_count [simp]: "c_count (fst (dispatch env msg st)) = c_count st"
  by (auto simp: dispatch_def try_reply_def Let_def split: prod.splits sum.splits option.splits)

lemma refresh_ok: "control_ok st \<Longrightarrow> control_ok (fst (refresh cr now rid t st)) \<and> c_count (fst (refresh cr now rid t st)) = c_count st"
  by (auto simp: refresh_def split: prod.splits sum.splits option.splits)

lemma on_message_ok:
  assumes "control_ok st" "c_count st \<le> 2000" "on_message cr env msg st = (st', go)"
  shows "control_ok st' \<and> (go \<longrightarrow> c_count st' \<le> 2000)"
proof (cases msg)
  case (In_text body)
  obtain st1 ok where c: "count_message (ce_now env) st = (st1, ok)" by fastforce
  note c' = count_message_ok [OF assms(1,2) c]
  show ?thesis
  proof (cases ok)
    case False
    then show ?thesis using assms(3) c c' In_text by (auto simp: on_message_def)
  next
    case True
    then have ok: "control_ok st1" "c_count st1 \<le> 2000" using c' by auto
    have d: "control_ok (fst (dispatch e x st1))" for e x
      using dispatch_ok [OF ok(1), of e x] by (cases "dispatch e x st1") auto
    have d2: "dispatch e x st1 = (s2, r) \<Longrightarrow> control_ok s2 \<and> c_count s2 \<le> 2000" for e x s2 r
      using d [of e x] dispatch_count [of e x st1] ok(2) by simp
    have r: "refresh cr now rid t st1 = (s2, g) \<Longrightarrow> control_ok s2 \<and> c_count s2 \<le> 2000" for now rid t s2 g
      using refresh_ok [OF ok(1), of cr now rid t] ok(2) by simp
    show ?thesis
      using assms(3) c True In_text ok
      by (auto simp: on_message_def split: option.splits control_message.splits prod.splits sum.splits dest: d2 r)
  qed
qed (use assms in \<open>auto simp: on_message_def\<close>)

lemma control_iter_ok:
  assumes "control_ok st" "c_count st \<le> 2000" "control_iter cr env st = (st', go)"
  shows "control_ok st' \<and> (go \<longrightarrow> c_count st' \<le> 2000)"
proof (cases "tx st = [] \<and> ce_incoming env \<noteq> None")
  case True
  then show ?thesis
    using assms on_message_ok [OF assms(1,2), of cr env "the (ce_incoming env)" st' go]
    by (auto simp: control_iter_def split: if_splits)
next
  case False
  then show ?thesis
    using assms
    by (auto simp: control_iter_def control_ok_def split: if_splits list.splits option.splits notice.splits)
qed

text \<open>Runs of a connection: its own iterations, its tasks, and whatever others do to the sessions and to the authorisation state.\<close>

inductive control_run :: "'h crypto \<Rightarrow> ('m, 'h) control \<Rightarrow> bool" for cr where
  start: "control_run cr (start_control p conn now m a)"
| turn: "control_run cr st \<Longrightarrow> control_iter cr env st = (st', True) \<Longrightarrow> control_run cr st'"
| report: "control_run cr st \<Longrightarrow> finished st < children st \<Longrightarrow> control_run cr (child_reports v st)"
| others: "control_run cr st \<Longrightarrow> control_run cr (st\<lparr>mgr := m, c_auth := a\<rparr>)"

lemma control_run_ok: "control_run cr st \<Longrightarrow> control_ok st \<and> c_count st \<le> 2000"
proof (induction rule: control_run.induct)
  case (turn st env st')
  then show ?case using control_iter_ok [of st cr env st' True] by blast
next
  case (report st v)
  then have "control_ok (st\<lparr>finished := Suc (finished st)\<rparr>)" by (simp add: control_ok_def)
  then show ?case
    using report try_reply_ok by (fastforce simp: child_reports_def Let_def try_reply_def split: option.splits if_splits)
qed (simp_all add: start_control_def control_ok_def)

section \<open>Lemmas: input\<close>

definition queued :: "'m session \<Rightarrow> input_job list" where
  "queued s = normal_q s @ interrupt_q s"

text \<open>What an enqueue may change: the ledger always, one queue by one job on success.\<close>

lemma enqueue_queues:
  assumes "enqueue p c le iid seq data received s = (s', r)"
  shows "pty s' = pty s \<and> s_lease s' = s_lease s \<and>
    (if is_ok r then \<exists>j. j_id j = iid \<and> j_data j = data \<and> j_p j = p \<and> j_connection j = c \<and> j_epoch j = le
        \<and> mset (queued s') = mset (queued s) + {#j#}
     else queued s' = queued s)"
proof -
  obtain g ra where a: "accept (s_ledger s) c le iid seq (length data) = (g, ra)" by fastforce
  show ?thesis
  proof (cases "is_ok (requires s p TerminalWrite) \<and> is_ok (verify (s_lease s) (p_client p) c le (clock s)) \<and> is_ok ra")
    case True
    then have f: "requires s p TerminalWrite = Ok ()" "verify (s_lease s) (p_client p) c le (clock s) = Ok ()" "ra = Ok ()"
      by (metis (full_types) old.unit.exhaust sum.collapse(2))+
    show ?thesis
      using assms
      by (auto simp: f a enqueue_def Let_def queued_def try_send_normal_def try_send_interrupt_def
          split: if_splits option.splits intro!: exI)
  next
    case False
    then show ?thesis using assms a by (auto simp: enqueue_def queued_def split: sum.splits) (metis sum.disc(1))+
  qed
qed

lemma enqueue_payload_queues:
  assumes "enqueue_payload env p c le iid seq pl s = (s', r)"
  shows "pty s' = pty s \<and> s_lease s' = s_lease s \<and>
    (if is_ok r then \<exists>j. payload_bytes (d_b64 env) pl = Ok (j_data j) \<and> j_id j = iid \<and> j_p j = p \<and> j_connection j = c
        \<and> j_epoch j = le \<and> mset (queued s') = mset (queued s) + {#j#}
     else queued s' = queued s)"
proof (cases "payload_bytes (d_b64 env) pl")
  case (Inl e)
  then show ?thesis using assms by (auto simp: enqueue_payload_def)
next
  case (Inr data)
  then have "enqueue p c le iid seq data (d_received env) s = (s', r)" using assms by (simp add: enqueue_payload_def)
  from enqueue_queues [OF this] Inr show ?thesis by (auto split: if_splits)
qed

text \<open>An input message touches only its session, and there only as \<open>enqueue\<close> does.\<close>

lemma handle_input:
  assumes "handle env p conn n (Input rid sid agent gen le iid seq pl) m = (m', r)"
  shows "(\<forall>e. r = Err e \<longrightarrow> (\<forall>i s'. get_session m' i = Ok s' \<longrightarrow> (\<exists>s. get_session m i = Ok s \<and> queued s' = queued s
            \<and> pty s' = pty s \<and> s_lease s' = s_lease s)))
    \<and> (\<forall>v. r = Ok v \<longrightarrow> v = R_accepted rid sid iid \<and> (\<exists>s s' j. get_session m sid = Ok s \<and> get_session m' sid = Ok s'
          \<and> validate_generation agent gen s = Ok ()
          \<and> payload_bytes (d_b64 env) pl = Ok (j_data j) \<and> j_id j = iid \<and> j_p j = p \<and> j_connection j = conn \<and> j_epoch j = le
          \<and> mset (queued s') = mset (queued s) + {#j#} \<and> pty s' = pty s
          \<and> (\<forall>i. i \<noteq> sid \<longrightarrow> get_session m' i = get_session m i)))"
proof (cases "n \<ge> 128 \<or> isl (get_session m sid)")
  case True
  then show ?thesis using assms
    by (auto simp: handle_def with_session_def map_reply_def split: if_splits sum.splits)
next
  case False
  then obtain s where s: "get_session m sid = Ok s" by (metis sum.collapse(2))
  have ins: "get_session (m\<lparr>sessions := hm_insert sid x (sessions m)\<rparr>) i = (if i = sid then Ok x else get_session m i)" for x i
    by (simp add: get_session_def)
  show ?thesis
  proof (cases "validate_generation agent gen s")
    case (Inl e)
    then show ?thesis using assms False s
      by (auto simp: handle_def with_session_def map_reply_def checked_generation_def ins split: if_splits)
  next
    case (Inr u)
    obtain s' q where q: "enqueue_payload env p conn le iid seq pl s = (s', q)" by fastforce
    note eq = enqueue_payload_queues [OF q]
    have h: "handle env p conn n (Input rid sid agent gen le iid seq pl) m
        = map_reply (\<lambda>_. R_accepted rid sid iid) (m\<lparr>sessions := hm_insert sid s' (sessions m)\<rparr>, q)"
      using False s Inr q by (simp add: handle_def with_session_def checked_generation_def)
    show ?thesis
    proof (cases q)
      case (Inl e)
      then show ?thesis using assms h eq s by (auto simp: map_reply_def ins split: if_splits)
    next
      case (Inr w)
      then show ?thesis using assms h eq s \<open>validate_generation agent gen s = Ok u\<close>
        by (auto simp: map_reply_def ins)
    qed
  qed
qed

section \<open>Properties\<close>

text \<open>C23. A reply tells the truth about an input: an input that is answered as accepted stands in the queue of
  its session exactly once, with the sender's principal, connection and lease epoch and the decoded
  bytes, and no other session changed; an input that is answered as rejected, while the reply
  channel has room, left every queue, every lease and every terminal as it was.\<close>

theorem input_replies_are_truthful:
  assumes "dispatch env (Input rid sid agent gen le iid seq pl) st = (st', r)"
  shows "(r = Ok () \<longrightarrow> (\<exists>s s' j. get_session (mgr st) sid = Ok s \<and> get_session (mgr st') sid = Ok s'
        \<and> payload_bytes (d_b64 env) pl = Ok (j_data j) \<and> j_id j = iid \<and> j_p j = c_p st \<and> j_connection j = c_connection st
        \<and> j_epoch j = le \<and> mset (queued s') = mset (queued s) + {#j#} \<and> pty s' = pty s
        \<and> (\<forall>i. i \<noteq> sid \<longrightarrow> get_session (mgr st') i = get_session (mgr st) i)
        \<and> tx st' = tx st @ [R_accepted rid sid iid]))
    \<and> (\<forall>e. r = Err e \<and> length (tx st) < 128 \<longrightarrow>
        (\<forall>i s'. get_session (mgr st') i = Ok s' \<longrightarrow>
          (\<exists>s. get_session (mgr st) i = Ok s \<and> queued s' = queued s \<and> pty s' = pty s \<and> s_lease s' = s_lease s)))"
proof -
  let ?msg = "Input rid sid agent gen le iid seq pl"
  obtain m h where h: "handle env (c_p st) (c_connection st) (children st) ?msg (mgr st) = (m, h)" by fastforce
  note H = handle_input [OF h]
  show ?thesis
  proof (cases h)
    case (Inl e)
    then have "st' = st\<lparr>mgr := m\<rparr>" "r = Err e" using assms h by (auto simp: dispatch_def)
    then show ?thesis using H Inl by simp
  next
    case (Inr v)
    then show ?thesis using assms h H by (auto simp: dispatch_def Let_def try_reply_def split: if_splits)
  qed
qed

text \<open>The instances: one session with a lease, and a connection that holds it.\<close>

definition one_session_manager :: "bytes manager" where
  "one_session_manager = (new_manager 1 8 65536 empty_store)\<lparr>sessions := [(5, sample_session)]\<rparr>"

definition one_control :: "(bytes, str) control" where
  "one_control = start_control one_principal 3 0 one_session_manager one_auth"

definition one_dispatch :: "bytes dispatch_env" where
  "one_dispatch = \<lparr>d_em = tape, d_pty_ok = True, d_joined = True, d_b64 = (\<lambda>_. None), d_received = 0\<rparr>"

definition one_input :: control_message where
  "one_input = Input 90 5 1 1 1 11 4 (Utf8_payload [0x61])"

lemma sample_enqueue: "snd (enqueue one_principal 3 1 11 4 [0x61] 0 sample_session) = Ok ()"
  by (simp add: enqueue_def sample_session_def requires_def require_def one_principal_def owner_scopes_def verify_def
      accept_def accept_limit_def default_ledger_def MAX_INPUT_def MAX_JS_INTEGER_def try_send_normal_def Let_def secs_def
      split: prod.splits)

lemma one_handle:
  "handle one_dispatch one_principal 3 0 one_input one_session_manager =
     (one_session_manager\<lparr>sessions := [(5, fst (enqueue one_principal 3 1 11 4 [0x61] 0 sample_session))]\<rparr>,
      Ok (R_accepted 90 5 11))"
proof -
  obtain s where "enqueue one_principal 3 1 11 4 [0x61] 0 sample_session = (s, Ok ())"
    using sample_enqueue by (cases "enqueue one_principal 3 1 11 4 [0x61] 0 sample_session") auto
  moreover have "validate_generation 1 1 sample_session = Ok ()"
    by (simp add: validate_generation_def sample_session_def sample_info_def)
  ultimately show ?thesis
    by (simp add: handle_def one_input_def with_session_def one_session_manager_def new_manager_def get_session_def
        checked_generation_def enqueue_payload_def payload_bytes_def one_dispatch_def map_reply_def hm_insert_def)
qed

theorem input_replies_are_truthful_witness:
  "\<exists>st' s s' j. dispatch one_dispatch one_input one_control = (st', Ok ()) \<and> get_session (mgr one_control) 5 = Ok s
     \<and> get_session (mgr st') 5 = Ok s' \<and> j_data j = [0x61] \<and> mset (queued s') = mset (queued s) + {#j#}"
proof -
  obtain st' where d: "dispatch one_dispatch one_input one_control = (st', Ok ())"
    by (simp add: dispatch_def one_control_def start_control_def one_handle try_reply_def Let_def)
  from input_replies_are_truthful [OF d [unfolded one_input_def]] d show ?thesis
    by (auto simp: payload_bytes_def)
qed

text \<open>
  The room in the reply channel is needed: with a full channel the input is queued, and its sender
  is told that it was rejected with a code that is marked as retryable.
\<close>

lemma full_channel_rejects_a_queued_input:
  "\<exists>st'. dispatch one_dispatch one_input (one_control\<lparr>tx := replicate 128 (R_pong 0)\<rparr>) = (st', Err RateLimited)
     \<and> sessions (mgr st') = [(5, fst (enqueue one_principal 3 1 11 4 [0x61] 0 sample_session))]
     \<and> retryable (api_error_from RateLimited)"
  by (simp add: dispatch_def one_control_def start_control_def one_handle try_reply_def Let_def api_error_from_def)

text \<open>The budgets of a connection hold in every run: at most 128 replies wait, at most 128 inputs are in
  flight, and no more than 2000 messages are handled in a window of one second.\<close>

theorem control_budgets_hold:
  assumes "control_run cr st"
  shows "length (tx st) \<le> 128 \<and> children st \<le> 128 \<and> finished st \<le> children st \<and> c_count st \<le> 2000"
  using control_run_ok [OF assms] by (simp add: control_ok_def)

theorem control_budgets_hold_witness:
  "length (tx one_control) \<le> 128 \<and> children one_control \<le> 128 \<and> finished one_control \<le> children one_control
   \<and> c_count one_control \<le> 2000"
proof -
  have "control_run plain_crypto one_control" unfolding one_control_def by (rule control_run.start)
  then show ?thesis by (rule control_budgets_hold)
qed

text \<open>Revocation ends the control channel at once: after \<open>revoke\<close>, whatever the authorisation service does
  next and whatever is waiting on the socket, the next iteration of a loop of that device leaves
  without handling a message, and the end of the channel leaves no lease of the connection in any
  session.\<close>

theorem revocation_ends_the_control_channel:
  assumes "reachable cr (a, ps)" "hm_contains (a_devices a) c"
    and "(auth_step cr UNIV)\<^sup>*\<^sup>* (fst (revoke ok c a), ps) (a', ps')" "c_p st \<in> set ps'" "p_client (c_p st) = c"
    and "c_auth st = a'"
  shows "control_iter cr env st = (st, False)
    \<and> (\<forall>i s. get_session (mgr (control_end st)) i = Ok s \<longrightarrow> \<not> holds (s_lease s) cl (c_connection st) e now)"
proof -
  have "reachable cr (fst (revoke ok c a), ps)"
    by (rule reachable_step [OF assms(1)], rule r_into_rtranclp, rule s_revoke)
  then have "auth_inv (a', ps')" using reachable_step [OF _ assms(3)] inv_reachable by blast
  moreover have "revoked_in a' c" using revoked_run [OF assms(3)] revoke_revokes [OF assms(2)] by simp
  ultimately have "p_revoked (c_p st) \<in> set (cancelled a')" using assms(4,5) revoked_token by blast
  then have "control_iter cr env st = (st, False)" by (simp add: control_iter_def assms(6))
  moreover have "\<not> holds (s_lease s) cl (c_connection st) e now" if "get_session (mgr (control_end st)) i = Ok s" for i s
    using that by (auto simp: control_end_def get_session_def revoke_connection_all_def changed_def holds_def verify_def
        revoke_connection_def split: option.splits if_splits)
  ultimately show ?thesis by blast
qed

theorem revocation_ends_the_control_channel_witness:
  "let st = one_control\<lparr>c_auth := fst (revoke False 7 one_auth)\<rparr> in
   control_iter plain_crypto \<lparr>ce_now = 0, ce_shutdown = False, ce_send_ok = True, ce_incoming = Some (In_text (Some one_input)),
     ce_notice = None, ce_dispatch = one_dispatch\<rparr> st = (st, False)"
  unfolding Let_def
  using revocation_ends_the_control_channel [OF one_reachable one_has_device, where ok = False and ps' = "[one_principal]"
      and st = "one_control\<lparr>c_auth := fst (revoke False 7 one_auth)\<rparr>" and a' = "fst (revoke False 7 one_auth)"]
  by (simp add: one_control_def start_control_def one_principal_def)

end
