(* ===== verification/Media_Stream.thy ===== *)
theory Media_Stream
  imports Media_Manager Gui_Session Control_Channel
begin

text \<open>
  The media channel of \<open>rc-agent/src/media.rs\<close> (\<open>upgrade\<close> and \<open>run\<close>): one iteration of the loop per event, over
  the authentication state, the media manager and the GUI session. The socket is the list of messages
  sent (\<open>ms_sink\<close>), the helper's input the list of messages written (\<open>ms_helper\<close>).

  An iteration ends with \<open>Go\<close>, with \<open>Stop\<close> (a \<open>break\<close>) or with \<open>Fail\<close> (an error, which also leaves the loop).
\<close>

section \<open>Model: state\<close>

datatype media_reply =
    MR_hello uuid source_view
  | MR_offer str
  | MR_ice str u32
  | MR_status media_mode capture_state u32 u32 bool bool bool
  | MR_lease "u64 option"
  | MR_error str
  | MR_pong

record 'h stream =
  ms_p :: principal
  ms_source :: approved
  ms_cancel :: token
  ms_lease :: "u64 option"
  ms_lease_until :: instant
  ms_last_encoded :: instant
  ms_last_presented :: instant
  ms_last_seq :: u64
  ms_last_frame :: u64
  ms_window :: instant
  ms_count :: nat
  ms_helper_control :: bool
  ms_capture :: capture_state
  ms_started :: instant
  ms_negotiated :: bool
  ms_gui :: gui_thread
  ms_sink :: "media_reply list"
  ms_helper :: "helper_in list"
  ms_mgr :: media_manager
  ms_auth :: "'h auth"

datatype outcome = Go | Stop | Fail

text \<open>
  What an iteration meets: the clock, Windows' monotonic milliseconds, the current rectangle of the source,
  whether sending to the socket, writing to the helper and waking the safety thread succeed, and what
  that thread does while an arm request waits for it.
\<close>

record media_env =
  me_now :: instant
  me_millis :: u64
  me_rect :: "rect option"
  me_shutdown :: bool
  me_send_ok :: bool
  me_helper_ok :: bool
  me_woken :: bool
  me_turns :: "((nat \<Rightarrow> bool) \<times> win_message) list"
  me_received :: bool

datatype media_event =
    E_tick
  | E_helper "helper_out option"
  | E_text "media_client_message option"
  | E_ping
  | E_gone

section \<open>Model: steps\<close>

text \<open>The \<open>send!\<close> macro and \<open>helper_send\<close>; both leave the loop when they fail.\<close>

definition media_send :: "media_env \<Rightarrow> media_reply \<Rightarrow> outcome \<Rightarrow> 'h stream \<Rightarrow> 'h stream \<times> outcome" where
  "media_send env v k st = (if me_send_ok env then (st\<lparr>ms_sink := ms_sink st @ [v]\<rparr>, k) else (st, Fail))"

definition helper_send :: "media_env \<Rightarrow> helper_in \<Rightarrow> 'h stream \<Rightarrow> 'h stream \<times> outcome" where
  "helper_send env v st = (if me_helper_ok env then (st\<lparr>ms_helper := ms_helper st @ [v]\<rparr>, Go) else (st, Fail))"

text \<open>The three statements that give up control.\<close>

definition drop_lease :: "media_env \<Rightarrow> 'h stream \<Rightarrow> 'h stream" where
  "drop_lease env st =
     st\<lparr>ms_gui := gs_disarm (me_woken env) (ms_gui st), ms_mgr := (ms_mgr st)\<lparr>mm_gui_controlled := False\<rparr>, ms_lease := None\<rparr>"

definition ready :: "media_env \<Rightarrow> 'h stream \<Rightarrow> bool" where
  "ready env st = helper_control_ready (ms_helper_control st) (ms_capture st) (ms_last_encoded st) (ms_last_presented st) (me_now env)"

definition gui_armed :: "'h stream \<Rightarrow> bool" where
  "gui_armed st = armed (flags (core (ms_gui st)))"

definition gui_revision :: "'h stream \<Rightarrow> u64" where
  "gui_revision st = revision (flags (core (ms_gui st)))"

definition on_tick :: "media_env \<Rightarrow> 'h stream \<Rightarrow> 'h stream \<times> outcome" where
  "on_tick env st =
     (if \<not> is_ok (require (cancelled (ms_auth st)) (me_now env) (ms_p st) TerminalRead)
         \<or> ap_until (ms_source st) \<le> me_now env \<or> closed (flags (core (ms_gui st)))
      then (st, Stop)
      else if me_rect env \<noteq> Some (ls_rect (ap_local (ms_source st)))
      then media_send env (MR_error (lit ''SOURCE_CHANGED_REOPEN_REQUIRED'')) Stop st
      else if \<not> ms_negotiated st \<and> duration_since (me_now env) (ms_started st) > secs 20
      then media_send env (MR_error (lit ''WEBRTC_NEGOTIATION_TIMEOUT'')) Stop st
      else if ms_lease st \<noteq> None
         \<and> (\<not> ready env st \<or> ms_lease_until st \<le> me_now env \<or> \<not> gui_armed st \<or> ms_lease st \<noteq> Some (gui_revision st))
      then media_send env (MR_lease None) Go (drop_lease env st)
      else (st, Go))"

text \<open>\<open>Instant::checked_sub\<close> of the age of a frame.\<close>

definition frame_time :: "instant \<Rightarrow> u64 \<Rightarrow> instant" where
  "frame_time now age = (if millis (unat age) \<le> now then now - millis (unat age) else now)"

definition on_frame :: "media_env \<Rightarrow> str \<Rightarrow> u64 \<Rightarrow> 'h stream \<Rightarrow> 'h stream \<times> outcome" where
  "on_frame env sq captured st =
     (case parse_uint (2 ^ 64) sq of None \<Rightarrow> (st, Fail) | Some n \<Rightarrow>
      (let seq = of_nat n in
       if seq \<le> ms_last_frame st then (st, Fail)
       else (case capture_age_ms (me_millis env) captured of Err _ \<Rightarrow> (st, Fail)
         | Ok age \<Rightarrow> (st\<lparr>ms_last_frame := seq, ms_last_encoded := frame_time (me_now env) age\<rparr>, Go))))"

definition on_helper :: "media_env \<Rightarrow> helper_out option \<Rightarrow> 'h stream \<Rightarrow> 'h stream \<times> outcome" where
  "on_helper env ev st =
     (case ev of
        None \<Rightarrow> (st, Stop)
      | Some HOut_Stopped \<Rightarrow> (st, Stop)
      | Some (HOut_Frame sq captured) \<Rightarrow> on_frame env sq captured st
      | Some (HOut_Offer sdp) \<Rightarrow> (case sanitize_sdp sdp of Err _ \<Rightarrow> (st, Fail) | Ok clean \<Rightarrow> media_send env (MR_offer clean) Go st)
      | Some (HOut_Ice cand mline) \<Rightarrow>
          if mline \<noteq> 0 \<or> \<not> candidate_allowed cand (mc_tailnet_ip (mm_config (ms_mgr st))) then (st, Fail)
          else media_send env (MR_ice cand mline) Go st
      | Some (HOut_Ready protocol) \<Rightarrow> (st, if protocol \<noteq> 1 then Fail else Go)
      | Some (HOut_Status mode cs fps bitrate adaptive control awaiting) \<Rightarrow>
          (let ctl = (control \<and> \<not> awaiting \<and> cs = Cap_Live);
               st1 = st\<lparr>ms_capture := cs, ms_helper_control := ctl\<rparr>;
               st2 = (if \<not> ctl then drop_lease env st1 else st1)
           in media_send env (MR_status mode cs fps bitrate adaptive ctl awaiting) Go st2)
      | Some (HOut_Error ec) \<Rightarrow> media_send env (MR_error ec) Stop st)"

section \<open>Model: client messages\<close>

text \<open>\<open>GuiSession::arm\<close>: the request is posted and the safety thread runs until it answers or the wait ends.\<close>

definition is_arm :: "gui_command \<Rightarrow> bool" where
  "is_arm c = (case c of C_arm _ \<Rightarrow> True | _ \<Rightarrow> False)"

fun gui_turns :: "os \<Rightarrow> ((nat \<Rightarrow> bool) \<times> win_message) list \<Rightarrow> gui_thread \<Rightarrow> gui_thread" where
  "gui_turns w [] t = t"
| "gui_turns w ((rep, m) # ts) t =
     (case thread_turn w rep m t of (t', go) \<Rightarrow> if go then gui_turns w ts t' else thread_end w t')"

definition gs_arm :: "os \<Rightarrow> media_env \<Rightarrow> gui_thread \<Rightarrow> gui_thread \<times> u64 option" where
  "gs_arm w env t =
     (let slot = length (arm_answers t) + length (filter is_arm (queue t)) in
      case gs_request_arm (me_woken env) t of (t1, posted) \<Rightarrow>
      if \<not> posted then (t1, None)
      else (let t2 = gui_turns w (me_turns env) t1 in
        (t2, if me_received env \<and> slot < length (arm_answers t2) then arm_answers t2 ! slot else None)))"

definition on_acquire :: "os \<Rightarrow> media_env \<Rightarrow> u32 \<Rightarrow> str \<Rightarrow> 'h stream \<Rightarrow> 'h stream \<times> outcome" where
  "on_acquire w env gen geo st =
     (let v = ap_view (ms_source st) in
      if \<not> ready env st \<or> \<not> mc_allow_control (mm_config (ms_mgr st)) \<or> \<not> sv_control_allowed v
         \<or> \<not> is_ok (require (cancelled (ms_auth st)) (me_now env) (ms_p st) (control_scope v))
         \<or> gen \<noteq> sv_generation v \<or> geo \<noteq> sv_geometry_version v
      then media_send env (MR_error (lit ''GUI_CONTROL_NOT_READY_OR_FORBIDDEN'')) Go st
      else (case gs_arm w env (ms_gui st) of
        (t, Some n) \<Rightarrow>
          media_send env (MR_lease (Some n)) Go
            (st\<lparr>ms_gui := t, ms_lease := Some n, ms_mgr := (ms_mgr st)\<lparr>mm_gui_controlled := True\<rparr>,
                ms_lease_until := me_now env + secs 15, ms_last_seq := 0\<rparr>)
      | (t, None) \<Rightarrow>
          media_send env (MR_error (lit ''FOREGROUND_OR_NATIVE_SAFETY_DENIED'')) Go (drop_lease env (st\<lparr>ms_gui := t\<rparr>))))"

definition on_renew :: "media_env \<Rightarrow> str \<Rightarrow> 'h stream \<Rightarrow> 'h stream \<times> outcome" where
  "on_renew env ep st =
     (if \<not> ready env st \<or> ms_lease st = None then (st, Go)
      else (case parse_uint (2 ^ 64) ep of None \<Rightarrow> (st, Fail) | Some n \<Rightarrow>
        if ms_lease st = Some (of_nat n) \<and> gui_armed st then (st\<lparr>ms_lease_until := me_now env + secs 15\<rparr>, Go) else (st, Go)))"

definition input_fresh :: "media_env \<Rightarrow> u64 \<Rightarrow> u32 \<Rightarrow> str \<Rightarrow> u64 \<Rightarrow> 'h stream \<Rightarrow> bool" where
  "input_fresh env e gen geo n st \<longleftrightarrow>
     ready env st \<and> ms_lease st = Some e \<and> gui_armed st \<and> \<not> ms_lease_until st \<le> me_now env
     \<and> gen = sv_generation (ap_view (ms_source st)) \<and> geo = sv_geometry_version (ap_view (ms_source st)) \<and> \<not> n \<le> ms_last_seq st"

definition on_input :: "media_env \<Rightarrow> str \<Rightarrow> u32 \<Rightarrow> str \<Rightarrow> str \<Rightarrow> gui_action \<Rightarrow> 'h stream \<Rightarrow> 'h stream \<times> outcome" where
  "on_input env ep gen geo seq a st =
     (case parse_uint (2 ^ 64) seq of None \<Rightarrow> (st, Fail) | Some n0 \<Rightarrow>
      (case parse_uint (2 ^ 64) ep of None \<Rightarrow> (st, Fail) | Some e0 \<Rightarrow>
       (let n = of_nat n0; e = of_nat e0 in
        if \<not> input_fresh env e gen geo n st then media_send env (MR_lease None) Go (drop_lease env st)
        else if \<not> is_ok (action_validate a) then (st, Fail)
        else (case gs_action (me_woken env) e a (ms_gui st) of (t, posted) \<Rightarrow>
          (st\<lparr>ms_last_seq := n, ms_gui := t\<rparr>, if posted then Go else Fail)))))"

definition on_presented :: "media_env \<Rightarrow> u32 \<Rightarrow> str \<Rightarrow> 'h stream \<Rightarrow> 'h stream \<times> outcome" where
  "on_presented env gen geo st =
     (if gen \<noteq> sv_generation (ap_view (ms_source st)) \<or> geo \<noteq> sv_geometry_version (ap_view (ms_source st)) then (st, Fail)
      else if duration_since (me_now env) (ms_last_encoded st) \<le> millis 500
      then (case gs_frame (me_woken env) (ms_gui st) of (t, posted) \<Rightarrow>
        (st\<lparr>ms_last_presented := me_now env, ms_gui := t\<rparr>, if posted then Go else Fail))
      else (st, Go))"

definition on_refresh :: "'h crypto \<Rightarrow> media_env \<Rightarrow> str \<Rightarrow> 'h stream \<Rightarrow> 'h stream \<times> outcome" where
  "on_refresh cr env t st =
     (case consume_ws cr (me_now env) t (lit ''media'') (ms_auth st) of
        (a, Err _) \<Rightarrow> (st\<lparr>ms_auth := a\<rparr>, Fail)
      | (a, Ok (p, i)) \<Rightarrow>
        if p_client p \<noteq> p_client (ms_p st) \<or> i \<noteq> Some (sv_id (ap_view (ms_source st))) then (st\<lparr>ms_auth := a\<rparr>, Fail)
        else if \<not> is_ok (get_source (cancelled a) (me_now env) (sv_id (ap_view (ms_source st))) p (ms_mgr st)) then (st\<lparr>ms_auth := a\<rparr>, Fail)
        else (st\<lparr>ms_auth := a, ms_p := p\<rparr>, Go))"

definition on_media_message :: "'h crypto \<Rightarrow> os \<Rightarrow> media_env \<Rightarrow> media_client_message \<Rightarrow> 'h stream \<Rightarrow> 'h stream \<times> outcome" where
  "on_media_message cr w env msg st =
     (case msg of
        MC_Answer sdp \<Rightarrow>
          if ms_negotiated st then (st, Fail)
          else (case sanitize_sdp sdp of Err _ \<Rightarrow> (st, Fail) | Ok clean \<Rightarrow>
            (case helper_send env (HIn_Answer clean) st of (st1, Go) \<Rightarrow> (st1\<lparr>ms_negotiated := True\<rparr>, Go) | x \<Rightarrow> x))
      | MC_Ice cand mline \<Rightarrow>
          if mline \<noteq> 0 \<or> \<not> list_ex (\<lambda>ip. candidate_allowed cand (Some ip)) (mc_allowed_peer_ips (mm_config (ms_mgr st))) then (st, Fail)
          else helper_send env (HIn_Ice cand mline) st
      | MC_Presented gen geo \<Rightarrow> on_presented env gen geo st
      | MC_Acquire gen geo \<Rightarrow> on_acquire w env gen geo st
      | MC_Renew e \<Rightarrow> on_renew env e st
      | MC_Release \<Rightarrow> media_send env (MR_lease None) Go (drop_lease env st)
      | MC_Input e gen geo seq a \<Rightarrow> on_input env e gen geo seq a st
      | MC_RefreshAuth t \<Rightarrow> on_refresh cr env t st
      | MC_Ping \<Rightarrow> media_send env MR_pong Go st
      | MC_Stop \<Rightarrow> (st, Stop))"

text \<open>The rate window: at most 500 messages per second.\<close>

definition media_count :: "instant \<Rightarrow> 'h stream \<Rightarrow> 'h stream \<times> bool" where
  "media_count now st =
     (let st1 = (if duration_since now (ms_window st) \<ge> secs 1 then st\<lparr>ms_window := now, ms_count := 0\<rparr> else st);
          st2 = st1\<lparr>ms_count := Suc (ms_count st1)\<rparr>
      in (st2, ms_count st2 \<le> 500))"

definition on_text :: "'h crypto \<Rightarrow> os \<Rightarrow> media_env \<Rightarrow> media_client_message option \<Rightarrow> 'h stream \<Rightarrow> 'h stream \<times> outcome" where
  "on_text cr w env body st =
     (case media_count (me_now env) st of (st1, ok) \<Rightarrow>
      if \<not> ok then (st1, Fail)
      else (case body of None \<Rightarrow> (st1, Fail) | Some msg \<Rightarrow> on_media_message cr w env msg st1))"

definition media_iter :: "'h crypto \<Rightarrow> os \<Rightarrow> media_env \<Rightarrow> media_event \<Rightarrow> 'h stream \<Rightarrow> 'h stream \<times> outcome" where
  "media_iter cr w env ev st =
     (if me_shutdown env \<or> ms_cancel st \<in> set (mm_cancelled (ms_mgr st)) \<or> p_revoked (ms_p st) \<in> set (cancelled (ms_auth st))
      then (st, Stop)
      else (case ev of
        E_tick \<Rightarrow> on_tick env st
      | E_helper h \<Rightarrow> on_helper env h st
      | E_text body \<Rightarrow> on_text cr w env body st
      | E_ping \<Rightarrow> (st, if me_send_ok env then Go else Fail)
      | E_gone \<Rightarrow> (st, Stop)))"

section \<open>Model: start and end\<close>

definition media_upgrade ::
    "'h crypto \<Rightarrow> config \<Rightarrow> instant \<Rightarrow> str option \<Rightarrow> str option \<Rightarrow> media_manager \<Rightarrow> 'h auth
      \<Rightarrow> 'h auth \<times> (principal \<times> approved) result" where
  "media_upgrade cr c now origin protocol m a =
     (if \<not> origin_ok c origin then (a, Err OriginRejected)
      else (case ticket protocol of Err e \<Rightarrow> (a, Err e) | Ok t \<Rightarrow>
        (case consume_ws cr now t (lit ''media'') a of
          (a', Err e) \<Rightarrow> (a', Err e)
        | (a', Ok (p, None)) \<Rightarrow> (a', Err InvalidRequest)
        | (a', Ok (p, Some i)) \<Rightarrow>
          (case get_source (cancelled a') now i p m of Err e \<Rightarrow> (a', Err e) | Ok s \<Rightarrow> (a', Ok (p, s))))))"

definition media_init_of :: "media_config \<Rightarrow> approved \<Rightarrow> media_init option" where
  "media_init_of c s =
     (case mc_tailnet_ip c of None \<Rightarrow> None
      | Some ip \<Rightarrow> Some \<lparr>mi_protocol = 1, mi_source = ap_local s, mi_profile = mc_profile c, mi_tailnet_ip = ip,
                         mi_min_port = mc_min_port c, mi_max_port = mc_max_port c\<rparr>)"

definition start_stream :: "instant \<Rightarrow> rect \<Rightarrow> principal \<Rightarrow> approved \<Rightarrow> uuid \<times> token \<Rightarrow> media_manager \<Rightarrow> 'h auth \<Rightarrow> 'h stream option" where
  "start_stream now desk p s slot m a =
     (case media_init_of (mm_config m) s of None \<Rightarrow> None | Some init \<Rightarrow> Some
       \<lparr>ms_p = p, ms_source = s, ms_cancel = snd slot, ms_lease = None, ms_lease_until = now - secs 60, ms_last_encoded = now - secs 60,
        ms_last_presented = now - secs 60, ms_last_seq = 0, ms_last_frame = 0, ms_window = now, ms_count = 0,
        ms_helper_control = False, ms_capture = Cap_Starting, ms_started = now, ms_negotiated = False,
        ms_gui = start_thread (ap_local s) desk now, ms_sink = [MR_hello (fst slot) (ap_view s)],
        ms_helper = [HIn_Init init], ms_mgr = m, ms_auth = a\<rparr>)"

text \<open>Every exit: control is given up, the helper stopped, the GUI session dropped and the slot freed.\<close>

definition end_stream :: "media_env \<Rightarrow> uuid \<Rightarrow> 'h stream \<Rightarrow> 'h stream" where
  "end_stream env sid st =
     (let st1 = st\<lparr>ms_gui := gs_disarm (me_woken env) (ms_gui st), ms_mgr := (ms_mgr st)\<lparr>mm_gui_controlled := False\<rparr>\<rparr>;
          st2 = fst (helper_send env HIn_Stop st1)
      in st2\<lparr>ms_gui := gs_drop (ms_gui st2), ms_mgr := finish_stream sid (ms_mgr st2)\<rparr>)"

section \<open>Runs\<close>

text \<open>
  A run interleaves the iterations of the channel with turns of the safety thread, local input that
  revokes the flags, and any change other tasks make to the manager (except its configuration) and to
  the authentication state.
\<close>

inductive media_run :: "'h crypto \<Rightarrow> os \<Rightarrow> 'h stream \<Rightarrow> bool" for cr w where
  start: "start_stream now desk p s slot m a = Some st \<Longrightarrow> media_run cr w st"
| iter: "media_run cr w st \<Longrightarrow> media_run cr w (fst (media_iter cr w env ev st))"
| thread: "media_run cr w st \<Longrightarrow> media_run cr w (st\<lparr>ms_gui := fst (thread_turn w rep m (ms_gui st))\<rparr>)"
| thread_ends: "media_run cr w st \<Longrightarrow> media_run cr w (st\<lparr>ms_gui := thread_end w (ms_gui st)\<rparr>)"
| preempted: "media_run cr w st \<Longrightarrow> media_run cr w (st\<lparr>ms_gui := (ms_gui st)\<lparr>core := revoke_flags (core (ms_gui st))\<rparr>\<rparr>)"
| others: "media_run cr w st \<Longrightarrow> mm_config m = mm_config (ms_mgr st) \<Longrightarrow> media_run cr w (st\<lparr>ms_mgr := m, ms_auth := a\<rparr>)"
| ends: "media_run cr w st \<Longrightarrow> media_run cr w (end_stream env sid st)"

text \<open>What an iteration does to the GUI session: nothing, or calls on its handle with turns of its thread.\<close>

inductive gui_calls :: "os \<Rightarrow> bool \<Rightarrow> gui_thread \<Rightarrow> gui_thread \<Rightarrow> bool" for w arms where
  none: "gui_calls w arms t t"
| posts: "gui_calls w arms t t' \<Longrightarrow> is_arm c \<longrightarrow> arms \<Longrightarrow> gui_calls w arms t (fst (post woken c t'))"
| disarms: "gui_calls w arms t t' \<Longrightarrow> gui_calls w arms t (gs_disarm woken t')"
| turns: "gui_calls w arms t t' \<Longrightarrow> gui_calls w arms t (fst (thread_turn w rep m t'))"
| thread_ended: "gui_calls w arms t t' \<Longrightarrow> gui_calls w arms t (thread_end w t')"
| flags_revoked: "gui_calls w arms t t' \<Longrightarrow> gui_calls w arms t (t'\<lparr>core := revoke_flags (core t')\<rparr>)"
| dropped: "gui_calls w arms t t' \<Longrightarrow> gui_calls w arms t (gs_drop t')"

lemma gui_calls_run: "gui_calls w arms t t' \<Longrightarrow> gui_run w t \<Longrightarrow> gui_run w t'"
  by (induction rule: gui_calls.induct) (auto intro: gui_run.intros)

lemma gui_calls_trans: "gui_calls w arms t' t'' \<Longrightarrow> gui_calls w arms t t' \<Longrightarrow> gui_calls w arms t t''"
  by (induction rule: gui_calls.induct) (auto intro: gui_calls.intros)

lemma gui_calls_turns: "gui_calls w arms t (gui_turns w ts t)"
proof (induction ts arbitrary: t)
  case (Cons x ts)
  obtain rep m where x: "x = (rep, m)" by fastforce
  obtain t' go where tt: "thread_turn w rep m t = (t', go)" by fastforce
  have "gui_calls w arms t (fst (thread_turn w rep m t))" by (rule gui_calls.turns, rule gui_calls.none)
  then have "gui_calls w arms t t'" by (simp add: tt)
  then have "gui_calls w arms t (gui_turns w ts t')" "gui_calls w arms t (thread_end w t')"
    using gui_calls_trans [OF Cons.IH] by (simp_all add: gui_calls.thread_ended)
  then show ?case by (simp add: x tt)
qed (simp add: gui_calls.none)

lemma gui_calls_arm:
  assumes "gs_arm w env t = (t', r)"
  shows "gui_calls w True t t'"
proof -
  obtain t1 posted where p: "gs_request_arm (me_woken env) t = (t1, posted)" by fastforce
  have "gui_calls w True t (fst (gs_request_arm (me_woken env) t))"
    unfolding gs_request_arm_def by (rule gui_calls.posts, rule gui_calls.none) simp
  then have 1: "gui_calls w True t t1" by (simp add: p)
  show ?thesis
    using assms 1 gui_calls_trans [OF gui_calls_turns 1] by (auto simp: gs_arm_def p Let_def split: if_splits)
qed

lemma media_send_simps [simp]:
  "ms_gui (fst (media_send env v k st)) = ms_gui st" "ms_source (fst (media_send env v k st)) = ms_source st"
  "ms_mgr (fst (media_send env v k st)) = ms_mgr st" "ms_lease (fst (media_send env v k st)) = ms_lease st"
  "ms_last_seq (fst (media_send env v k st)) = ms_last_seq st"
  by (simp_all add: media_send_def)

lemma helper_send_simps [simp]:
  "ms_gui (fst (helper_send env v st)) = ms_gui st" "ms_source (fst (helper_send env v st)) = ms_source st"
  "ms_mgr (fst (helper_send env v st)) = ms_mgr st" "ms_lease (fst (helper_send env v st)) = ms_lease st"
  by (simp_all add: helper_send_def)

lemma drop_lease_simps [simp]:
  "ms_gui (drop_lease env st) = gs_disarm (me_woken env) (ms_gui st)" "ms_source (drop_lease env st) = ms_source st"
  "mm_config (ms_mgr (drop_lease env st)) = mm_config (ms_mgr st)" "ms_lease (drop_lease env st) = None"
  by (simp_all add: drop_lease_def)

text \<open>The frame of a step: the source and the configuration stay, the GUI session is only called, and
  with no right to control it is not armed and no lease appears.\<close>

definition may_arm :: "'h stream \<Rightarrow> bool" where
  "may_arm st \<longleftrightarrow> mc_allow_control (mm_config (ms_mgr st)) \<and> sv_control_allowed (ap_view (ms_source st))"

definition stepped :: "os \<Rightarrow> 'h stream \<Rightarrow> 'h stream \<Rightarrow> bool" where
  "stepped w st st' \<longleftrightarrow> ms_source st' = ms_source st \<and> mm_config (ms_mgr st') = mm_config (ms_mgr st)
     \<and> gui_calls w (may_arm st) (ms_gui st) (ms_gui st') \<and> (ms_lease st' = ms_lease st \<or> ms_lease st' = None \<or> may_arm st)"

lemma stepped_same:
  "ms_source st' = ms_source st \<Longrightarrow> mm_config (ms_mgr st') = mm_config (ms_mgr st) \<Longrightarrow> ms_gui st' = ms_gui st \<Longrightarrow>
   ms_lease st' = ms_lease st \<Longrightarrow> stepped w st st'"
  by (simp add: stepped_def gui_calls.none)

lemma stepped_drop:
  "ms_source st' = ms_source st \<Longrightarrow> mm_config (ms_mgr st') = mm_config (ms_mgr st) \<Longrightarrow>
   ms_gui st' = gs_disarm woken (ms_gui st) \<Longrightarrow> ms_lease st' = None \<Longrightarrow> stepped w st st'"
  by (simp add: stepped_def gui_calls.intros)

lemma stepped_post:
  "ms_source st' = ms_source st \<Longrightarrow> mm_config (ms_mgr st') = mm_config (ms_mgr st) \<Longrightarrow>
   ms_gui st' = fst (post woken c (ms_gui st)) \<Longrightarrow> \<not> is_arm c \<Longrightarrow> ms_lease st' = ms_lease st \<Longrightarrow> stepped w st st'"
  by (simp add: stepped_def gui_calls.intros)

lemma stepped_tick: "stepped w st (fst (on_tick env st))"
  by (auto simp: on_tick_def intro: stepped_same stepped_drop)

lemma stepped_helper: "stepped w st (fst (on_helper env ev st))"
  by (auto simp: on_helper_def on_frame_def Let_def intro: stepped_same stepped_drop split: option.splits helper_out.splits sum.splits)

lemma stepped_presented: "stepped w st (fst (on_presented env gen geo st))"
proof -
  obtain t posted where g: "gs_frame (me_woken env) (ms_gui st) = (t, posted)" by fastforce
  have "t = fst (post (me_woken env) C_frame (ms_gui st))" using g by (simp add: gs_frame_def)
  then show ?thesis by (auto simp: on_presented_def g is_arm_def intro: stepped_same stepped_post)
qed

lemma stepped_input: "stepped w st (fst (on_input env ep gen geo seq a st))"
proof -
  have act: "stepped w st (st\<lparr>ms_last_seq := n, ms_gui := fst (gs_action woken e a (ms_gui st))\<rparr>)" for n e woken
    by (cases "\<not> armed (flags (core (ms_gui st))) \<or> e \<noteq> revision (flags (core (ms_gui st)))")
      (simp_all add: gs_action_def stepped_same, simp add: stepped_post is_arm_def)
  then have "stepped w st (fst (case gs_action woken e a (ms_gui st) of (t, posted) \<Rightarrow>
      (st\<lparr>ms_last_seq := n, ms_gui := t\<rparr>, if posted then Go else Fail)))" for n e woken
    by (simp add: split_beta)
  moreover have "stepped w st st" "stepped w st (fst (media_send env v k (drop_lease env st)))" for v k
    by (simp add: stepped_same) (rule stepped_drop, simp_all)
  ultimately show ?thesis by (simp add: on_input_def Let_def split: option.splits)
qed

lemma stepped_acquire: "stepped w st (fst (on_acquire w env gen geo st))"
proof (cases "may_arm st")
  case True
  obtain t r where g: "gs_arm w env (ms_gui st) = (t, r)" by fastforce
  have "gui_calls w (may_arm st) (ms_gui st) t" using gui_calls_arm [OF g] True by simp
  moreover from this have "gui_calls w (may_arm st) (ms_gui st) (gs_disarm (me_woken env) t)" by (rule gui_calls.disarms)
  ultimately show ?thesis
    by (auto simp: on_acquire_def g True Let_def stepped_def gui_calls.none split: option.splits)
next
  case False
  then show ?thesis by (auto simp: on_acquire_def may_arm_def Let_def intro: stepped_same)
qed

lemma stepped_message: "stepped w st (fst (on_media_message cr w env msg st))"
proof (cases msg)
  case (MC_Answer sdp)
  then show ?thesis
    by (auto simp: on_media_message_def helper_send_def intro: stepped_same split: sum.splits)
next
  case (MC_RefreshAuth t)
  then show ?thesis
    by (auto simp: on_media_message_def on_refresh_def intro: stepped_same split: prod.splits sum.splits)
qed (auto simp: on_media_message_def on_renew_def stepped_presented stepped_acquire stepped_input
    intro: stepped_same stepped_drop split: option.splits)

lemma media_count_frame:
  assumes "media_count now st = (st', ok)"
  shows "ms_source st' = ms_source st \<and> ms_mgr st' = ms_mgr st \<and> ms_gui st' = ms_gui st \<and> ms_lease st' = ms_lease st
    \<and> ms_last_seq st' = ms_last_seq st \<and> input_fresh env e gen geo n st' = input_fresh env e gen geo n st"
  using assms
  by (cases "duration_since now (ms_window st) \<ge> secs 1") (simp_all add: media_count_def Let_def input_fresh_def ready_def gui_armed_def, (clarsimp simp: input_fresh_def ready_def gui_armed_def)+)

lemma stepped_iter: "stepped w st (fst (media_iter cr w env ev st))"
proof -
  obtain st1 ok where c: "media_count (me_now env) st = (st1, ok)" by fastforce
  note f = media_count_frame [OF c]
  have "stepped w st1 x \<Longrightarrow> stepped w st x" for x using f by (simp add: stepped_def may_arm_def)
  moreover have "stepped w st st1" using f by (simp add: stepped_same)
  ultimately have "stepped w st (fst (on_text cr w env body st))" for body
    using stepped_message [of w st1 cr env] by (auto simp: on_text_def c split: option.splits)
  then show ?thesis
    by (auto simp: media_iter_def stepped_tick stepped_helper stepped_same split: media_event.splits)
qed

text \<open>The thread only takes commands from the front of its queue, and only an arm command is answered.\<close>

definition unarmed :: "gui_thread \<Rightarrow> bool" where
  "unarmed t \<longleftrightarrow> arm_answers t = [] \<and> list_all (\<lambda>c. \<not> is_arm c) (queue t)"

lemma handle_command_queue [simp]: "queue (handle_command w rep c t) = queue t"
  by (auto simp: handle_command_def split: gui_command.splits prod.splits)

lemma handle_command_answers: "\<not> is_arm c \<Longrightarrow> arm_answers (handle_command w rep c t) = arm_answers t"
  by (auto simp: handle_command_def is_arm_def split: gui_command.splits)

lemma run_commands_step:
  "run_commands w rep (Suc n) t =
     (if queue t = [] then (if handle_dropped t then handle_command w rep C_stop t else t)
      else let t' = handle_command w rep (hd (queue t)) (t\<lparr>queue := tl (queue t)\<rparr>)
           in if hd (queue t) = C_stop then t' else run_commands w rep n t')"
  by (cases "queue t") (auto split: gui_command.splits)

lemma run_commands_queue: "\<exists>k. queue (run_commands w rep n t) = drop k (queue t)"
proof (induction n arbitrary: t)
  case 0
  show ?case by (rule exI [of _ 0]) simp
next
  case (Suc n)
  let ?t' = "handle_command w rep (hd (queue t)) (t\<lparr>queue := tl (queue t)\<rparr>)"
  obtain k where k: "queue (run_commands w rep n ?t') = drop k (queue ?t')" using Suc by blast
  have "drop k (tl (queue t)) = drop (Suc k) (queue t)" "tl (queue t) = drop 1 (queue t)" "queue t = drop 0 (queue t)"
    by (simp_all add: drop_Suc)
  then show ?case
    unfolding run_commands_step Let_def using k
    by (auto simp del: run_commands.simps simp: drop_Suc [symmetric] intro: exI [of _ 0] exI [of _ 1] exI [of _ "Suc k"])
qed

lemma unarmed_command: "unarmed t \<Longrightarrow> \<not> is_arm c \<Longrightarrow> unarmed (handle_command w rep c t)"
  by (simp add: unarmed_def handle_command_answers)

lemma unarmed_run: "unarmed t \<Longrightarrow> unarmed (run_commands w rep n t)"
proof (induction n arbitrary: t)
  case (Suc n)
  show ?case
  proof (cases "queue t")
    case Nil
    then show ?thesis using Suc.prems unarmed_command [of t C_stop] by (simp add: run_commands_step is_arm_def)
  next
    case (Cons c cs)
    then have "unarmed (t\<lparr>queue := cs\<rparr>)" "\<not> is_arm c" using Suc.prems by (simp_all add: unarmed_def)
    then have "unarmed (handle_command w rep c (t\<lparr>queue := cs\<rparr>))" by (rule unarmed_command)
    then show ?thesis unfolding run_commands_step using Suc.IH Cons by (auto simp: Let_def)
  qed
qed simp

lemma unarmed_core [simp]: "unarmed (t\<lparr>core := g\<rparr>) = unarmed t"
  by (simp add: unarmed_def)

lemma wake_step_run: "fst (wake_step w rep m t) = (if m = M_wake then run_commands w rep 64 t else t)"
  by (simp add: wake_step_def Let_def)

lemma thread_turn_cases:
  obtains g where "fst (thread_turn w rep m t) = t\<lparr>core := g\<rparr>"
  | g where "fst (thread_turn w rep m t) = run_commands w rep 64 (t\<lparr>core := g\<rparr>)"
proof -
  obtain g2 go where q: "timer_step w m (disarm_if_revoked w (pump w (core t))) = (g2, go)" by fastforce
  have "fst (thread_turn w rep m t) =
    (if m = M_quit \<or> m = M_hotkey then t\<lparr>core := pump w (core t)\<rparr>
     else if \<not> go then t\<lparr>core := g2\<rparr> else if m = M_wake then run_commands w rep 64 (t\<lparr>core := g2\<rparr>) else t\<lparr>core := g2\<rparr>)"
    by (simp add: thread_turn_def Let_def q wake_step_run)
  then have "(\<exists>g. fst (thread_turn w rep m t) = t\<lparr>core := g\<rparr>) \<or> (\<exists>g. fst (thread_turn w rep m t) = run_commands w rep 64 (t\<lparr>core := g\<rparr>))"
    by metis
  then show thesis using that by blast
qed

lemma unarmed_turn: "unarmed t \<Longrightarrow> unarmed (fst (thread_turn w rep m t))"
  by (rule thread_turn_cases [of w rep m t]) (simp_all add: unarmed_run)

lemma turn_queue: "\<exists>k. queue (fst (thread_turn w rep m t)) = drop k (queue t)"
proof (rule thread_turn_cases [of w rep m t])
  fix g assume "fst (thread_turn w rep m t) = t\<lparr>core := g\<rparr>"
  then show ?thesis by (auto intro: exI [of _ 0])
next
  fix g assume "fst (thread_turn w rep m t) = run_commands w rep 64 (t\<lparr>core := g\<rparr>)"
  then show ?thesis using run_commands_queue [of w rep 64 "t\<lparr>core := g\<rparr>"] by simp
qed

lemma turns_queue: "\<exists>k. queue (gui_turns w ts t) = drop k (queue t)"
proof (induction ts arbitrary: t)
  case Nil
  show ?case by (auto intro: exI [of _ 0])
next
  case (Cons x ts)
  obtain rep m where x: "x = (rep, m)" by fastforce
  obtain t' go where tt: "thread_turn w rep m t = (t', go)" by fastforce
  obtain k where k: "queue t' = drop k (queue t)" using turn_queue [of w rep m t] tt by auto
  obtain j where "queue (gui_turns w ts t') = drop j (queue t')" using Cons by blast
  then show ?case using k by (auto simp: x tt thread_end_def Let_def)
qed

lemma unarmed_post: "unarmed t \<Longrightarrow> \<not> is_arm c \<Longrightarrow> unarmed (fst (post woken c t))"
  by (simp add: post_def unarmed_def Let_def)

lemma unarmed_calls: "gui_calls w arms t t' \<Longrightarrow> \<not> arms \<Longrightarrow> unarmed t \<Longrightarrow> unarmed t'"
proof (induction rule: gui_calls.induct)
  case (disarms t t' woken)
  then show ?case using unarmed_post [of _ C_disarm] by (simp add: gs_disarm_def is_arm_def)
qed (simp_all add: unarmed_post unarmed_turn thread_end_def gs_drop_def Let_def, auto simp: unarmed_def is_arm_def)

section \<open>Lemmas: runs\<close>

lemma media_run_frame:
  assumes "media_run cr w st"
  shows "gui_run w (ms_gui st) \<and> (may_arm st \<or> unarmed (ms_gui st) \<and> ms_lease st = None)"
  using assms
proof (induction rule: media_run.induct)
  case (start now desk p s slot m a st)
  have "unarmed (start_thread l d n)" for l d n by (simp add: unarmed_def start_thread_def)
  then show ?case using start by (auto simp: start_stream_def intro: gui_run.start split: option.splits)
next
  case (iter st env ev)
  let ?st' = "fst (media_iter cr w env ev st)"
  have s: "stepped w st ?st'" by (rule stepped_iter)
  then have "may_arm ?st' = may_arm st" by (simp add: stepped_def may_arm_def)
  then show ?case using s iter gui_calls_run unarmed_calls unfolding stepped_def by metis
next
  case (thread st rep m)
  then show ?case using unarmed_turn gui_run.turn by (auto simp: may_arm_def)
next
  case (ends st env sid)
  have c: "gui_calls w False (ms_gui st) (ms_gui (end_stream env sid st))"
    by (auto simp: end_stream_def Let_def helper_send_def intro: gui_calls.intros)
  have f: "ms_lease (end_stream env sid st) = ms_lease st" "may_arm (end_stream env sid st) = may_arm st"
    by (auto simp: end_stream_def Let_def helper_send_def may_arm_def finish_stream_def split: option.splits)
  show ?case using ends gui_calls_run [OF c] unarmed_calls [OF c] f by auto
qed (auto simp: may_arm_def thread_end_def Let_def intro: gui_run.revoked gui_run.ended [unfolded thread_end_def Let_def])

text \<open>No command other than an input message puts an action into the queue.\<close>

definition no_new_action :: "'h stream \<Rightarrow> 'h stream \<Rightarrow> bool" where
  "no_new_action st st' \<longleftrightarrow> (\<forall>e a. queue (ms_gui st') \<noteq> queue (ms_gui st) @ [C_action e a])"

lemma post_queue: "queue (fst (post woken c t)) = queue t \<or> queue (fst (post woken c t)) = queue t @ [c]"
  by (simp add: post_def Let_def)

lemma disarm_queue: "queue (gs_disarm woken t) = queue t \<or> queue (gs_disarm woken t) = queue t @ [C_disarm]"
  using post_queue [of woken C_disarm "t\<lparr>core := revoke_flags (core t)\<rparr>"] by (simp add: gs_disarm_def)

lemma action_queue:
  assumes "queue (fst (gs_action woken e' b t)) = queue t @ [C_action e a]"
  shows "e = e' \<and> a = b \<and> armed (flags (core t)) \<and> revision (flags (core t)) = e"
proof (cases "\<not> armed (flags (core t)) \<or> e' \<noteq> revision (flags (core t))")
  case True
  then show ?thesis using assms by (simp add: gs_action_def)
next
  case False
  then have "queue (fst (post woken (C_action e' b) t)) = queue t @ [C_action e a]" using assms by (simp add: gs_action_def)
  then have "C_action e' b = C_action e a" using post_queue [of woken "C_action e' b" t] by (elim disjE) simp_all
  then show ?thesis using False by simp
qed

lemma no_new_action_same: "ms_gui st' = ms_gui st \<Longrightarrow> no_new_action st st'"
  by (simp add: no_new_action_def)

lemma no_new_action_drop: "ms_gui st' = gs_disarm woken (ms_gui st) \<Longrightarrow> no_new_action st st'"
  using disarm_queue [of woken "ms_gui st"] by (auto simp: no_new_action_def)

lemma drop_snoc_neq:
  assumes "x \<noteq> y"
  shows "drop k (q @ [x]) \<noteq> q @ [y]"
proof
  assume eq: "drop k (q @ [x]) = q @ [y]"
  have "length (q @ [x]) - k = length (q @ [y])" unfolding length_drop [symmetric] by (simp only: eq)
  then have "k = 0" by simp
  with eq assms show False by simp
qed

lemma arm_queue:
  assumes "gs_arm w env t = (t', r)"
  shows "queue t' = queue t \<or> (\<exists>k n. queue t' = drop k (queue t @ [C_arm n])) \<or> (\<exists>k. queue t' = drop k (queue t))"
proof -
  obtain t1 posted where p: "gs_request_arm (me_woken env) t = (t1, posted)" by fastforce
  have 1: "queue t1 = queue t \<or> (\<exists>n. queue t1 = queue t @ [C_arm n])"
    using p post_queue [of "me_woken env" "C_arm (revision (flags (core t)))" t] by (auto simp: gs_request_arm_def)
  obtain k where k: "queue (gui_turns w (me_turns env) t1) = drop k (queue t1)" using turns_queue by blast
  have "t' = t1 \<or> t' = gui_turns w (me_turns env) t1" using assms p by (auto simp: gs_arm_def Let_def split: if_splits)
  then show ?thesis
  proof
    assume "t' = t1"
    then show ?thesis using 1 by (metis drop0)
  next
    assume "t' = gui_turns w (me_turns env) t1"
    then show ?thesis using 1 k by metis
  qed
qed

lemma drop_neq_snoc: "drop k q \<noteq> q @ [y]"
proof
  assume "drop k q = q @ [y]"
  then have "length (drop k q) = length (q @ [y])" by simp
  then show False by simp
qed

lemma arm_no_new_action:
  assumes "gs_arm w env (ms_gui st) = (t, r)" "ms_gui st' = t \<or> ms_gui st' = gs_disarm woken t"
  shows "no_new_action st st'"
proof -
  have "queue t \<noteq> queue (ms_gui st) @ [C_action e a]" for e a
    using arm_queue [OF assms(1)] drop_snoc_neq [of "C_arm _" "C_action e a"] drop_neq_snoc by fastforce
  then show ?thesis using assms(2) disarm_queue [of woken t] by (auto simp: no_new_action_def)
qed

lemma message_no_new_action:
  assumes "\<forall>ep gen geo seq a. msg \<noteq> MC_Input ep gen geo seq a"
  shows "no_new_action st (fst (on_media_message cr w env msg st))"
proof (cases msg)
  case (MC_Answer sdp)
  then show ?thesis
    by (auto simp: on_media_message_def helper_send_def intro: no_new_action_same split: sum.splits)
next
  case (MC_Presented gen geo)
  obtain t posted where g: "gs_frame (me_woken env) (ms_gui st) = (t, posted)" by fastforce
  have "queue t = queue (ms_gui st) \<or> queue t = queue (ms_gui st) @ [C_frame]"
    using post_queue [of "me_woken env" C_frame "ms_gui st"] g by (simp add: gs_frame_def)
  then show ?thesis using MC_Presented by (auto simp: on_media_message_def on_presented_def g no_new_action_def)
next
  case (MC_Acquire gen geo)
  obtain t r where g: "gs_arm w env (ms_gui st) = (t, r)" by fastforce
  show ?thesis
    using MC_Acquire arm_no_new_action [OF g, where woken = "me_woken env"]
    by (cases r) (auto simp: on_media_message_def on_acquire_def g Let_def intro: no_new_action_same)
next
  case (MC_RefreshAuth t)
  then show ?thesis
    by (auto simp: on_media_message_def on_refresh_def intro: no_new_action_same split: prod.splits sum.splits)
qed (use assms in \<open>auto simp: on_media_message_def on_renew_def intro: no_new_action_same no_new_action_drop split: option.splits\<close>)

lemma iter_no_new_action:
  assumes "\<forall>ep gen geo seq a. ev \<noteq> E_text (Some (MC_Input ep gen geo seq a))"
  shows "no_new_action st (fst (media_iter cr w env ev st))"
proof -
  have t: "no_new_action st (fst (on_tick env st))"
    by (auto simp: on_tick_def intro: no_new_action_same no_new_action_drop)
  have h: "no_new_action st (fst (on_helper env x st))" for x
    by (auto simp: on_helper_def on_frame_def Let_def intro: no_new_action_same no_new_action_drop
        split: option.splits helper_out.splits sum.splits)
  obtain st1 ok where c: "media_count (me_now env) st = (st1, ok)" by fastforce
  have g: "ms_gui st1 = ms_gui st" using media_count_frame [OF c] by simp
  have "no_new_action st (fst (on_text cr w env body st))" if "ev = E_text body" for body
  proof (cases body)
    case None
    then show ?thesis by (auto simp: on_text_def c intro: no_new_action_same g)
  next
    case (Some msg)
    then have "no_new_action st1 (fst (on_media_message cr w env msg st1))"
      using assms that by (intro message_no_new_action) auto
    then show ?thesis using g by (auto simp: Some on_text_def c no_new_action_def)
  qed
  then show ?thesis using t h by (auto simp: media_iter_def intro: no_new_action_same split: media_event.splits)
qed

section \<open>Properties\<close>

text \<open>C27. A view-only share cannot be controlled. When control is off in the configuration, or the local user
  approved the source for viewing only, no run of the media channel, with any messages of the client
  and any interleaving with the safety thread and other tasks, obtains a GUI lease or injects anything but releases.\<close>
theorem view_only_stream_never_injects:
  assumes "media_run cr w st" "\<not> mc_allow_control (mm_config (ms_mgr st)) \<or> \<not> sv_control_allowed (ap_view (ms_source st))"
  shows "ms_lease st = None \<and> list_all (\<lambda>i. is_release (i_event i)) (log (core (ms_gui st)))"
proof -
  have "unarmed (ms_gui st)" "ms_lease st = None" "gui_run w (ms_gui st)"
    using media_run_frame [OF assms(1)] assms(2) by (auto simp: may_arm_def)
  then show ?thesis using gui_run_authorised by (fastforce simp: authorised_def granted_def unarmed_def list_all_iff)
qed


text \<open>Every exit of the media channel gives up control: the flags of the GUI session are disarmed, the
  host no longer shows as controlled, the helper's session is told to stop when it can be, and the
  stream's slot is free.\<close>
theorem media_exit_gives_up_control:
  "\<not> armed (flags (core (ms_gui (end_stream env sid st)))) \<and> \<not> mm_gui_controlled (ms_mgr (end_stream env sid st))
   \<and> handle_dropped (ms_gui (end_stream env sid st))
   \<and> (mm_active (ms_mgr (end_stream env sid st)) =
        (case mm_active (ms_mgr st) of Some x \<Rightarrow> if act_id x = sid then None else Some x | None \<Rightarrow> None))"
proof -
  let ?m = "(ms_mgr st)\<lparr>mm_gui_controlled := False\<rparr>"
  have "ms_gui (end_stream env sid st) = gs_drop (gs_disarm (me_woken env) (ms_gui st))"
    "ms_mgr (end_stream env sid st) = finish_stream sid ?m"
    by (simp_all add: end_stream_def Let_def)
  moreover have "mm_active (finish_stream sid ?m) = (case mm_active (ms_mgr st) of Some x \<Rightarrow> if act_id x = sid then None else Some x | None \<Rightarrow> None)"
    "\<not> mm_gui_controlled (finish_stream sid ?m)"
    by (simp_all add: finish_stream_def split: option.splits)
  ultimately show ?thesis by (simp add: gs_drop_def revoke_flags_def sf_revoke_def Let_def)
qed

section \<open>Witnesses\<close>

definition share_media :: "bool \<Rightarrow> media_manager" where
  "share_media control = new_media (default_media_config\<lparr>mc_enabled := True, mc_allow_control := control, mc_tailnet_ip := Some []\<rparr>)"

definition share_auth :: "str auth" where
  "share_auth = new_auth empty_store [] 0"

definition share_env :: media_env where
  "share_env = \<lparr>me_now = secs 10, me_millis = 500, me_rect = None, me_shutdown = False, me_send_ok = True, me_helper_ok = True,
     me_woken = True, me_turns = [((\<lambda>_. True), M_wake)], me_received = True\<rparr>"

definition share_start :: "bool \<Rightarrow> str stream" where
  "share_start control = the (start_stream (secs 10) \<lparr>r_left = 0, r_top = 0, r_width = 100, r_height = 100\<rparr> media_owner small_approved
     (5, 0) (share_media control) share_auth)"

definition share_step :: "media_event \<Rightarrow> str stream \<Rightarrow> str stream" where
  "share_step ev st = fst (media_iter plain_crypto calm_os share_env ev st)"

definition share_armed :: "bool \<Rightarrow> str stream" where
  "share_armed control =
     share_step (E_text (Some (MC_Acquire 1 (lit ''1''))))
      (share_step (E_text (Some (MC_Presented 1 (lit ''1''))))
       (share_step (E_helper (Some (HOut_Frame (dec 1) 400)))
        (share_step (E_helper (Some (HOut_Status Hardware Cap_Live 15 2500 False True False))) (share_start control))))"

lemma share_start_run: "media_run plain_crypto calm_os (share_start control)"
  by (rule media_run.start, unfold share_start_def, rule option.collapse [symmetric])
    (simp add: start_stream_def media_init_of_def share_media_def new_media_def)

lemma share_armed_run: "media_run plain_crypto calm_os (share_armed control)"
  unfolding share_armed_def share_step_def by (intro media_run.iter share_start_run)

text \<open>The states of the demonstration, step by step.\<close>

definition share_at :: "bool \<Rightarrow> bool \<Rightarrow> capture_state \<Rightarrow> instant \<Rightarrow> u64 \<Rightarrow> instant \<Rightarrow> nat \<Rightarrow> gui_thread \<Rightarrow> media_reply list \<Rightarrow> str stream" where
  "share_at control hc cs enc fr pres n t out =
     (share_start control)\<lparr>ms_helper_control := hc, ms_capture := cs, ms_last_encoded := enc, ms_last_frame := fr, ms_last_presented := pres,
       ms_count := n, ms_gui := t, ms_sink := out\<rparr>"

lemma share_auth_open: "cancelled share_auth = []"
  by (simp add: share_auth_def new_auth_def empty_store_def devices_of_def)

lemmas share_eval = share_step_def share_at_def share_start_def start_stream_def media_init_of_def share_media_def new_media_def
  media_iter_def share_env_def share_auth_open media_send_def Let_def

lemma share_status:
  "share_step (E_helper (Some (HOut_Status Hardware Cap_Live 15 2500 False True False))) (share_start True) =
     share_at True True Cap_Live 0 0 0 0 calm_start
       [MR_hello 5 (ap_view small_approved), MR_status Hardware Cap_Live 15 2500 False True False]"
  by (simp add: share_eval on_helper_def media_owner_def small_approved_def calm_start_def view_of_def secs_def)

lemma share_frame:
  "share_step (E_helper (Some (HOut_Frame (dec 1) 400))) (share_at True True Cap_Live 0 0 0 0 t out) =
     share_at True True Cap_Live 9900000000 1 0 0 t out"
  by (simp add: share_eval on_helper_def on_frame_def parse_dec capture_age_ms_def frame_time_def secs_def millis_def media_owner_def)

lemma share_presented:
  "share_step (E_text (Some (MC_Presented 1 (lit ''1'')))) (share_at True True Cap_Live 9900000000 1 0 0 t out) =
     share_at True True Cap_Live 9900000000 1 (secs 10) 1 (fst (post True C_frame t)) out"
  by (simp add: share_eval on_text_def media_count_def on_media_message_def on_presented_def gs_frame_def split_beta
      duration_since_def secs_def millis_def media_owner_def small_approved_def view_of_def)

text \<open>The safety thread answers the arm request in its first turn.\<close>

definition share_thread :: gui_thread where
  "share_thread = \<lparr>core = calm_gui (secs 10) [] True \<lparr>closed = False, armed = True, revision = 1\<rparr> [] 6, queue = [],
     handle_dropped = False, arm_answers = [Some 1]\<rparr>"

lemma calm_posted:
  "post True (C_arm 0) (fst (post True C_frame calm_start)) =
     (\<lparr>core = calm_gui (secs 5) [] False default_safety [] 0, queue = [C_frame, C_arm 0], handle_dropped = False, arm_answers = []\<rparr>, True)"
  by (simp add: calm_start_def start_thread_def new_backend_def default_safety_def post_def Let_def calm_gui_def secs_def)

lemma calm_turn:
  "thread_turn calm_os (\<lambda>_. True) M_wake
     \<lparr>core = calm_gui (secs 5) [] False default_safety [] 0, queue = [C_frame, C_arm 0], handle_dropped = False, arm_answers = []\<rparr>
   = (share_thread, True)"
  by (simp add: thread_turn_def wake_step_def timer_step_def Let_def calm_disarm run_commands_pos
      handle_command_def calm_arm numeral_2_eq_2 [symmetric] share_thread_def)

lemma calm_gs_arm: "gs_arm calm_os share_env (fst (post True C_frame calm_start)) = (share_thread, Some 1)"
proof -
  have 0: "arm_answers (fst (post True C_frame calm_start)) = []" "queue (fst (post True C_frame calm_start)) = [C_frame]"
    "revision (flags (core (fst (post True C_frame calm_start)))) = 0"
    by (simp_all add: calm_start_def start_thread_def default_safety_def post_def Let_def)
  show ?thesis
    by (simp add: gs_arm_def gs_request_arm_def 0 is_arm_def share_env_def Let_def calm_posted calm_turn)
      (simp add: share_thread_def)
qed

definition share_control :: "str stream" where
  "share_control = (share_at True True Cap_Live 9900000000 1 (secs 10) 2 share_thread
     [MR_hello 5 (ap_view small_approved), MR_status Hardware Cap_Live 15 2500 False True False, MR_lease (Some 1)])
     \<lparr>ms_lease := Some 1, ms_mgr := (share_media True)\<lparr>mm_gui_controlled := True\<rparr>, ms_lease_until := secs 25\<rparr>"

lemma share_acquire:
  "share_step (E_text (Some (MC_Acquire 1 (lit ''1'')))) (share_at True True Cap_Live 9900000000 1 (secs 10) 1 (fst (post True C_frame calm_start))
      [MR_hello 5 (ap_view small_approved), MR_status Hardware Cap_Live 15 2500 False True False]) = share_control"
proof -
  let ?st = "share_at True True Cap_Live 9900000000 1 (secs 10) 1 (fst (post True C_frame calm_start))
      [MR_hello 5 (ap_view small_approved), MR_status Hardware Cap_Live 15 2500 False True False]"
  have r: "ready share_env (?st\<lparr>ms_count := n\<rparr>)" for n
    by (simp add: ready_def helper_control_ready_def share_at_def share_env_def duration_since_def secs_def millis_def)
  have c: "media_count (me_now share_env) ?st = (?st\<lparr>ms_count := 2\<rparr>, True)"
    by (simp add: media_count_def Let_def share_env_def share_at_def share_start_def start_stream_def media_init_of_def share_media_def
        new_media_def duration_since_def secs_def)
  have a: "on_acquire calm_os share_env 1 (lit ''1'') (?st\<lparr>ms_count := 2\<rparr>) = (share_control, Go)"
    using r [of 2] calm_gs_arm
    by (simp add: on_acquire_def Let_def) (simp add: share_eval share_control_def control_scope_def view_of_def small_approved_def media_owner_def
        require_def secs_def lit_def)
  have i: "media_iter plain_crypto calm_os share_env (E_text (Some (MC_Acquire 1 (lit ''1'')))) ?st
      = on_text plain_crypto calm_os share_env (Some (MC_Acquire 1 (lit ''1''))) ?st"
    by (simp add: share_eval media_owner_def)
  show ?thesis unfolding share_step_def i on_text_def c by (simp add: on_media_message_def a del: One_nat_def)
qed

lemma share_armed_eq: "share_armed True = share_control"
  by (simp only: share_armed_def share_status share_frame share_presented share_acquire)

lemma share_step_config: "mm_config (ms_mgr (share_step ev st)) = mm_config (ms_mgr st)"
  using stepped_iter [of calm_os st plain_crypto share_env ev] by (simp add: share_step_def stepped_def)

lemma share_armed_config: "\<not> mc_allow_control (mm_config (ms_mgr (share_armed False)))"
  by (simp add: share_armed_def share_step_config) (simp add: share_start_def start_stream_def media_init_of_def share_media_def new_media_def)

theorem view_only_stream_never_injects_witness:
  "media_run plain_crypto calm_os (share_armed False) \<and> ms_lease (share_armed False) = None"
  using view_only_stream_never_injects [OF share_armed_run [of False]] share_armed_run [of False] share_armed_config by blast

definition share_input :: media_event where
  "share_input = E_text (Some (MC_Input (dec 1) 1 (lit ''1'') (dec 1) (Act_Key 30 False True)))"

lemma share_typed:
  "media_iter plain_crypto calm_os share_env share_input share_control =
     (share_control\<lparr>ms_count := 3, ms_last_seq := 1, ms_gui := share_thread\<lparr>queue := [C_action 1 (Act_Key 30 False True)]\<rparr>\<rparr>, Go)"
proof -
  let ?st = "share_control\<lparr>ms_count := 3\<rparr>"
  have r: "ready share_env ?st"
    by (simp add: ready_def helper_control_ready_def share_control_def share_at_def share_env_def duration_since_def secs_def millis_def)
  have c: "media_count (me_now share_env) share_control = (?st, True)"
    by (simp add: media_count_def Let_def share_env_def share_control_def share_at_def share_start_def start_stream_def media_init_of_def
        share_media_def new_media_def duration_since_def secs_def)
  have g: "gs_action True 1 a (ms_gui ?st) = (share_thread\<lparr>queue := [C_action 1 a]\<rparr>, True)" for a
    by (simp add: share_control_def share_at_def gs_action_def post_def Let_def share_thread_def)
  have fr: "input_fresh share_env 1 1 (lit ''1'') 1 ?st"
    using r by (simp add: input_fresh_def) (simp add: share_control_def share_at_def share_start_def start_stream_def media_init_of_def
        share_media_def new_media_def gui_armed_def share_thread_def small_approved_def view_of_def share_env_def secs_def Let_def)
  have i: "media_iter plain_crypto calm_os share_env share_input share_control
      = on_text plain_crypto calm_os share_env (Some (MC_Input (dec 1) 1 (lit ''1'') (dec 1) (Act_Key 30 False True))) share_control"
    by (simp add: share_eval share_control_def media_owner_def share_input_def)
  have "me_woken share_env" by (simp add: share_env_def)
  then show ?thesis
    unfolding i on_text_def c using g fr by (simp add: on_media_message_def on_input_def parse_dec Let_def)
qed


end
