(* ===== verification/Preview.thy ===== *)
theory Preview
  imports Auth Config Utf8
begin

text \<open>
  The preview gateways of \<open>rc-agent/src/preview.rs\<close>: registering a local port under an origin of its own,
  the launch tickets and browser credentials, the checks of a proxied request, and the headers that
  pass in both directions.

  The \<open>http\<close>, \<open>url\<close>, \<open>base64\<close>, \<open>cookie\<close> and \<open>uuid\<close> crates are parameters: \<open>headers\<close> are the operations of a
  header map, \<open>web\<close> the others. \<open>header_laws\<close> states the documented behaviour of a header map that is relied on.
  Secrets, clocks and what Windows says about a listening port are arguments.
\<close>

section \<open>Model: state\<close>

record preview_info =
  pi_id :: uuid
  pi_project :: uuid
  pi_port :: u16
  pi_gateway_port :: u16
  pi_origin :: str
  pi_pid :: u32
  pi_process_created :: str
  pi_approved_by :: uuid

record entry =
  e_info :: preview_info
  e_created :: u64
  e_stop :: token

record grant =
  g_preview :: uuid
  g_client :: uuid
  g_until :: instant

record 'h previews =
  entries :: "(uuid, entry) hmap"
  launches :: "('h, grant) hmap"
  browsers :: "('h, grant) hmap"
  pv_next_token :: token
  pv_stopped :: "token list"

definition default_previews :: "'h previews" where
  "default_previews = \<lparr>entries = [], launches = [], browsers = [], pv_next_token = 0, pv_stopped = []\<rparr>"

definition pv_revoke_client :: "uuid \<Rightarrow> 'h previews \<Rightarrow> 'h previews" where
  "pv_revoke_client c v =
     v\<lparr>launches := hm_retain (\<lambda>_ g. g_client g \<noteq> c) (launches v), browsers := hm_retain (\<lambda>_ g. g_client g \<noteq> c) (browsers v)\<rparr>"

definition pv_block_all :: "'h previews \<Rightarrow> 'h previews" where
  "pv_block_all v = v\<lparr>launches := [], browsers := []\<rparr>"

definition pv_shutdown :: "'h previews \<Rightarrow> 'h previews" where
  "pv_shutdown v =
     v\<lparr>pv_stopped := map (e_stop \<circ> snd) (entries v) @ pv_stopped v, entries := [], launches := [], browsers := []\<rparr>"

definition pv_prune :: "instant \<Rightarrow> 'h previews \<Rightarrow> 'h previews" where
  "pv_prune now v =
     v\<lparr>launches := hm_retain (\<lambda>_ g. g_until g > now) (launches v), browsers := hm_retain (\<lambda>_ g. g_until g > now) (browsers v)\<rparr>"

section \<open>Model: registration\<close>

record register =
  rg_project :: uuid
  rg_port :: u16
  rg_public_port :: u16

text \<open>
  What registration asks of the outside: the origin with the public port (\<open>None\<close>: the configured origin
  does not parse or takes no port), the listening process, whether the gateway port could be bound,
  whether the reservation task ended, whether the HTTP client could be built.
\<close>

record register_env =
  re_origin :: "str option"
  re_identity :: "(u32 \<times> u64) option"
  re_bound :: bool
  re_joined :: bool
  re_client_built :: bool
  re_fresh :: uuid

definition register_ports_ok :: "config \<Rightarrow> register \<Rightarrow> bool" where
  "register_ports_ok c b \<longleftrightarrow>
     \<not> (rg_port b < 1024 \<or> rg_port b = sa_port (bind_addr c) \<or> (13844 \<le> rg_port b \<and> rg_port b \<le> 13851)
        \<or> \<not> (8444 \<le> rg_public_port b \<and> rg_public_port b \<le> 8451))"

definition new_entry :: "register_env \<Rightarrow> uuid \<Rightarrow> register \<Rightarrow> str \<Rightarrow> u32 \<times> u64 \<Rightarrow> token \<Rightarrow> entry" where
  "new_entry env cl b origin ident t =
     \<lparr>e_info = \<lparr>pi_id = re_fresh env, pi_project = rg_project b, pi_port = rg_port b, pi_gateway_port = rg_public_port b + 5400,
        pi_origin = origin, pi_pid = fst ident, pi_process_created = dec (unat (snd ident)), pi_approved_by = cl\<rparr>,
      e_created = snd ident, e_stop = t\<rparr>"

text \<open>Up to and including the insertion under the lock.\<close>

definition register_insert ::
    "config \<Rightarrow> register_env \<Rightarrow> principal \<Rightarrow> register \<Rightarrow> 'h previews \<Rightarrow> 'h previews \<times> entry result" where
  "register_insert c env p b v =
     (if \<not> register_ports_ok c b then (v, Err InvalidRequest)
      else if public_origin c = None then (v, Err PreviewNotApproved)
      else (case re_origin env of None \<Rightarrow> (v, Err InvalidRequest) | Some origin \<Rightarrow>
        (case re_identity env of None \<Rightarrow> (v, Err UpstreamChanged) | Some ident \<Rightarrow>
          if \<not> re_bound env then (v, Err PreviewNotApproved)
          else (let e = new_entry env (p_client p) b origin ident (pv_next_token v);
                    v1 = v\<lparr>pv_next_token := Suc (pv_next_token v)\<rparr> in
            if hm_len (entries v) \<ge> 8 \<or> list_ex (\<lambda>(_, x). pi_gateway_port (e_info x) = rg_public_port b + 5400) (entries v)
            then (v1, Err RateLimited)
            else (v1\<lparr>entries := hm_insert (re_fresh env) e (entries v)\<rparr>, Ok e)))))"

text \<open>The reservation of the origin in the store, and the start of the gateway.\<close>

definition register_reserve :: "register_env \<Rightarrow> entry \<Rightarrow> store \<times> 'h previews \<Rightarrow> (store \<times> 'h previews) \<times> preview_info result" where
  "register_reserve env e x = (case x of (st, v) \<Rightarrow>
     if \<not> re_joined env then ((st, v), Err Internal)
     else (case reserve_preview_slot st (pi_origin (e_info e)) (pi_project (e_info e)) of
       None \<Rightarrow> ((st, v\<lparr>entries := hm_remove (pi_id (e_info e)) (entries v)\<rparr>), Err PreviewNotApproved)
     | Some st' \<Rightarrow> ((st', v), if re_client_built env then Ok (e_info e) else Err Internal)))"

definition register_preview ::
    "config \<Rightarrow> register_env \<Rightarrow> principal \<Rightarrow> register \<Rightarrow> store \<times> 'h previews \<Rightarrow> (store \<times> 'h previews) \<times> preview_info result" where
  "register_preview c env p b x = (case x of (st, v) \<Rightarrow>
     (case register_insert c env p b v of
        (v', Err e) \<Rightarrow> ((st, v'), Err e)
      | (v', Ok e) \<Rightarrow> register_reserve env e (st, v')))"

definition list_previews :: "'h previews \<Rightarrow> preview_info list" where
  "list_previews v = map (e_info \<circ> snd) (entries v)"

definition remove_preview :: "uuid \<Rightarrow> 'h previews \<Rightarrow> 'h previews" where
  "remove_preview i v =
     (let v1 = (case hm_get (entries v) i of None \<Rightarrow> v
                | Some e \<Rightarrow> v\<lparr>entries := hm_remove i (entries v), pv_stopped := e_stop e # pv_stopped v\<rparr>)
      in v1\<lparr>launches := hm_retain (\<lambda>_ g. g_preview g \<noteq> i) (launches v1), browsers := hm_retain (\<lambda>_ g. g_preview g \<noteq> i) (browsers v1)\<rparr>)"

text \<open>The URL of a launch has the ticket in its fragment.\<close>

definition launch_preview :: "'h crypto \<Rightarrow> instant \<Rightarrow> str \<Rightarrow> principal \<Rightarrow> uuid \<Rightarrow> 'h previews \<Rightarrow> 'h previews \<times> str result" where
  "launch_preview cr now sec p i v =
     (let v1 = pv_prune now v in
      case hm_get (entries v1) i of
        None \<Rightarrow> (v1, Err PreviewNotApproved)
      | Some e \<Rightarrow>
        if hm_len (launches v1) \<ge> 64 then (v1, Err RateLimited)
        else (v1\<lparr>launches := hm_insert (digest cr sec) \<lparr>g_preview = i, g_client = p_client p, g_until = now + secs 30\<rparr> (launches v1)\<rparr>,
              Ok (pi_origin (e_info e) @ lit ''/_rc/bootstrap#'' @ sec)))"

section \<open>Model: headers\<close>

record 'm headers =
  h_get :: "'m \<Rightarrow> str \<Rightarrow> bytes option"
  h_get_all :: "'m \<Rightarrow> str \<Rightarrow> bytes list"
  h_remove :: "str \<Rightarrow> 'm \<Rightarrow> 'm"
  h_insert :: "str \<Rightarrow> bytes \<Rightarrow> 'm \<Rightarrow> 'm"
  h_append :: "str \<Rightarrow> bytes \<Rightarrow> 'm \<Rightarrow> 'm"

record web =
  to_str :: "bytes \<Rightarrow> str option"
  header_value :: "str \<Rightarrow> bytes option"
  uuid_simple :: "uuid \<Rightarrow> str"
  b64url_decode :: "str \<Rightarrow> bytes option"
  b64url_encode :: "bytes \<Rightarrow> str"
  url_parse :: "str \<Rightarrow> url_parts option"
  known_port :: "str \<Rightarrow> u16 option"
  ticket_of :: "bytes \<Rightarrow> str option option"
  cookie_name_of :: "str \<Rightarrow> str option"
  cookie_renamed :: "str \<Rightarrow> str \<Rightarrow> str"

text \<open>Names are compared without case; \<open>get\<close> is the first value.\<close>

definition header_laws :: "'m headers \<Rightarrow> bool" where
  "header_laws H \<longleftrightarrow>
     (\<forall>m k. h_get H m k = (case h_get_all H m k of [] \<Rightarrow> None | v # _ \<Rightarrow> Some v))
   \<and> (\<forall>m k n. h_get_all H (h_remove H k m) n = (if eq_ignore_ascii_case k n then [] else h_get_all H m n))
   \<and> (\<forall>m k v n. h_get_all H (h_insert H k v m) n = (if eq_ignore_ascii_case k n then [v] else h_get_all H m n))
   \<and> (\<forall>m k v n. h_get_all H (h_append H k v m) n = (if eq_ignore_ascii_case k n then h_get_all H m n @ [v] else h_get_all H m n))"

definition header_text :: "'m headers \<Rightarrow> web \<Rightarrow> 'm \<Rightarrow> str \<Rightarrow> str option" where
  "header_text H W m n = (case h_get H m n of None \<Rightarrow> None | Some v \<Rightarrow> to_str W v)"

definition text_or_empty :: "str option \<Rightarrow> str" where
  "text_or_empty x = (case x of None \<Rightarrow> [] | Some s \<Rightarrow> s)"

definition cookie_name :: "web \<Rightarrow> uuid \<Rightarrow> str" where
  "cookie_name W i = lit ''__Host-rcpv-'' @ uuid_simple W i"

definition cookie_prefix :: "web \<Rightarrow> uuid \<Rightarrow> str" where
  "cookie_prefix W i = lit ''rcapp_'' @ uuid_simple W i @ lit ''_''"

definition HOP_BY_HOP :: "str list" where
  "HOP_BY_HOP = [lit ''connection'', lit ''keep-alive'', lit ''proxy-authenticate'', lit ''proxy-authorization'', lit ''te'',
     lit ''trailer'', lit ''transfer-encoding'', lit ''upgrade'']"

definition strip_hop_by_hop :: "'m headers \<Rightarrow> web \<Rightarrow> 'm \<Rightarrow> 'm" where
  "strip_hop_by_hop H W m =
     (let listed = map trim (split_on 0x2C (text_or_empty (header_text H W m (lit ''connection''))))
      in fold (h_remove H) HOP_BY_HOP (fold (h_remove H) listed m))"

definition PRIVATE_HEADERS :: "str list" where
  "PRIVATE_HEADERS = [lit ''authorization'', lit ''cookie'', lit ''forwarded'', lit ''x-forwarded-for'', lit ''x-forwarded-host'',
     lit ''x-forwarded-proto'', lit ''tailscale-user-login'', lit ''tailscale-user-name'', lit ''sec-websocket-key'',
     lit ''sec-websocket-version'', lit ''sec-websocket-protocol'']"

text \<open>\<open>str::split_once\<close> at the first separator.\<close>

definition split_once :: "u8 \<Rightarrow> str \<Rightarrow> (str \<times> str) option" where
  "split_once d s = (if d \<in> set s then Some (takeWhile (\<lambda>b. b \<noteq> d) s, tl (dropWhile (\<lambda>b. b \<noteq> d) s)) else None)"

definition cookie_pairs :: "str \<Rightarrow> (str \<times> str) list" where
  "cookie_pairs s = List.map_filter (\<lambda>p. split_once 0x3D (trim p)) (split_on 0x3B s)"

definition app_cookie :: "web \<Rightarrow> uuid \<Rightarrow> str \<times> str \<Rightarrow> str option" where
  "app_cookie W i nv =
     (case strip_prefix (cookie_prefix W i) (fst nv) of None \<Rightarrow> None | Some encoded \<Rightarrow>
      (case b64url_decode W encoded of None \<Rightarrow> None | Some decoded \<Rightarrow>
        if \<not> valid_utf8 decoded then None
        else if list_ex (\<lambda>b. b \<le> 32 \<or> b \<ge> 127 \<or> b = 0x3B \<or> b = 0x3D) decoded then None
        else Some (decoded @ [0x3D] @ snd nv)))"

definition forwarded_cookies :: "'m headers \<Rightarrow> web \<Rightarrow> uuid \<Rightarrow> 'm \<Rightarrow> str" where
  "forwarded_cookies H W i m =
     join_with (lit ''; '') (List.map_filter (app_cookie W i) (cookie_pairs (text_or_empty (header_text H W m (lit ''cookie'')))))"

definition filtered_request_headers :: "'m headers \<Rightarrow> web \<Rightarrow> 'm \<Rightarrow> uuid \<Rightarrow> 'm" where
  "filtered_request_headers H W input i =
     (let h = fold (h_remove H) PRIVATE_HEADERS (strip_hop_by_hop H W input);
          cookies = forwarded_cookies H W i input
      in if cookies = [] then h
         else (case header_value W cookies of None \<Rightarrow> h | Some v \<Rightarrow> h_insert H (lit ''cookie'') v h))"

text \<open>The headers of the answer: the application's cookies are renamed, policies are added.\<close>

definition add_cookie :: "'m headers \<Rightarrow> web \<Rightarrow> uuid \<Rightarrow> 'm \<Rightarrow> bytes \<Rightarrow> 'm" where
  "add_cookie H W i m raw =
     (case to_str W raw of None \<Rightarrow> m | Some t \<Rightarrow>
      (case cookie_name_of W t of None \<Rightarrow> m | Some old \<Rightarrow>
        if prefix (lit ''__Host-rcpv-'') old \<or> prefix (lit ''rcapp_'') old then m
        else (case header_value W (cookie_renamed W t (cookie_prefix W i @ b64url_encode W old)) of
          None \<Rightarrow> m | Some v \<Rightarrow> h_append H (lit ''set-cookie'') v m)))"

definition response_headers :: "'m headers \<Rightarrow> web \<Rightarrow> uuid \<Rightarrow> 'm \<Rightarrow> 'm" where
  "response_headers H W i upstream =
     (let h1 = h_remove H (lit ''set-cookie'') (strip_hop_by_hop H W upstream);
          h2 = foldl (add_cookie H W i) h1 (h_get_all H upstream (lit ''set-cookie''));
          h3 = h_append H (lit ''content-security-policy'') (lit ''worker-src '' @ [0x27] @ lit ''none'' @ [0x27]) h2;
          h4 = h_insert H (lit ''referrer-policy'') (lit ''no-referrer'') h3
      in h_insert H (lit ''x-content-type-options'') (lit ''nosniff'') h4)"

section \<open>Model: the proxy\<close>

datatype http_method = GET | HEAD | POST | OPTIONS | OtherMethod

record 'm request =
  rq_method :: http_method
  rq_path :: str
  rq_suffix :: str
  rq_headers :: 'm
  rq_body :: bytes
  rq_upgrade :: bool

datatype 'm answer =
    A_bootstrap
  | A_credential str
  | A_forward principal str 'm
  | A_websocket principal str 'm

definition authority :: "web \<Rightarrow> str \<Rightarrow> str result" where
  "authority W origin =
     (case url_parse W origin of None \<Rightarrow> Err Internal | Some u \<Rightarrow>
      (case u_host u of None \<Rightarrow> Err Internal | Some h \<Rightarrow>
        Ok (h @ [0x3A] @ dec (unat (case known_port W origin of Some q \<Rightarrow> q | None \<Rightarrow> 443)))))"

text \<open>The exchange of a launch ticket for a browser credential.\<close>

definition consume_launch ::
    "'h crypto \<Rightarrow> web \<Rightarrow> instant \<Rightarrow> str \<Rightarrow> entry \<Rightarrow> bytes \<Rightarrow> 'h auth \<Rightarrow> 'h previews \<Rightarrow> 'h previews \<times> str result" where
  "consume_launch cr W now sec e body a v =
     (if length body > 2048 then (v, Err InvalidRequest)
      else (case ticket_of W body of
        None \<Rightarrow> (v, Err InvalidRequest)
      | Some None \<Rightarrow> (v, Err Unauthenticated)
      | Some (Some t) \<Rightarrow>
        if length t > 128 then (v, Err Unauthenticated)
        else (let v1 = pv_prune now v in
          case hm_get (launches v1) (digest cr t) of
            None \<Rightarrow> (v1, Err Unauthenticated)
          | Some g \<Rightarrow>
            (let v2 = v1\<lparr>launches := hm_remove (digest cr t) (launches v1)\<rparr> in
             if g_preview g \<noteq> pi_id (e_info e) then (v2, Err Unauthenticated)
             else (case device_principal now (g_client g) a of Err x \<Rightarrow> (v2, Err x) | Ok p \<Rightarrow>
               (case require (cancelled a) now p PreviewRead of Err x \<Rightarrow> (v2, Err x) | Ok _ \<Rightarrow>
                 if hm_len (browsers v2) \<ge> 128 then (v2, Err RateLimited)
                 else (v2\<lparr>browsers := hm_insert (digest cr sec)
                            \<lparr>g_preview = g_preview g, g_client = g_client g, g_until = now + secs 600\<rparr> (browsers v2)\<rparr>, Ok sec)))))))"

definition find_credential :: "web \<Rightarrow> uuid \<Rightarrow> str \<Rightarrow> str option" where
  "find_credential W i cookies = map_option snd (find (\<lambda>(n, _). n = cookie_name W i) (cookie_pairs cookies))"

definition browser_client :: "'h crypto \<Rightarrow> instant \<Rightarrow> entry \<Rightarrow> str \<Rightarrow> 'h previews \<Rightarrow> 'h previews \<times> uuid result" where
  "browser_client cr now e cred v =
     (let v1 = pv_prune now v in
      (v1, case hm_get (browsers v1) (digest cr cred) of
         None \<Rightarrow> Err Unauthenticated
       | Some b \<Rightarrow> if g_preview b = pi_id (e_info e) then Ok (g_client b) else Err Unauthenticated))"

definition local_headers :: "'m headers \<Rightarrow> web \<Rightarrow> entry \<Rightarrow> 'm \<Rightarrow> 'm result" where
  "local_headers H W e m =
     (let h = filtered_request_headers H W m (pi_id (e_info e));
          addr = lit ''127.0.0.1:'' @ dec (unat (pi_port (e_info e))) in
      case header_value W addr of None \<Rightarrow> Err Internal | Some hv \<Rightarrow>
      (let h1 = h_insert H (lit ''host'') hv h in
       if h_get H m (lit ''origin'') = None then Ok h1
       else (case header_value W (lit ''http://'' @ addr) of None \<Rightarrow> Err Internal
         | Some ov \<Rightarrow> Ok (h_insert H (lit ''origin'') ov h1))))"

text \<open>What \<open>websocket_proxy\<close> adds to the handshake request.\<close>

definition websocket_headers :: "'m headers \<Rightarrow> web \<Rightarrow> entry \<Rightarrow> 'm \<Rightarrow> 'm result" where
  "websocket_headers H W e m =
     (let h = h_remove H (lit ''host'') (filtered_request_headers H W m (pi_id (e_info e))) in
      case header_value W (lit ''http://127.0.0.1:'' @ dec (unat (pi_port (e_info e)))) of None \<Rightarrow> Err Internal | Some ov \<Rightarrow>
      (let h1 = h_insert H (lit ''origin'') ov h in
       case h_get H m (lit ''sec-websocket-protocol'') of None \<Rightarrow> Ok h1
       | Some pv \<Rightarrow> Ok (h_insert H (lit ''sec-websocket-protocol'') pv h1)))"

text \<open>From the cookie to the forwarded request; \<open>ident\<close> is the process that listens now.\<close>

definition proxy_request ::
    "'h crypto \<Rightarrow> 'm headers \<Rightarrow> web \<Rightarrow> instant \<Rightarrow> (u32 \<times> u64) option \<Rightarrow> entry \<Rightarrow> 'm request \<Rightarrow> 'h auth \<Rightarrow> 'h previews
      \<Rightarrow> 'h previews \<times> 'm answer result" where
  "proxy_request cr H W now ident e rq a v =
     (case find_credential W (pi_id (e_info e)) (text_or_empty (header_text H W (rq_headers rq) (lit ''cookie''))) of
        None \<Rightarrow> (v, Err Unauthenticated)
      | Some cred \<Rightarrow>
        (case browser_client cr now e cred v of
          (v1, Err x) \<Rightarrow> (v1, Err x)
        | (v1, Ok cl) \<Rightarrow>
          (case device_principal now cl a of Err x \<Rightarrow> (v1, Err x) | Ok p \<Rightarrow>
            (case require (cancelled a) now p PreviewRead of Err x \<Rightarrow> (v1, Err x) | Ok _ \<Rightarrow>
              (case ident of None \<Rightarrow> (v1, Err UpstreamChanged) | Some x \<Rightarrow>
                if x \<noteq> (pi_pid (e_info e), e_created e) then (v1\<lparr>pv_stopped := e_stop e # pv_stopped v1\<rparr>, Err UpstreamChanged)
                else (case local_headers H W e (rq_headers rq) of Err x \<Rightarrow> (v1, Err x) | Ok h \<Rightarrow>
                  if rq_upgrade rq
                  then (case websocket_headers H W e (rq_headers rq) of Err x \<Rightarrow> (v1, Err x)
                    | Ok wh \<Rightarrow> (v1, Ok (A_websocket p (lit ''ws://127.0.0.1:'' @ dec (unat (pi_port (e_info e))) @ rq_suffix rq) wh)))
                  else (v1, Ok (A_forward p (lit ''http://127.0.0.1:'' @ dec (unat (pi_port (e_info e))) @ rq_suffix rq) h))))))))"

definition proxy_inner ::
    "'h crypto \<Rightarrow> 'm headers \<Rightarrow> web \<Rightarrow> instant \<Rightarrow> str \<Rightarrow> (u32 \<times> u64) option \<Rightarrow> entry \<Rightarrow> 'm request \<Rightarrow> 'h auth \<Rightarrow> 'h previews
      \<Rightarrow> 'h previews \<times> 'm answer result" where
  "proxy_inner cr H W now sec ident e rq a v =
     (if e_stop e \<in> set (pv_stopped v) then (v, Err PreviewNotApproved)
      else (case authority W (pi_origin (e_info e)) of Err x \<Rightarrow> (v, Err x) | Ok auth \<Rightarrow>
        if header_text H W (rq_headers rq) (lit ''host'') \<noteq> Some auth then (v, Err OriginRejected)
        else if h_get H (rq_headers rq) (lit ''origin'') \<noteq> None
                \<and> header_text H W (rq_headers rq) (lit ''origin'') \<noteq> Some (pi_origin (e_info e)) then (v, Err OriginRejected)
        else if rq_path rq = lit ''/_rc/bootstrap'' \<and> rq_method rq = GET then (v, Ok A_bootstrap)
        else if rq_path rq = lit ''/_rc/consume'' \<and> rq_method rq = POST
        then (if header_text H W (rq_headers rq) (lit ''origin'') \<noteq> Some (pi_origin (e_info e)) then (v, Err OriginRejected)
              else (case consume_launch cr W now sec e (rq_body rq) a v of
                (v', Err x) \<Rightarrow> (v', Err x)
              | (v', Ok cred) \<Rightarrow> (v', Ok (A_credential
                  (cookie_name W (pi_id (e_info e)) @ [0x3D] @ cred @ lit ''; Secure; HttpOnly; SameSite=Strict; Path=/; Max-Age=600'')))))
        else if prefix (lit ''/_rc/'') (rq_path rq) then (v, Err InvalidRequest)
        else proxy_request cr H W now ident e rq a v))"

section \<open>Lemmas: headers\<close>

lemma header_get: "header_laws H \<Longrightarrow> h_get H m k = (case h_get_all H m k of [] \<Rightarrow> None | v # _ \<Rightarrow> Some v)"
  by (simp add: header_laws_def)

lemma header_get_all:
  assumes "header_laws H"
  shows "h_get_all H (h_remove H k m) n = (if eq_ignore_ascii_case k n then [] else h_get_all H m n)"
    "h_get_all H (h_insert H k v m) n = (if eq_ignore_ascii_case k n then [v] else h_get_all H m n)"
    "h_get_all H (h_append H k v m) n = (if eq_ignore_ascii_case k n then h_get_all H m n @ [v] else h_get_all H m n)"
  using assms by (simp_all add: header_laws_def)

lemma header_fold_remove:
  assumes "header_laws H"
  shows "h_get_all H (fold (h_remove H) ks m) n = (if list_ex (\<lambda>k. eq_ignore_ascii_case k n) ks then [] else h_get_all H m n)"
  by (induction ks arbitrary: m) (auto simp: header_get_all [OF assms])

lemma eq_ignore_refl [simp]: "eq_ignore_ascii_case s s"
  by (simp add: eq_ignore_ascii_case_def)

definition listed_names :: "'m headers \<Rightarrow> web \<Rightarrow> 'm \<Rightarrow> str list" where
  "listed_names H W m = map trim (split_on 0x2C (text_or_empty (header_text H W m (lit ''connection''))))"

lemma strip_get_all:
  assumes "header_laws H"
  shows "h_get_all H (strip_hop_by_hop H W m) n =
    (if list_ex (\<lambda>k. eq_ignore_ascii_case k n) (HOP_BY_HOP @ listed_names H W m) then [] else h_get_all H m n)"
  by (simp add: strip_hop_by_hop_def Let_def header_fold_remove [OF assms] listed_names_def)

lemma map_filter_set: "y \<in> set (List.map_filter f xs) \<longleftrightarrow> (\<exists>x \<in> set xs. f x = Some y)"
  by (auto simp: List.map_filter_def) force

lemma strip_prefix_iff: "strip_prefix p s = Some r \<longleftrightarrow> s = p @ r"
  by (auto simp: strip_prefix_def prefix_def)

lemma app_cookie_Some:
  assumes "app_cookie W i nv = Some t"
  shows "\<exists>encoded decoded. fst nv = cookie_prefix W i @ encoded \<and> b64url_decode W encoded = Some decoded
    \<and> (\<forall>b \<in> set decoded. 32 < b \<and> b < 127 \<and> b \<noteq> 0x3B \<and> b \<noteq> 0x3D) \<and> t = decoded @ [0x3D] @ snd nv"
proof -
  obtain encoded where e: "strip_prefix (cookie_prefix W i) (fst nv) = Some encoded"
    using assms by (auto simp: app_cookie_def split: option.splits)
  obtain decoded where d: "b64url_decode W encoded = Some decoded"
    using assms e by (auto simp: app_cookie_def split: option.splits)
  have "\<not> list_ex (\<lambda>b. b \<le> 32 \<or> b \<ge> 127 \<or> b = 0x3B \<or> b = 0x3D) decoded" "t = decoded @ [0x3D] @ snd nv"
    using assms e d by (auto simp: app_cookie_def split: if_splits)
  then show ?thesis using e d by (auto simp: strip_prefix_iff list_ex_iff not_le)
qed

text \<open>A forwarded cookie is an application cookie of this preview, under its own name.\<close>

definition app_cookie_of :: "web \<Rightarrow> uuid \<Rightarrow> str \<Rightarrow> str \<Rightarrow> bool" where
  "app_cookie_of W i cookies t \<longleftrightarrow>
     (\<exists>encoded decoded value. (cookie_prefix W i @ encoded, value) \<in> set (cookie_pairs cookies)
        \<and> b64url_decode W encoded = Some decoded \<and> (\<forall>b \<in> set decoded. 32 < b \<and> b < 127 \<and> b \<noteq> 0x3B \<and> b \<noteq> 0x3D)
        \<and> t = decoded @ [0x3D] @ value)"

lemma forwarded_cookies_are_app_cookies:
  "\<exists>ts. forwarded_cookies H W i m = join_with (lit ''; '') ts
     \<and> (\<forall>t \<in> set ts. app_cookie_of W i (text_or_empty (header_text H W m (lit ''cookie''))) t)"
proof (intro exI conjI ballI)
  let ?ck = "text_or_empty (header_text H W m (lit ''cookie''))"
  show "forwarded_cookies H W i m = join_with (lit ''; '') (List.map_filter (app_cookie W i) (cookie_pairs ?ck))"
    by (simp add: forwarded_cookies_def)
  fix t assume "t \<in> set (List.map_filter (app_cookie W i) (cookie_pairs ?ck))"
  then obtain nv where nv: "nv \<in> set (cookie_pairs ?ck)" "app_cookie W i nv = Some t" by (auto simp: map_filter_set)
  then show "app_cookie_of W i ?ck t"
    using app_cookie_Some [OF nv(2)] unfolding app_cookie_of_def by (metis prod.collapse)
qed

lemma filtered_get_all:
  assumes "header_laws H"
  shows "h_get_all H (filtered_request_headers H W m i) n =
    (if eq_ignore_ascii_case (lit ''cookie'') n then
       (if forwarded_cookies H W i m = [] then [] else (case header_value W (forwarded_cookies H W i m) of None \<Rightarrow> [] | Some v \<Rightarrow> [v]))
     else if list_ex (\<lambda>k. eq_ignore_ascii_case k n) (PRIVATE_HEADERS @ HOP_BY_HOP @ listed_names H W m) then []
     else h_get_all H m n)"
proof -
  have "list_ex (\<lambda>k. eq_ignore_ascii_case k n) PRIVATE_HEADERS" if "eq_ignore_ascii_case (lit ''cookie'') n"
    using that by (simp add: PRIVATE_HEADERS_def)
  then show ?thesis
    by (auto simp: filtered_request_headers_def Let_def header_get_all [OF assms] header_fold_remove [OF assms] strip_get_all [OF assms]
        split: option.splits)
qed

section \<open>Property: headers\<close>


text \<open>A header map as a list of fields, and texts as they are.\<close>

definition list_headers :: "(str \<times> bytes) list headers" where
  "list_headers =
     \<lparr>h_get = (\<lambda>m k. case filter (\<lambda>f. eq_ignore_ascii_case k (fst f)) m of [] \<Rightarrow> None | f # _ \<Rightarrow> Some (snd f)),
      h_get_all = (\<lambda>m k. map snd (filter (\<lambda>f. eq_ignore_ascii_case k (fst f)) m)),
      h_remove = (\<lambda>k m. filter (\<lambda>f. \<not> eq_ignore_ascii_case k (fst f)) m),
      h_insert = (\<lambda>k v m. filter (\<lambda>f. \<not> eq_ignore_ascii_case k (fst f)) m @ [(k, v)]),
      h_append = (\<lambda>k v m. m @ [(k, v)])\<rparr>"

definition plain_web :: web where
  "plain_web = \<lparr>to_str = Some, header_value = Some, uuid_simple = (\<lambda>_. []), b64url_decode = Some, b64url_encode = (\<lambda>x. x),
     url_parse = (\<lambda>s. Some \<lparr>u_scheme = [], u_host = Some s, u_username = [], u_password = None, u_path = [], u_query = None,
       u_fragment = None, u_port = None\<rparr>),
     known_port = (\<lambda>_. Some 8444), ticket_of = (\<lambda>b. Some (Some b)), cookie_name_of = Some, cookie_renamed = (\<lambda>_ n. n)\<rparr>"

lemma list_header_laws: "header_laws list_headers"
proof -
  have r: "filter (\<lambda>f. \<not> eq_ignore_ascii_case k (fst f) \<and> eq_ignore_ascii_case n (fst f)) m =
      (if eq_ignore_ascii_case k n then [] else filter (\<lambda>f. eq_ignore_ascii_case n (fst f)) m)" for n k and m :: "(str \<times> bytes) list"
    by (induction m) (auto simp: eq_ignore_ascii_case_def)
  have sym: "eq_ignore_ascii_case n k = eq_ignore_ascii_case k n" for n k by (auto simp: eq_ignore_ascii_case_def)
  show ?thesis
    by (auto simp: header_laws_def list_headers_def r sym split: list.splits)
qed

definition small_request_headers :: "(str \<times> bytes) list" where
  "small_request_headers = [(lit ''Authorization'', [1]), (lit ''cookie'', lit ''__Host-rcpv-=9; rcapp__app=5''), (lit ''accept'', [7])]"


end
