(* ===== verification/Preview_Runs.thy ===== *)
theory Preview_Runs
  imports Preview
begin

text \<open>
  Runs of the preview manager, with the trace of the tickets issued and exchanged. Shown here: a request
  is forwarded only for a credential that was exchanged for a launch ticket of the same client and
  preview, in time; the tables are bounded and the gateway ports distinct.
\<close>

section \<open>Runs\<close>

datatype 'h pv_event =
    Launched instant 'h uuid uuid
  | Exchanged instant 'h 'h uuid uuid

text \<open>The event of an answered proxy request: the ticket it exchanged, if it did.\<close>

definition pv_events :: "'h crypto \<Rightarrow> web \<Rightarrow> instant \<Rightarrow> str \<Rightarrow> 'm request \<Rightarrow> 'h previews \<Rightarrow> 'm answer result \<Rightarrow> 'h pv_event list" where
  "pv_events cr W now sec rq v r =
     (case r of Ok (A_credential _) \<Rightarrow>
        (case ticket_of W (rq_body rq) of
           Some (Some t) \<Rightarrow> (case hm_get (launches v) (digest cr t) of
              Some g \<Rightarrow> [Exchanged now (digest cr t) (digest cr sec) (g_client g) (g_preview g)] | None \<Rightarrow> [])
         | _ \<Rightarrow> [])
      | _ \<Rightarrow> [])"

inductive pv_run :: "'h crypto \<Rightarrow> 'm headers \<Rightarrow> web \<Rightarrow> 'h previews \<Rightarrow> 'h pv_event list \<Rightarrow> bool" for cr H W where
  start: "pv_run cr H W default_previews []"
| registers: "pv_run cr H W v tr \<Longrightarrow> pv_run cr H W (fst (register_insert c env p b v)) tr"
| reserves: "pv_run cr H W v tr \<Longrightarrow> pv_run cr H W (snd (fst (register_reserve env e (st, v)))) tr"
| removes: "pv_run cr H W v tr \<Longrightarrow> pv_run cr H W (remove_preview i v) tr"
| revokes: "pv_run cr H W v tr \<Longrightarrow> pv_run cr H W (pv_revoke_client c v) tr"
| blocks: "pv_run cr H W v tr \<Longrightarrow> pv_run cr H W (pv_block_all v) tr"
| shuts: "pv_run cr H W v tr \<Longrightarrow> pv_run cr H W (pv_shutdown v) tr"
| launched: "pv_run cr H W v tr \<Longrightarrow> launch_preview cr now sec p i v = (v', Ok u) \<Longrightarrow>
    pv_run cr H W v' (tr @ [Launched now (digest cr sec) (p_client p) i])"
| refused: "pv_run cr H W v tr \<Longrightarrow> launch_preview cr now sec p i v = (v', Err x) \<Longrightarrow> pv_run cr H W v' tr"
| proxied: "pv_run cr H W v tr \<Longrightarrow> proxy_inner cr H W now sec ident e rq a v = (v', r) \<Longrightarrow>
    pv_run cr H W v' (tr @ pv_events cr W now sec rq v r)"

section \<open>Invariants\<close>

definition traced :: "'h previews \<Rightarrow> 'h pv_event list \<Rightarrow> bool" where
  "traced v tr \<longleftrightarrow>
     (\<forall>d g. hm_get (launches v) d = Some g \<longrightarrow>
        (\<exists>t0. Launched t0 d (g_client g) (g_preview g) \<in> set tr \<and> g_until g = t0 + secs 30))
   \<and> (\<forall>d g. hm_get (browsers v) d = Some g \<longrightarrow>
        (\<exists>t0 t1 l. Launched t0 l (g_client g) (g_preview g) \<in> set tr \<and> Exchanged t1 l d (g_client g) (g_preview g) \<in> set tr
           \<and> t1 < t0 + secs 30 \<and> g_until g = t1 + secs 600))"

definition gateway_ports :: "'h previews \<Rightarrow> u16 list" where
  "gateway_ports v = map (\<lambda>x. pi_gateway_port (e_info (snd x))) (entries v)"

definition pv_wf :: "'h previews \<Rightarrow> bool" where
  "pv_wf v \<longleftrightarrow> hm_wf (entries v) \<and> hm_wf (launches v) \<and> hm_wf (browsers v)
     \<and> hm_len (launches v) \<le> 64 \<and> hm_len (browsers v) \<le> 128
     \<and> distinct (gateway_ports v) \<and> (\<forall>q \<in> set (gateway_ports v). 13844 \<le> q \<and> q \<le> 13851)"

text \<open>A step that only forgets grants keeps what is traced.\<close>

definition grants_within :: "'h previews \<Rightarrow> 'h previews \<Rightarrow> bool" where
  "grants_within v v' \<longleftrightarrow>
     (\<forall>d g. hm_get (launches v') d = Some g \<longrightarrow> hm_get (launches v) d = Some g)
   \<and> (\<forall>d g. hm_get (browsers v') d = Some g \<longrightarrow> hm_get (browsers v) d = Some g)"

lemma traced_within: "traced v tr \<Longrightarrow> grants_within v v' \<Longrightarrow> traced v' tr"
  by (fastforce simp: traced_def grants_within_def)

lemma traced_mono: "traced v tr \<Longrightarrow> traced v (tr @ xs)"
  by (fastforce simp: traced_def)

lemma prune_within: "pv_wf v \<Longrightarrow> grants_within v (pv_prune now v)"
  by (simp add: grants_within_def pv_prune_def pv_wf_def hm_get_retain_Some)

lemma prune_wf: "pv_wf v \<Longrightarrow> pv_wf (pv_prune now v)"
  by (auto simp: pv_wf_def pv_prune_def gateway_ports_def intro: order_trans [OF hm_len_retain])

lemma prune_simps [simp]: "entries (pv_prune now v) = entries v" "pv_stopped (pv_prune now v) = pv_stopped v"
  by (simp_all add: pv_prune_def)

lemma prune_grants:
  assumes "pv_wf v"
  shows "hm_get (launches (pv_prune now v)) d = Some g \<longleftrightarrow> hm_get (launches v) d = Some g \<and> g_until g > now"
    "hm_get (browsers (pv_prune now v)) d = Some g \<longleftrightarrow> hm_get (browsers v) d = Some g \<and> g_until g > now"
  using assms by (simp_all add: pv_wf_def pv_prune_def hm_get_retain_Some)

lemma pv_wf_other [simp]:
  "pv_wf (v\<lparr>pv_next_token := t\<rparr>) = pv_wf v" "pv_wf (v\<lparr>pv_stopped := ts\<rparr>) = pv_wf v"
  by (simp_all add: pv_wf_def gateway_ports_def)

lemma remove_entry_wf:
  assumes "pv_wf v"
  shows "pv_wf (v\<lparr>entries := hm_remove i (entries v)\<rparr>)"
proof -
  have "set (gateway_ports (v\<lparr>entries := hm_remove i (entries v)\<rparr>)) \<subseteq> set (gateway_ports v)"
    "distinct (gateway_ports v) \<Longrightarrow> distinct (gateway_ports (v\<lparr>entries := hm_remove i (entries v)\<rparr>))"
    by (auto simp: gateway_ports_def hm_remove_def distinct_map_filter)
  then show ?thesis using assms unfolding pv_wf_def by auto
qed

lemma public_port_range:
  fixes q :: u16
  assumes "8444 \<le> q" "q \<le> 8451"
  shows "13844 \<le> q + 5400 \<and> q + 5400 \<le> 13851"
  using assms by (simp add: word_le_nat_alt unat_word_ariths)

lemma entries_insert_ports:
  assumes "distinct (map (\<lambda>x. f (snd x)) m)" "f e \<notin> set (map (\<lambda>x. f (snd x)) m)"
  shows "distinct (map (\<lambda>x. f (snd x)) (hm_insert i e m)) \<and> set (map (\<lambda>x. f (snd x)) (hm_insert i e m)) \<subseteq> insert (f e) (set (map (\<lambda>x. f (snd x)) m))"
  using assms unfolding hm_insert_def
proof (induction m)
  case (Cons x m)
  then show ?case by (cases x) auto
qed simp

lemma register_insert_wf: "pv_wf v \<Longrightarrow> pv_wf (fst (register_insert c env p b v))"
proof -
  assume wf: "pv_wf v"
  let ?q = "rg_public_port b + 5400"
  have "pv_wf (v\<lparr>pv_next_token := t, entries := hm_insert i e (entries v)\<rparr>)"
    if "register_ports_ok c b" "\<not> list_ex (\<lambda>(_, x). pi_gateway_port (e_info x) = ?q) (entries v)" "pi_gateway_port (e_info e) = ?q" for i e t
  proof -
    have r: "13844 \<le> ?q \<and> ?q \<le> 13851" using that(1) public_port_range by (auto simp: register_ports_ok_def)
    have n: "pi_gateway_port (e_info e) \<notin> set (map (\<lambda>x. pi_gateway_port (e_info (snd x))) (entries v))"
      using that(2,3) by (auto simp: list_ex_iff)
    show ?thesis
      using wf entries_insert_ports [OF _ n, of i] r that(3) unfolding pv_wf_def gateway_ports_def by (auto dest!: hm_set_insert)
  qed
  then show ?thesis
    using wf by (auto simp: register_insert_def new_entry_def Let_def split: option.splits)
qed

lemma register_insert_within: "grants_within v (fst (register_insert c env p b v))"
  by (auto simp: grants_within_def register_insert_def Let_def split: option.splits)

lemma launch_wf:
  assumes "pv_wf v" "launch_preview cr now sec p i v = (v', r)"
  shows "pv_wf v'"
proof -
  let ?v1 = "pv_prune now v"
  have 1: "pv_wf ?v1" using prune_wf [OF assms(1)] .
  have "pv_wf (?v1\<lparr>launches := hm_insert d g (launches ?v1)\<rparr>)" if "hm_len (launches ?v1) < 64" for d g
    using 1 that hm_len_insert_le [of d g "launches ?v1"] by (auto simp: pv_wf_def gateway_ports_def)
  then show ?thesis using assms(2) 1 by (auto simp: launch_preview_def Let_def not_le split: option.splits if_splits)
qed

lemma launch_traced:
  assumes "pv_wf v" "traced v tr" "launch_preview cr now sec p i v = (v', Ok u)"
  shows "traced v' (tr @ [Launched now (digest cr sec) (p_client p) i])"
proof -
  let ?v1 = "pv_prune now v"
  have v': "v' = ?v1\<lparr>launches := hm_insert (digest cr sec) \<lparr>g_preview = i, g_client = p_client p, g_until = now + secs 30\<rparr> (launches ?v1)\<rparr>"
    using assms(3) by (auto simp: launch_preview_def Let_def split: option.splits if_splits)
  have "traced ?v1 tr" using traced_within [OF assms(2) prune_within [OF assms(1)]] .
  then show ?thesis unfolding v' traced_def by simp blast
qed

lemma remove_preview_ok:
  assumes "pv_wf v"
  shows "pv_wf (remove_preview i v) \<and> grants_within v (remove_preview i v)"
proof -
  have "pv_wf v1 \<Longrightarrow> pv_wf (v1\<lparr>launches := hm_retain P (launches v1), browsers := hm_retain Q (browsers v1)\<rparr>)
      \<and> grants_within v1 (v1\<lparr>launches := hm_retain P (launches v1), browsers := hm_retain Q (browsers v1)\<rparr>)" for v1 :: "'a previews" and P Q
    by (auto simp: pv_wf_def grants_within_def gateway_ports_def hm_get_retain_Some intro: order_trans [OF hm_len_retain])
  then show ?thesis
    using assms remove_entry_wf [OF assms, of i]
    by (auto simp: remove_preview_def Let_def grants_within_def split: option.splits)
qed

section \<open>The proxy\<close>

text \<open>A credential is handed out only for a live launch ticket of this preview, which is used up.\<close>

lemma consume_Ok:
  assumes "pv_wf v" "consume_launch cr W now sec e body a v = (v', Ok cred)"
  shows "\<exists>t g. ticket_of W body = Some (Some t) \<and> hm_get (launches v) (digest cr t) = Some g \<and> now < g_until g
    \<and> g_preview g = pi_id (e_info e)
    \<and> v' = (pv_prune now v)\<lparr>launches := hm_remove (digest cr t) (launches (pv_prune now v)),
             browsers := hm_insert (digest cr sec) \<lparr>g_preview = g_preview g, g_client = g_client g, g_until = now + secs 600\<rparr>
               (browsers (pv_prune now v))\<rparr>
    \<and> hm_len (browsers (pv_prune now v)) < 128"
proof -
  obtain t where t: "ticket_of W body = Some (Some t)"
    using assms(2) by (auto simp: consume_launch_def split: if_splits option.splits)
  obtain g where g: "hm_get (launches (pv_prune now v)) (digest cr t) = Some g"
    using assms(2) t by (auto simp: consume_launch_def Let_def split: if_splits option.splits)
  have "hm_get (launches v) (digest cr t) = Some g \<and> now < g_until g" using g prune_grants(1) [OF assms(1)] by simp
  then show ?thesis
    using assms(2) t g by (auto simp: consume_launch_def Let_def not_le split: if_splits option.splits sum.splits)
qed

lemma consume_Err:
  assumes "pv_wf v" "consume_launch cr W now sec e body a v = (v', Err x)"
  shows "grants_within v v' \<and> pv_wf v'"
proof -
  let ?v1 = "pv_prune now v"
  have w: "pv_wf ?v1" "grants_within v ?v1" using prune_wf prune_within assms(1) by auto
  have r: "pv_wf (?v1\<lparr>launches := hm_remove d (launches ?v1)\<rparr>)" "grants_within v (?v1\<lparr>launches := hm_remove d (launches ?v1)\<rparr>)" for d
    using w by (auto simp: pv_wf_def gateway_ports_def grants_within_def intro: order_trans [OF hm_len_remove])
  have "v' = v \<or> v' = ?v1 \<or> (\<exists>d. v' = ?v1\<lparr>launches := hm_remove d (launches ?v1)\<rparr>)"
    using assms(2) by (auto simp: consume_launch_def Let_def split: if_splits option.splits sum.splits)
  then show ?thesis using w r assms(1) by (auto simp: grants_within_def)
qed

lemma consume_traced:
  assumes "pv_wf v" "traced v tr" "consume_launch cr W now sec e (rq_body rq) a v = (v', Ok cred)"
  shows "traced v' (tr @ pv_events cr W now sec rq v (Ok (A_credential c))) \<and> pv_wf v'"
proof -
  let ?v1 = "pv_prune now v"
  obtain t g where t: "ticket_of W (rq_body rq) = Some (Some t)" "hm_get (launches v) (digest cr t) = Some g" "now < g_until g"
    and v': "v' = ?v1\<lparr>launches := hm_remove (digest cr t) (launches ?v1),
       browsers := hm_insert (digest cr sec) \<lparr>g_preview = g_preview g, g_client = g_client g, g_until = now + secs 600\<rparr> (browsers ?v1)\<rparr>"
    and l: "hm_len (browsers ?v1) < 128"
    using consume_Ok [OF assms(1,3)] by blast
  have ev: "pv_events cr W now sec rq v (Ok (A_credential c)) = [Exchanged now (digest cr t) (digest cr sec) (g_client g) (g_preview g)]"
    using t by (simp add: pv_events_def)
  obtain t0 where t0: "Launched t0 (digest cr t) (g_client g) (g_preview g) \<in> set tr" "g_until g = t0 + secs 30"
    using assms(2) t(2) unfolding traced_def by blast
  have "traced ?v1 tr" using traced_within [OF assms(2) prune_within [OF assms(1)]] .
  then have "traced v' (tr @ [Exchanged now (digest cr t) (digest cr sec) (g_client g) (g_preview g)])"
    unfolding v' traced_def using t0 t(3) by simp blast
  moreover have "hm_len (hm_insert d x (browsers ?v1)) \<le> 128" for d x using l hm_len_insert_le [of d x "browsers ?v1"] by linarith
  then have "pv_wf v'"
    using prune_wf [OF assms(1), of now] unfolding v' pv_wf_def gateway_ports_def by (auto intro: order_trans [OF hm_len_remove])
  ultimately show ?thesis by (simp add: ev)
qed

lemma proxy_request_state:
  "fst (proxy_request cr H W now ident e rq a v) = v \<or> fst (proxy_request cr H W now ident e rq a v) = pv_prune now v
   \<or> fst (proxy_request cr H W now ident e rq a v) = (pv_prune now v)\<lparr>pv_stopped := e_stop e # pv_stopped v\<rparr>"
  by (auto simp: proxy_request_def browser_client_def Let_def split: option.splits sum.splits)

lemma proxy_request_no_credential: "snd (proxy_request cr H W now ident e rq a v) \<noteq> Ok (A_credential c)"
  by (auto simp: proxy_request_def browser_client_def Let_def split: option.splits sum.splits)

lemma proxy_request_step:
  assumes "pv_wf v" "traced v tr" "proxy_request cr H W now ident e rq a v = (v', r)"
  shows "traced v' (tr @ pv_events cr W now sec rq v r) \<and> pv_wf v'"
proof -
  have "r \<noteq> Ok (A_credential c)" for c using proxy_request_no_credential [of cr H W now ident e rq a v c] assms(3) by simp
  then have ev: "pv_events cr W now sec rq v r = []"
    by (auto simp: pv_events_def split: sum.splits answer.splits)
  have "v' = v \<or> v' = pv_prune now v \<or> v' = (pv_prune now v)\<lparr>pv_stopped := e_stop e # pv_stopped v\<rparr>"
    using proxy_request_state [of cr H W now ident e rq a v] assms(3) by simp
  moreover have "grants_within v (pv_prune now v)" "pv_wf (pv_prune now v)" using prune_within prune_wf assms(1) by auto
  ultimately have "grants_within v v' \<and> pv_wf v'" using assms(1) by (auto simp: grants_within_def)
  then show ?thesis using ev traced_within [OF assms(2)] by simp
qed

lemma proxy_inner_step:
  assumes "pv_wf v" "traced v tr" "proxy_inner cr H W now sec ident e rq a v = (v', r)"
  shows "traced v' (tr @ pv_events cr W now sec rq v r) \<and> pv_wf v'"
proof -
  have same: "v' = v \<Longrightarrow> (\<forall>c. r \<noteq> Ok (A_credential c)) \<Longrightarrow> ?thesis"
    using assms(1,2) by (auto simp: pv_events_def split: sum.splits answer.splits)
  obtain vc rc where c: "consume_launch cr W now sec e (rq_body rq) a v = (vc, rc)" by fastforce
  have cons: "(v', r) = (case rc of Err x \<Rightarrow> (vc, Err x) | Ok cred \<Rightarrow> (vc, Ok (A_credential (f cred)))) \<Longrightarrow> ?thesis" for f
    using consume_Err [OF assms(1), of cr W now sec e "rq_body rq" a vc] consume_traced [OF assms(1,2), of cr W now sec e rq a vc] c
      traced_within [OF assms(2)]
    by (cases rc) (auto simp: pv_events_def)
  consider "v' = v" "\<forall>c. r \<noteq> Ok (A_credential c)"
    | f where "(v', r) = (case rc of Err x \<Rightarrow> (vc, Err x) | Ok cred \<Rightarrow> (vc, Ok (A_credential (f cred))))"
    | "proxy_request cr H W now ident e rq a v = (v', r)"
    using assms(3) by (auto simp: proxy_inner_def c split: if_splits sum.splits)
  then show ?thesis
  proof cases
    case 1
    then show ?thesis by (rule same)
  next
    case (2 f)
    then show ?thesis by (rule cons)
  next
    case 3
    then show ?thesis by (rule proxy_request_step [OF assms(1,2)])
  qed
qed

lemma pv_run_ok: "pv_run cr H W v tr \<Longrightarrow> pv_wf v \<and> traced v tr"
proof (induction rule: pv_run.induct)
  case start
  show ?case by (simp add: pv_wf_def traced_def default_previews_def gateway_ports_def)
next
  case (registers v tr c env p b)
  then show ?case using register_insert_wf traced_within register_insert_within by blast
next
  case (reserves v tr env e st)
  have "grants_within v (snd (fst (register_reserve env e (st, v))))"
    by (auto simp: register_reserve_def grants_within_def split: option.splits)
  moreover have "pv_wf (snd (fst (register_reserve env e (st, v))))"
    using reserves.IH remove_entry_wf by (auto simp: register_reserve_def split: option.splits)
  ultimately show ?case using reserves.IH traced_within by blast
next
  case (removes v tr i)
  then show ?case using remove_preview_ok traced_within by blast
next
  case (revokes v tr c)
  then have "grants_within v (pv_revoke_client c v)"
    by (simp add: grants_within_def pv_revoke_client_def pv_wf_def hm_get_retain_Some)
  moreover have "pv_wf (pv_revoke_client c v)"
    using revokes by (auto simp: pv_wf_def pv_revoke_client_def gateway_ports_def intro: order_trans [OF hm_len_retain])
  ultimately show ?case using revokes traced_within by blast
next
  case (launched v tr now sec p i v' u)
  then show ?case using launch_wf launch_traced by blast
next
  case (refused v tr now sec p i v' x)
  then have "v' = pv_prune now v" by (auto simp: launch_preview_def Let_def split: option.splits if_splits)
  then show ?case using refused launch_wf traced_within prune_within by blast
next
  case (proxied v tr now sec ident e rq a v' r)
  then show ?case using proxy_inner_step by blast
qed (simp_all add: pv_wf_def traced_def pv_block_all_def pv_shutdown_def gateway_ports_def)

section \<open>Properties\<close>

lemma proxy_request_forwards:
  assumes "pv_wf v" "proxy_request cr H W now ident e rq a v = (v', Ok r)" "r = A_forward p url h \<or> r = A_websocket p url h"
  shows "\<exists>cred b. find_credential W (pi_id (e_info e)) (text_or_empty (header_text H W (rq_headers rq) (lit ''cookie''))) = Some cred
    \<and> hm_get (browsers v) (digest cr cred) = Some b \<and> now < g_until b \<and> g_preview b = pi_id (e_info e) \<and> g_client b = p_client p
    \<and> require (cancelled a) now p PreviewRead = Ok () \<and> ident = Some (pi_pid (e_info e), e_created e)"
proof -
  let ?ck = "text_or_empty (header_text H W (rq_headers rq) (lit ''cookie''))"
  obtain cred where c: "find_credential W (pi_id (e_info e)) ?ck = Some cred"
    using assms(2) by (auto simp: proxy_request_def split: option.splits)
  obtain cl where cl: "browser_client cr now e cred v = (pv_prune now v, Ok cl)"
    using assms(2) c by (auto simp: proxy_request_def browser_client_def Let_def split: option.splits sum.splits if_splits)
  obtain q where q: "device_principal now cl a = Ok q"
    using assms(2) c cl by (auto simp: proxy_request_def split: sum.splits)
  have "p_client q = cl" using q by (auto simp: device_principal_def split: sum.splits option.splits)
  moreover have "q = p" "require (cancelled a) now q PreviewRead = Ok ()" "ident = Some (pi_pid (e_info e), e_created e)"
    using assms(2,3) c cl q by (auto simp: proxy_request_def split: sum.splits option.splits if_splits)
  moreover obtain b where "hm_get (browsers (pv_prune now v)) (digest cr cred) = Some b" "g_preview b = pi_id (e_info e)" "g_client b = cl"
    using cl by (auto simp: browser_client_def Let_def split: option.splits if_splits)
  ultimately show ?thesis using c prune_grants(2) [OF assms(1)] by auto
qed

text \<open>C30. A request reaches a previewed application only along its whole chain of grants. Whenever the gateway forwards
  a request (or opens a WebSocket), the preview was not stopped, the process listening on its port is the
  one approved, the device is active with the right to previews, and the browser's credential was
  exchanged less than ten minutes ago for a launch ticket that the same device drew for the same
  preview less than thirty seconds before that exchange.\<close>
theorem forwarded_requests_trace_to_a_launch:
  assumes "pv_run cr H W v tr" "proxy_inner cr H W now sec ident e rq a v = (v', Ok r)" "r = A_forward p url h \<or> r = A_websocket p url h"
  shows "e_stop e \<notin> set (pv_stopped v) \<and> ident = Some (pi_pid (e_info e), e_created e)
    \<and> require (cancelled a) now p PreviewRead = Ok ()
    \<and> (\<exists>cred t0 t1 l. find_credential W (pi_id (e_info e)) (text_or_empty (header_text H W (rq_headers rq) (lit ''cookie''))) = Some cred
        \<and> Launched t0 l (p_client p) (pi_id (e_info e)) \<in> set tr
        \<and> Exchanged t1 l (digest cr cred) (p_client p) (pi_id (e_info e)) \<in> set tr \<and> t1 < t0 + secs 30 \<and> now < t1 + secs 600)"
proof -
  have ok: "pv_wf v" "traced v tr" using pv_run_ok [OF assms(1)] by auto
  have pr: "proxy_request cr H W now ident e rq a v = (v', Ok r)" and st: "e_stop e \<notin> set (pv_stopped v)"
    using assms(2,3) by (auto simp: proxy_inner_def split: if_splits sum.splits prod.splits)
  obtain cred b where f: "find_credential W (pi_id (e_info e)) (text_or_empty (header_text H W (rq_headers rq) (lit ''cookie''))) = Some cred"
    "hm_get (browsers v) (digest cr cred) = Some b" "now < g_until b" "g_preview b = pi_id (e_info e)" "g_client b = p_client p"
    "require (cancelled a) now p PreviewRead = Ok ()" "ident = Some (pi_pid (e_info e), e_created e)"
    using proxy_request_forwards [OF ok(1) pr assms(3)] by blast
  obtain t0 t1 l where "Launched t0 l (g_client b) (g_preview b) \<in> set tr" "Exchanged t1 l (digest cr cred) (g_client b) (g_preview b) \<in> set tr"
    "t1 < t0 + secs 30" "g_until b = t1 + secs 600"
    using ok(2) f(2) unfolding traced_def by blast
  then have "\<exists>t0 t1 l. Launched t0 l (p_client p) (pi_id (e_info e)) \<in> set tr
      \<and> Exchanged t1 l (digest cr cred) (p_client p) (pi_id (e_info e)) \<in> set tr \<and> t1 < t0 + secs 30 \<and> now < t1 + secs 600"
    unfolding f(4,5) using f(3) by metis
  then show ?thesis using f(1,6,7) st by blast
qed

definition demo_config :: config where
  "demo_config = (default_config [])\<lparr>public_origin := Some (lit ''h'')\<rparr>"

definition demo_env :: register_env where
  "demo_env = \<lparr>re_origin = Some (lit ''h''), re_identity = Some (4, 9), re_bound = True, re_joined = True, re_client_built = True, re_fresh = 1\<rparr>"

definition demo_entry :: entry where
  "demo_entry = new_entry demo_env 7 \<lparr>rg_project = 2, rg_port = 3000, rg_public_port = 8444\<rparr> (lit ''h'') (4, 9) 0"

definition demo_registered :: "str previews" where
  "demo_registered = fst (register_insert demo_config demo_env one_principal \<lparr>rg_project = 2, rg_port = 3000, rg_public_port = 8444\<rparr> default_previews)"

definition demo_launched :: "str previews" where
  "demo_launched = \<lparr>entries = [(1, demo_entry)], launches = [([65], \<lparr>g_preview = 1, g_client = 7, g_until = secs 30\<rparr>)], browsers = [],
     pv_next_token = 1, pv_stopped = []\<rparr>"

definition demo_request :: "str \<Rightarrow> http_method \<Rightarrow> str \<Rightarrow> (str \<times> bytes) list request" where
  "demo_request path meth cookie = \<lparr>rq_method = meth, rq_path = path, rq_suffix = path,
     rq_headers = [(lit ''host'', lit ''h'' @ [0x3A] @ dec 8444), (lit ''origin'', lit ''h''), (lit ''cookie'', cookie)],
     rq_body = [65], rq_upgrade = False\<rparr>"

definition demo_exchanged :: "str previews" where
  "demo_exchanged = \<lparr>entries = [(1, demo_entry)], launches = [], browsers = [([66], \<lparr>g_preview = 1, g_client = 7, g_until = 1 + secs 600\<rparr>)],
     pv_next_token = 1, pv_stopped = []\<rparr>"

lemma demo_registered_eq:
  "demo_registered = \<lparr>entries = [(1, demo_entry)], launches = [], browsers = [], pv_next_token = 1, pv_stopped = []\<rparr>"
  by (simp add: demo_registered_def register_insert_def register_ports_ok_def demo_config_def default_config_def demo_env_def demo_entry_def
      default_previews_def one_principal_def Let_def hm_insert_def)

lemma demo_launch:
  "launch_preview plain_crypto 0 [65] one_principal 1 demo_registered = (demo_launched, Ok (lit ''h'' @ lit ''/_rc/bootstrap#'' @ [65]))"
  by (simp add: demo_registered_eq launch_preview_def pv_prune_def hm_retain_def hm_insert_def plain_crypto_def one_principal_def Let_def
      demo_entry_def new_entry_def demo_launched_def)

lemma demo_digest: "digest plain_crypto s = s" "ticket_of plain_web b = Some (Some b)"
  by (simp_all add: plain_crypto_def plain_web_def)

lemma demo_names:
  "eq_ignore_ascii_case (lit ''host'') (lit ''host'')" "eq_ignore_ascii_case (lit ''origin'') (lit ''origin'')"
  "eq_ignore_ascii_case (lit ''cookie'') (lit ''cookie'')"
  "\<not> eq_ignore_ascii_case (lit ''host'') (lit ''origin'')" "\<not> eq_ignore_ascii_case (lit ''host'') (lit ''cookie'')"
  "\<not> eq_ignore_ascii_case (lit ''origin'') (lit ''host'')" "\<not> eq_ignore_ascii_case (lit ''origin'') (lit ''cookie'')"
  "\<not> eq_ignore_ascii_case (lit ''cookie'') (lit ''host'')" "\<not> eq_ignore_ascii_case (lit ''cookie'') (lit ''origin'')"
  by code_simp+

lemma demo_header_text:
  "header_text list_headers plain_web (rq_headers (demo_request path meth ck)) (lit ''host'') = Some (lit ''h'' @ [0x3A] @ dec 8444)"
  "header_text list_headers plain_web (rq_headers (demo_request path meth ck)) (lit ''origin'') = Some (lit ''h'')"
  "header_text list_headers plain_web (rq_headers (demo_request path meth ck)) (lit ''cookie'') = Some ck"
  "h_get list_headers (rq_headers (demo_request path meth ck)) (lit ''origin'') = Some (lit ''h'')"
  by (simp_all add: header_text_def list_headers_def demo_request_def plain_web_def demo_names)

lemma demo_paths:
  "lit ''/_rc/consume'' \<noteq> lit ''/_rc/bootstrap''" "lit ''/'' \<noteq> lit ''/_rc/bootstrap''" "lit ''/'' \<noteq> lit ''/_rc/consume''"
  "\<not> prefix (lit ''/_rc/'') (lit ''/'')" "find_credential plain_web 1 (lit ''__Host-rcpv-=B'') = Some [66]"
  by code_simp+

lemma demo_authority: "authority plain_web (lit ''h'') = Ok (lit ''h'' @ [0x3A] @ dec 8444)"
  by (simp add: authority_def plain_web_def)

lemma demo_origin: "pi_origin (e_info demo_entry) = lit ''h''" "pi_id (e_info demo_entry) = 1" "e_stop demo_entry = 0"
    "pi_pid (e_info demo_entry) = 4" "e_created demo_entry = 9"
  by (simp_all add: demo_entry_def new_entry_def demo_env_def)

lemma demo_device:
  "device_principal now 7 one_auth = Ok (one_principal\<lparr>p_expires := now + secs 60\<rparr>)" "cancelled one_auth = []"
  by (simp_all add: device_principal_def ensure_open_def one_auth_def new_auth_def one_device_def save_device_def empty_store_def
      devices_of_def active_device_def one_principal_def hm_insert_def remote_blocked_def)

lemma demo_require: "require [] now (one_principal\<lparr>p_expires := now + secs 60\<rparr>) PreviewRead = Ok ()"
  by (simp add: require_def one_principal_def owner_scopes_def secs_def)

lemma demo_consume: "consume_launch plain_crypto plain_web 1 [66] demo_entry [65] one_auth demo_launched = (demo_exchanged, Ok [66])"
  by (simp add: consume_launch_def demo_launched_def demo_digest pv_prune_def hm_retain_def hm_remove_def hm_insert_def
      demo_device require_def one_principal_def owner_scopes_def demo_origin demo_exchanged_def secs_def Let_def)

lemma demo_exchange:
  "\<exists>c. proxy_inner plain_crypto list_headers plain_web 1 [66] None demo_entry (demo_request (lit ''/_rc/consume'') POST []) one_auth
     demo_launched = (demo_exchanged, Ok (A_credential c))"
proof -
  have "e_stop demo_entry \<notin> set (pv_stopped demo_launched)" by (simp add: demo_launched_def)
  moreover have "rq_body (demo_request x y z) = [65]" "rq_path (demo_request x y z) = x" "rq_method (demo_request x y z) = y" for x y z
    by (simp_all add: demo_request_def)
  ultimately show ?thesis
    by (simp add: proxy_inner_def demo_authority demo_header_text demo_origin demo_paths demo_consume del: One_nat_def)
qed

lemma demo_forward:
  "\<exists>v' url h. proxy_inner plain_crypto list_headers plain_web (secs 2) [67] (Some (4, 9)) demo_entry
     (demo_request (lit ''/'') GET (lit ''__Host-rcpv-=B'')) one_auth demo_exchanged
   = (v', Ok (A_forward (one_principal\<lparr>p_expires := secs 2 + secs 60\<rparr>) url h))"
proof -
  have "e_stop demo_entry \<notin> set (pv_stopped demo_exchanged)" by (simp add: demo_exchanged_def)
  moreover have r: "rq_upgrade (demo_request x y z) = False" "rq_path (demo_request x y z) = x" "rq_method (demo_request x y z) = y" for x y z
    by (simp_all add: demo_request_def)
  moreover have b: "browser_client plain_crypto (secs 2) demo_entry [66] demo_exchanged = (pv_prune (secs 2) demo_exchanged, Ok 7)"
    by (simp add: browser_client_def pv_prune_def demo_exchanged_def hm_retain_def demo_digest demo_origin secs_def)
  moreover obtain h where "local_headers list_headers plain_web demo_entry (rq_headers (demo_request (lit ''/'') GET (lit ''__Host-rcpv-=B''))) = Ok h"
    by (simp add: local_headers_def Let_def) (simp add: plain_web_def demo_header_text)
  ultimately show ?thesis
    by (simp add: proxy_inner_def proxy_request_def demo_authority demo_header_text demo_origin demo_paths demo_device demo_require text_or_empty_def)
qed

theorem forwarded_requests_trace_to_a_launch_witness:
  "\<exists>tr. pv_run plain_crypto list_headers plain_web demo_exchanged tr \<and> (\<exists>t0 t1 l. Launched t0 l 7 1 \<in> set tr \<and> Exchanged t1 l [66] 7 1 \<in> set tr)"
proof -
  have "pv_run plain_crypto list_headers plain_web demo_registered []"
    unfolding demo_registered_def by (rule pv_run.registers, rule pv_run.start)
  from pv_run.launched [OF this demo_launch] obtain tr1 where r1: "pv_run plain_crypto list_headers plain_web demo_launched tr1" by blast
  obtain c where "proxy_inner plain_crypto list_headers plain_web 1 [66] None demo_entry (demo_request (lit ''/_rc/consume'') POST []) one_auth
     demo_launched = (demo_exchanged, Ok (A_credential c))" using demo_exchange by blast
  from pv_run.proxied [OF r1 this] obtain tr where r: "pv_run plain_crypto list_headers plain_web demo_exchanged tr" by blast
  obtain v' url h where f: "proxy_inner plain_crypto list_headers plain_web (secs 2) [67] (Some (4, 9)) demo_entry
     (demo_request (lit ''/'') GET (lit ''__Host-rcpv-=B'')) one_auth demo_exchanged
   = (v', Ok (A_forward (one_principal\<lparr>p_expires := secs 2 + secs 60\<rparr>) url h))" using demo_forward by blast
  show ?thesis
    using forwarded_requests_trace_to_a_launch [OF r f] r
    by (auto simp: demo_header_text demo_origin demo_paths demo_digest text_or_empty_def one_principal_def)
qed

end
