(* ===== verification/Perf_Histogram.thy ===== *)
theory Perf_Histogram
  imports Prelude Float64
begin

text \<open>
  \<open>rc-agent/src/perf_histogram.rs\<close>: a latency histogram with a thousand buckets of a tenth of a
  millisecond and one overflow bucket. The quantile is computed over binary64 numbers and a scan of the
  cumulative counts; it is compared with the order statistic of the recorded samples.
\<close>

section \<open>The histogram\<close>

definition BUCKET_WIDTH :: nat where
  "BUCKET_WIDTH = 100"

definition BUCKET_COUNT :: nat where
  "BUCKET_COUNT = 1001"

record histogram =
  h_count :: u64
  max_us :: u64
  sum_us :: "128 word"
  buckets :: "u64 list"

definition histogram_new :: histogram where
  "histogram_new = \<lparr>h_count = 0, max_us = 0, sum_us = 0, buckets = replicate BUCKET_COUNT 0\<rparr>"

definition bucket_of :: "u64 \<Rightarrow> nat" where
  "bucket_of us = min (unat us div BUCKET_WIDTH) (BUCKET_COUNT - 1)"

definition histogram_record :: "u64 \<Rightarrow> histogram \<Rightarrow> histogram" where
  "histogram_record us h =
     \<lparr>h_count = h_count h + 1,
      max_us = (if us > max_us h then us else max_us h),
      sum_us = sum_us h + ucast us,
      buckets = (buckets h)[bucket_of us := buckets h ! bucket_of us + 1]\<rparr>"

text \<open>\<open>f64::ceil\<close> and the casts between \<open>u64\<close> and \<open>f64\<close>.\<close>

fun fceil :: "f64 \<Rightarrow> f64" where
  "fceil (Fin q) = Fin (of_int \<lceil>q\<rceil>)"
| "fceil x = x"

definition f64_of_u64 :: "u64 \<Rightarrow> f64" where
  "f64_of_u64 n = f64_of (of_nat (unat n))"

definition f64_as_u64 :: "f64 \<Rightarrow> u64" where
  "f64_as_u64 x = of_int (as_int 0 (2 ^ 64 - 1) x)"

definition quantile_rank :: "f64 \<Rightarrow> u64 \<Rightarrow> u64" where
  "quantile_rank p n = min (max (f64_as_u64 (fceil (fmul p (f64_of_u64 n)))) 1) n"

text \<open>The loop over the buckets, from index \<open>idx\<close> on.\<close>

fun quantile_scan :: "u64 \<Rightarrow> u64 \<Rightarrow> nat \<Rightarrow> u64 \<Rightarrow> u64 list \<Rightarrow> u64" where
  "quantile_scan rank largest idx cumulative [] = largest"
| "quantile_scan rank largest idx cumulative (b # bs) =
     (let cumulative = cumulative + b in
      if cumulative \<ge> rank
      then if idx = BUCKET_COUNT - 1 then largest
           else min (of_nat idx * of_nat BUCKET_WIDTH + of_nat (BUCKET_WIDTH - 1)) largest
      else quantile_scan rank largest (Suc idx) cumulative bs)"

definition upper_quantile :: "f64 \<Rightarrow> histogram \<Rightarrow> u64 option" where
  "upper_quantile p h =
     (if h_count h = 0 then None
      else Some (quantile_scan (quantile_rank p (h_count h)) (max_us h) 0 0 (buckets h)))"

definition histogram_mean :: "histogram \<Rightarrow> f64 option" where
  "histogram_mean h =
     (if h_count h = 0 then None
      else Some (fdiv (f64_of (of_nat (unat (sum_us h)))) (f64_of_u64 (h_count h))))"

section \<open>What a histogram holds of its samples\<close>

text \<open>The samples at most \<open>i\<close> buckets up, and the histogram of a list of samples.\<close>

definition upto_bucket :: "nat \<Rightarrow> u64 list \<Rightarrow> nat" where
  "upto_bucket i xs = length (filter (\<lambda>x. bucket_of x < i) xs)"

definition recorded :: "u64 list \<Rightarrow> histogram" where
  "recorded xs = fold histogram_record xs histogram_new"

definition sample_latencies :: "u64 list" where
  "sample_latencies = [0, 99, 100, 100000, 200000]"

definition summarises :: "u64 list \<Rightarrow> histogram \<Rightarrow> bool" where
  "summarises xs h \<longleftrightarrow>
     h_count h = of_nat (length xs) \<and>
     max_us h = fold max xs 0 \<and>
     sum_us h = sum_list (map ucast xs) \<and>
     length (buckets h) = BUCKET_COUNT \<and>
     (\<forall>i < BUCKET_COUNT. buckets h ! i = of_nat (length (filter (\<lambda>x. bucket_of x = i) xs)))"

lemma bucket_of_less [simp]: "bucket_of x < BUCKET_COUNT"
  by (simp add: bucket_of_def BUCKET_COUNT_def min_def)

lemma bucket_of_mono: "x \<le> y \<Longrightarrow> bucket_of x \<le> bucket_of y"
  unfolding bucket_of_def by (intro min.mono div_le_mono) (simp_all add: word_le_nat_alt)

lemma summarises_new: "summarises [] histogram_new"
  by (simp add: summarises_def histogram_new_def)

lemma summarises_record:
  assumes "summarises xs h"
  shows "summarises (xs @ [x]) (histogram_record x h)"
  using assms bucket_of_less [of x]
  by (auto simp: summarises_def histogram_record_def nth_list_update max_def add.commute)

lemma summarises_fold: "summarises xs h \<Longrightarrow> summarises (xs @ ys) (fold histogram_record ys h)"
proof (induction ys arbitrary: xs h)
  case (Cons y ys)
  from Cons.IH [OF summarises_record [OF Cons.prems, of y]] show ?case by simp
qed simp

lemma summarises_recorded: "summarises xs (recorded xs)"
  unfolding recorded_def using summarises_fold [OF summarises_new, of xs] by simp

lemma fold_max_ge: "x \<in> set xs \<Longrightarrow> x \<le> fold max xs (a :: 'a :: linorder)"
  by (metis List.finite_set Max.set_eq_fold Max_ge list.set_intros(2) set_simps(2))

section \<open>The order statistic\<close>

text \<open>In a sorted list the elements in low buckets are a prefix.\<close>

lemma sorted_nth_bucket:
  assumes "sorted s" "r < length s"
  shows "bucket_of (s ! r) < i \<longleftrightarrow> r < upto_bucket i s"
  using assms
proof (induction s arbitrary: r)
  case (Cons x s)
  have le: "bucket_of x \<le> bucket_of y" if "y \<in> set s" for y
    using Cons.prems(1) that by (intro bucket_of_mono) simp
  have none: "upto_bucket i s = 0" if "\<not> bucket_of x < i"
    using le that by (fastforce simp: upto_bucket_def filter_empty_conv)
  show ?case
  proof (cases r)
    case 0
    then show ?thesis using none by (auto simp: upto_bucket_def)
  next
    case (Suc k)
    then have "bucket_of (s ! k) < i \<longleftrightarrow> k < upto_bucket i s"
      using Cons by simp
    moreover have "bucket_of x \<le> bucket_of (s ! k)" using Suc Cons.prems(2) by (intro le) simp
    ultimately show ?thesis using Suc none by (auto simp: upto_bucket_def)
  qed
qed simp

lemma upto_bucket_sort [simp]: "upto_bucket i (sort xs) = upto_bucket i xs"
  unfolding upto_bucket_def by (metis filter_sort length_sort)

lemma upto_bucket_Suc:
  "upto_bucket (Suc i) xs = upto_bucket i xs + length (filter (\<lambda>x. bucket_of x = i) xs)"
  unfolding upto_bucket_def by (induction xs) (auto simp: less_Suc_eq)

lemma upto_bucket_0 [simp]: "upto_bucket 0 xs = 0"
  by (simp add: upto_bucket_def)

lemma upto_bucket_le: "upto_bucket i xs \<le> length xs"
  by (simp add: upto_bucket_def)

lemma upto_bucket_all: "upto_bucket BUCKET_COUNT xs = length xs"
  by (simp add: upto_bucket_def)

text \<open>The scan stops at the bucket of the order statistic.\<close>

definition bucket_top :: "u64 \<Rightarrow> nat \<Rightarrow> u64" where
  "bucket_top largest i =
     (if i = BUCKET_COUNT - 1 then largest
      else min (of_nat i * of_nat BUCKET_WIDTH + of_nat (BUCKET_WIDTH - 1)) largest)"

lemma quantile_scan_finds:
  assumes n: "length xs < 2 ^ 64" and r: "unat rank = Suc r" "r < length xs"
    and bs: "bs = map (\<lambda>i. of_nat (length (filter (\<lambda>x. bucket_of x = i) xs))) [idx ..< BUCKET_COUNT]"
    and idx: "idx \<le> BUCKET_COUNT" and before: "upto_bucket idx xs \<le> r"
  shows "quantile_scan rank largest idx (of_nat (upto_bucket idx xs)) bs = bucket_top largest (bucket_of (sort xs ! r))"
  using bs idx before
proof (induction bs arbitrary: idx)
  case Nil
  then have "idx = BUCKET_COUNT" by auto
  then show ?case using Nil.prems(3) r(2) upto_bucket_all [of xs] by simp
next
  case (Cons b bs)
  have less: "idx < BUCKET_COUNT" using Cons.prems(1) by (metis list.discI map_is_Nil_conv upt_rec)
  let ?b = "length (filter (\<lambda>x. bucket_of x = idx) xs)"
  have step: "b = of_nat ?b"
    "bs = map (\<lambda>i. of_nat (length (filter (\<lambda>x. bucket_of x = i) xs))) [Suc idx ..< BUCKET_COUNT]"
    using Cons.prems(1) less by (simp_all add: upt_rec [of idx])
  have cum: "of_nat (upto_bucket idx xs) + b = (of_nat (upto_bucket (Suc idx) xs) :: u64)"
    by (simp add: upto_bucket_Suc step(1))
  have "upto_bucket (Suc idx) xs < 2 ^ 64" using upto_bucket_le [of "Suc idx" xs] n by linarith
  then have cond: "rank \<le> of_nat (upto_bucket (Suc idx) xs) \<longleftrightarrow> r < upto_bucket (Suc idx) xs"
    using r(1) by (simp add: word_le_nat_alt unat_of_nat Suc_le_eq)
  show ?case
  proof (cases "r < upto_bucket (Suc idx) xs")
    case True
    have "bucket_of (sort xs ! r) < Suc idx" "\<not> bucket_of (sort xs ! r) < idx"
      using sorted_nth_bucket [of "sort xs" r "Suc idx"] sorted_nth_bucket [of "sort xs" r idx]
        True Cons.prems(3) r(2) by simp_all
    then have "bucket_of (sort xs ! r) = idx" by simp
    then show ?thesis using True cond cum by (simp add: bucket_top_def Let_def)
  next
    case False
    then have "quantile_scan rank largest (Suc idx) (of_nat (upto_bucket (Suc idx) xs)) bs = bucket_top largest (bucket_of (sort xs ! r))"
      using less by (intro Cons.IH [OF step(2)]) simp_all
    then show ?thesis using False cond cum by (simp add: Let_def)
  qed
qed

lemma quantile_rank_range:
  assumes "0 < n"
  shows "1 \<le> quantile_rank p n" "quantile_rank p n \<le> n"
  using assms by (simp_all add: quantile_rank_def word_le_nat_alt word_less_nat_alt min_def max_def)

lemma upper_quantile_recorded:
  fixes p :: f64
  assumes n: "xs \<noteq> []" "length xs < 2 ^ 64"
  defines "r \<equiv> unat (quantile_rank p (of_nat (length xs))) - 1"
  shows "r < length xs" "upper_quantile p (recorded xs) = Some (bucket_top (fold max xs 0) (bucket_of (sort xs ! r)))"
proof -
  let ?n = "of_nat (length xs) :: u64"
  have un: "unat ?n = length xs" using n(2) by (simp add: unat_of_nat)
  have pos: "0 < ?n" using n un by (metis length_greater_0_conv unat_0 word_gt_0 neq0_conv)
  note range = quantile_rank_range [OF pos, of p]
  then have rank: "unat (quantile_rank p ?n) = Suc r" unfolding r_def
    by (simp add: word_le_nat_alt)
  then show rl: "r < length xs" using range(2) un by (simp add: word_le_nat_alt)
  note s = summarises_recorded [of xs, unfolded summarises_def]
  have "buckets (recorded xs) =
    map (\<lambda>i. of_nat (length (filter (\<lambda>x. bucket_of x = i) xs))) [0 ..< BUCKET_COUNT]"
    using s by (intro nth_equalityI) simp_all
  from quantile_scan_finds [OF n(2) rank rl this] s pos
  show "upper_quantile p (recorded xs) = Some (bucket_top (fold max xs 0) (bucket_of (sort xs ! r)))"
    by (simp add: upper_quantile_def)
qed

lemma bucket_top_bracket:
  assumes "x \<le> largest"
  shows "x \<le> bucket_top largest (bucket_of x)" "bucket_top largest (bucket_of x) \<le> largest"
    "unat x < 100000 \<Longrightarrow> unat (bucket_top largest (bucket_of x)) < unat x + 100"
    "100000 \<le> unat x \<Longrightarrow> bucket_top largest (bucket_of x) = largest"
proof -
  define i where "i = bucket_of x"
  have w: "unat (of_nat i * of_nat BUCKET_WIDTH + of_nat (BUCKET_WIDTH - 1) :: u64) = i * 100 + 99"
    if "i < 1000"
  proof -
    have "of_nat i * of_nat BUCKET_WIDTH + of_nat (BUCKET_WIDTH - 1) = (of_nat (i * 100 + 99) :: u64)"
      by (simp add: BUCKET_WIDTH_def)
    then show ?thesis using that by (simp only: unat_of_nat) simp
  qed
  have small: "i = unat x div 100 \<and> i < 1000" if "unat x < 100000"
    using that less_mult_imp_div_less [of "unat x" 1000 100] unfolding i_def bucket_of_def BUCKET_COUNT_def BUCKET_WIDTH_def by (simp add: min_def)
  have big: "i = 1000" if "100000 \<le> unat x"
    using that div_le_mono [OF that, of 100]
    unfolding i_def bucket_of_def BUCKET_COUNT_def BUCKET_WIDTH_def by (simp add: min_def)
  have cases: "unat x < 100000 \<or> 100000 \<le> unat x" by linarith
  show "bucket_top largest (bucket_of x) \<le> largest" by (simp add: bucket_top_def)
  show overflow: "100000 \<le> unat x \<Longrightarrow> bucket_top largest (bucket_of x) = largest"
    using big by (simp add: i_def bucket_top_def BUCKET_COUNT_def)
  have val: "bucket_top largest i = min (of_nat i * of_nat BUCKET_WIDTH + of_nat (BUCKET_WIDTH - 1)) largest"
    if "unat x < 100000"
    using small that by (simp add: bucket_top_def BUCKET_COUNT_def)
  show "x \<le> bucket_top largest (bucket_of x)"
  proof (cases "unat x < 100000")
    case True
    have "unat x \<le> i * 100 + 99" using small [OF True] by presburger
    then show ?thesis using val [OF True] w small [OF True] assms i_def by (simp add: word_le_nat_alt)
  qed (use overflow assms in simp)
  show "unat (bucket_top largest (bucket_of x)) < unat x + 100" if "unat x < 100000"
  proof -
    have "unat (bucket_top largest i) \<le> i * 100 + 99"
      unfolding val [OF that] using w small [OF that] by (metis min.cobounded1 word_le_nat_alt)
    moreover have "i * 100 \<le> unat x" using small [OF that] by simp
    ultimately show ?thesis unfolding i_def by linarith
  qed
qed



text \<open>The rank of the median is the middle position, exactly, as long as the count is below \<open>2 ^ 52\<close>.\<close>

lemma median_rank:
  assumes "0 < unat n" "unat n < 2 ^ 52"
  shows "unat (quantile_rank (Fin (1 / 2)) n) = (unat n + 1) div 2"
proof -
  obtain k where k: "unat n = k" by simp
  define m where "m = int k"
  have m: "0 < m" "m < 2 ^ 52" using assms k by (simp_all add: m_def)
  have "f64_of_u64 n = Fin (of_int m)"
    using f64_of_between(1) [of "of_int m" m] rne_int [of m] m by (simp add: f64_of_u64_def m_def k)
  moreover have "f64_of (1 / 2 * of_int m) = Fin (of_int m / 2)"
    using f64_of_between(1) [of "of_int m / 2" m] rne_half [of m] m by simp
  ultimately have "fceil (fmul (Fin (1 / 2)) (f64_of_u64 n)) = Fin (of_int \<lceil>(of_int m :: rat) / 2\<rceil>)"
    by simp
  moreover have c: "\<lceil>(of_int m :: rat) / 2\<rceil> = (m + 1) div 2"
    by (rule ceiling_unique) (use div_mult_mod_eq [of "m + 1" 2] in linarith)+
  ultimately have "f64_as_u64 (fceil (fmul (Fin (1 / 2)) (f64_of_u64 n))) = of_int ((m + 1) div 2)"
    using m as_int_exact [of 0 "(m + 1) div 2" "2 ^ 64 - 1"] by (simp add: f64_as_u64_def del: as_int.simps)
  moreover have "(m + 1) div 2 = int ((unat n + 1) div 2)" by (simp add: m_def k)
  ultimately have "f64_as_u64 (fceil (fmul (Fin (1 / 2)) (f64_of_u64 n))) = of_nat ((unat n + 1) div 2)" by simp
  moreover have "unat (of_nat ((unat n + 1) div 2) :: u64) = (unat n + 1) div 2"
    using assms by (simp only: unat_of_nat) simp
  ultimately show ?thesis using assms(1)
    by (simp add: quantile_rank_def min_def max_def word_le_nat_alt) presburger
qed

end
