(* ===== verification/Perf_Trace.thy ===== *)
theory Perf_Trace
  imports Perf_Histogram
begin

text \<open>
  \<open>rc-agent/src/perf.rs\<close>: the optional trace of output latencies. Producer threads record events without
  waiting: a word counts the producers that were admitted and has a bit that closes admission. A writer
  thread takes the events from a bounded queue, and the guard's \<open>finish\<close> closes admission, waits for the
  producers, signals the writer and waits for its summary footer.

  The threads are interleaved action by action; every access to an atomic or a channel is one action.
  The JSON encoding of an event and of the summary and the file are parameters (record \<open>trace_io\<close>).
\<close>

section \<open>The writer\<close>

definition QUEUE_CAPACITY :: nat where
  "QUEUE_CAPACITY = 8192"

definition FINISH_TIMEOUT :: duration where
  "FINISH_TIMEOUT = secs 5"

definition MAX_KEYS :: nat where
  "MAX_KEYS = 64"

definition RAW_LIMIT :: nat where
  "RAW_LIMIT = 49 * 1024 * 1024"

record trace_event =
  ev_session :: uuid
  ev_sequence :: u64
  ev_bytes :: nat
  elapsed_us :: u64

record summary =
  samples :: u64
  sm_dropped :: u64
  sm_raw_events :: u64
  sm_raw_bytes :: u64
  sm_raw_truncated :: bool
  histogram_bucket_width_us :: u64
  histogram_overflow_bucket_start_us :: u64
  sm_global :: histogram
  sm_sessions :: "(uuid, histogram) hmap"
  sm_other :: histogram
  p50_upper_us :: "u64 option"
  p95_upper_us :: "u64 option"
  p99_upper_us :: "u64 option"

datatype trace_error =
    SerializeFailed
  | WriteFailed
  | FooterTooLarge
  | ProducersBusy
  | WriterBusy
  | WriterGone
  | NotAbsolute
  | AlreadyInitialized
  | CreateFailed

text \<open>What \<open>serde_json\<close> gives for an event and for the summary, and whether a file with this content takes
  more bytes.\<close>

record trace_io =
  event_json :: "trace_event \<Rightarrow> bytes option"
  summary_json :: "summary \<Rightarrow> bytes option"
  file_takes :: "bytes \<Rightarrow> bytes \<Rightarrow> bool"

record trace_writer =
  tw_file :: bytes
  raw_limit :: nat
  raw_bytes :: nat
  raw_events :: u64
  raw_truncated :: bool
  tw_global :: histogram
  tw_sessions :: "(uuid, histogram) hmap"
  tw_other :: histogram

definition trace_writer_new :: "nat \<Rightarrow> trace_writer" where
  "trace_writer_new limit =
     \<lparr>tw_file = [], raw_limit = min limit RAW_LIMIT, raw_bytes = 0, raw_events = 0, raw_truncated = False,
      tw_global = histogram_new, tw_sessions = [], tw_other = histogram_new\<rparr>"

definition count_event :: "trace_event \<Rightarrow> trace_writer \<Rightarrow> trace_writer" where
  "count_event e w =
     (let w = w\<lparr>tw_global := histogram_record (elapsed_us e) (tw_global w)\<rparr>;
          sid = ev_session e;
          needs_new = \<not> hm_contains (tw_sessions w) sid \<and> hm_len (tw_sessions w) \<ge> MAX_KEYS
      in if needs_new
         then w\<lparr>tw_other := histogram_record (elapsed_us e) (tw_other w)\<rparr>
         else w\<lparr>tw_sessions := hm_insert sid
                  (histogram_record (elapsed_us e)
                    (case hm_get (tw_sessions w) sid of Some h \<Rightarrow> h | None \<Rightarrow> histogram_new)) (tw_sessions w)\<rparr>)"

definition write_raw :: "trace_io \<Rightarrow> trace_event \<Rightarrow> trace_writer \<Rightarrow> trace_error + trace_writer" where
  "write_raw io e w =
     (if raw_truncated w then Ok w
      else case event_json io e of
        None \<Rightarrow> Err SerializeFailed
      | Some json \<Rightarrow>
          (let buf = json @ [10]; len = length buf in
           if raw_bytes w + len > raw_limit w then Ok (w\<lparr>raw_truncated := True\<rparr>)
           else if \<not> file_takes io (tw_file w) buf then Err WriteFailed
           else Ok (w\<lparr>tw_file := tw_file w @ buf, raw_bytes := raw_bytes w + len, raw_events := raw_events w + 1\<rparr>)))"

definition observe :: "trace_io \<Rightarrow> trace_event \<Rightarrow> trace_writer \<Rightarrow> trace_error + trace_writer" where
  "observe io e w = write_raw io e (count_event e w)"

definition summary_of :: "u64 \<Rightarrow> trace_writer \<Rightarrow> summary" where
  "summary_of dropped w =
     \<lparr>samples = h_count (tw_global w), sm_dropped = dropped, sm_raw_events = raw_events w,
      sm_raw_bytes = of_nat (raw_bytes w), sm_raw_truncated = raw_truncated w,
      histogram_bucket_width_us = 100, histogram_overflow_bucket_start_us = 100000,
      sm_global = tw_global w, sm_sessions = tw_sessions w, sm_other = tw_other w,
      p50_upper_us = upper_quantile (f64_of (50 / 100)) (tw_global w),
      p95_upper_us = upper_quantile (f64_of (95 / 100)) (tw_global w),
      p99_upper_us = upper_quantile (f64_of (99 / 100)) (tw_global w)\<rparr>"

definition trace_writer_finish :: "trace_io \<Rightarrow> u64 \<Rightarrow> trace_writer \<Rightarrow> trace_error + bytes" where
  "trace_writer_finish io dropped w =
     (case summary_json io (summary_of dropped w) of
        None \<Rightarrow> Err SerializeFailed
      | Some json \<Rightarrow>
          (let buf = json @ [10] in
           if length buf > 1024 * 1024 then Err FooterTooLarge
           else if \<not> file_takes io (tw_file w) buf then Err WriteFailed
           else Ok (tw_file w @ buf)))"

section \<open>Admission\<close>

text \<open>\<open>usize\<close> has 64 bits.\<close>

definition CLOSED_BIT :: u64 where
  "CLOSED_BIT = push_bit 63 1"

definition PRODUCER_MASK :: u64 where
  "PRODUCER_MASK = CLOSED_BIT - 1"

unbundle bit_operations_syntax

definition admission_closed :: "u64 \<Rightarrow> bool" where
  "admission_closed current \<longleftrightarrow>
     current AND CLOSED_BIT \<noteq> 0 \<or> current AND PRODUCER_MASK = PRODUCER_MASK"

definition producers_busy :: "u64 \<Rightarrow> bool" where
  "producers_busy a \<longleftrightarrow> a AND PRODUCER_MASK \<noteq> 0"

definition new_event :: "uuid \<Rightarrow> u64 \<Rightarrow> nat \<Rightarrow> duration \<Rightarrow> trace_event" where
  "new_event sid seq n elapsed =
     \<lparr>ev_session = sid, ev_sequence = seq, ev_bytes = n,
      elapsed_us = of_nat (min (as_micros elapsed) (2 ^ 64 - 1))\<rparr>"

text \<open>A producer between the accesses of \<open>Sink::record\<close>: in the loop of \<open>admit\<close> with the value it last
  read, admitted, and before \<open>release\<close>.\<close>

datatype producer =
    PIdle
  | PAdmit u64 trace_event
  | PAdmitted trace_event
  | PRelease

text \<open>The guard in \<open>finish_inner\<close>, with the result of \<open>close_producers\<close> and of the signal so far.\<close>

datatype guard =
    GOpen
  | GClose instant
  | GSignal instant "trace_error + unit"
  | GWait instant "trace_error + unit" "trace_error + unit"
  | GFinished "trace_error + unit"

text \<open>The thread of \<open>write_trace\<close>: at the head of the loop, before \<open>recv_timeout\<close>, in \<open>drain_events\<close>, before the
  footer, and returned.\<close>

datatype writer_thread =
    WLoop trace_writer
  | WRecv trace_writer
  | WDrain trace_writer
  | WFooter trace_writer
  | WEnd "trace_error + bytes"

text \<open>The last three fields are histories: how many records were admitted, the events that entered the queue,
  and how many were dropped.\<close>

record trace_sys =
  admission :: u64
  dropped :: u64
  tq :: "trace_event list"
  signals :: nat
  producers :: "producer list"
  tguard :: guard
  wthread :: writer_thread
  hist_admitted :: nat
  hist_sent :: "trace_event list"
  hist_dropped :: nat

definition trace_start :: "nat \<Rightarrow> trace_sys" where
  "trace_start n =
     \<lparr>admission = 0, dropped = 0, tq = [], signals = 0, producers = replicate n PIdle, tguard = GOpen,
      wthread = WLoop (trace_writer_new RAW_LIMIT), hist_admitted = 0, hist_sent = [], hist_dropped = 0\<rparr>"

text \<open>\<open>init_from_path\<close> and \<open>start\<close>: the trace starts only at an absolute path that does not exist yet, once.\<close>

definition init_from_path :: "nat \<Rightarrow> 'p option \<Rightarrow> ('p \<Rightarrow> bool) \<Rightarrow> bool \<Rightarrow> ('p \<Rightarrow> bool) \<Rightarrow> trace_error + trace_sys option" where
  "init_from_path n path absolute initialized create_new =
     (case path of
        None \<Rightarrow> Ok None
      | Some path \<Rightarrow>
          if \<not> absolute path then Err NotAbsolute
          else if initialized then Err AlreadyInitialized
          else if \<not> create_new path then Err CreateFailed
          else Ok (Some (trace_start n)))"

section \<open>The actions of the threads\<close>

text \<open>\<open>record\<close> begins: the first load in \<open>admit\<close>.\<close>

definition producer_load :: "nat \<Rightarrow> trace_event \<Rightarrow> trace_sys \<Rightarrow> trace_sys" where
  "producer_load i e s = s\<lparr>producers := (producers s)[i := PAdmit (admission s) e]\<rparr>"

text \<open>One round of the loop in \<open>admit\<close>; the weak exchange may fail although the value is unchanged.\<close>

definition producer_admit :: "nat \<Rightarrow> bool \<Rightarrow> u64 \<Rightarrow> trace_event \<Rightarrow> trace_sys \<Rightarrow> trace_sys" where
  "producer_admit i spurious current e s =
     (if admission_closed current then s\<lparr>producers := (producers s)[i := PIdle]\<rparr>
      else if admission s = current \<and> \<not> spurious
      then s\<lparr>admission := current + 1, producers := (producers s)[i := PAdmitted e], hist_admitted := hist_admitted s + 1\<rparr>
      else s\<lparr>producers := (producers s)[i := PAdmit (admission s) e]\<rparr>)"

text \<open>\<open>try_send\<close>: the queue may be full, or its receiver gone.\<close>

definition receiver_alive :: "trace_sys \<Rightarrow> bool" where
  "receiver_alive s \<longleftrightarrow> (case wthread s of WEnd _ \<Rightarrow> False | _ \<Rightarrow> True)"

definition producer_send :: "nat \<Rightarrow> trace_event \<Rightarrow> trace_sys \<Rightarrow> trace_sys" where
  "producer_send i e s =
     (let s = s\<lparr>producers := (producers s)[i := PRelease]\<rparr> in
      if receiver_alive s \<and> length (tq s) < QUEUE_CAPACITY
      then s\<lparr>tq := tq s @ [e], hist_sent := hist_sent s @ [e]\<rparr>
      else s\<lparr>dropped := dropped s + 1, hist_dropped := hist_dropped s + 1\<rparr>)"

definition producer_release :: "nat \<Rightarrow> trace_sys \<Rightarrow> trace_sys" where
  "producer_release i s = s\<lparr>admission := admission s - 1, producers := (producers s)[i := PIdle]\<rparr>"

definition producer_step :: "nat \<Rightarrow> trace_event \<Rightarrow> bool \<Rightarrow> trace_sys \<Rightarrow> trace_sys" where
  "producer_step i e spurious s =
     (if i < length (producers s)
      then case producers s ! i of
             PIdle \<Rightarrow> producer_load i e s
           | PAdmit current ev \<Rightarrow> producer_admit i spurious current ev s
           | PAdmitted ev \<Rightarrow> producer_send i ev s
           | PRelease \<Rightarrow> producer_release i s
      else s)"

text \<open>\<open>finish_inner\<close> at the time \<open>now\<close>: close admission; one test of the loop of \<open>close_producers\<close>; signal the
  writer; one test of \<open>wait_for_writer\<close>.\<close>

definition guard_result :: "trace_error + bytes \<Rightarrow> trace_error + unit \<Rightarrow> trace_error + unit \<Rightarrow> trace_error + unit" where
  "guard_result written cl signalled =
     (case written of
        Err x \<Rightarrow> Err x
      | Ok _ \<Rightarrow> (case cl of Err x \<Rightarrow> Err x | Ok _ \<Rightarrow> signalled))"

definition guard_step :: "instant \<Rightarrow> trace_sys \<Rightarrow> trace_sys" where
  "guard_step now s =
     (case tguard s of
        GOpen \<Rightarrow> s\<lparr>admission := admission s OR CLOSED_BIT, tguard := GClose (now + FINISH_TIMEOUT)\<rparr>
      | GClose deadline \<Rightarrow>
          if \<not> producers_busy (admission s) then s\<lparr>tguard := GSignal deadline (Ok ())\<rparr>
          else if now \<ge> deadline then s\<lparr>tguard := GSignal deadline (Err ProducersBusy)\<rparr>
          else s
      | GSignal deadline cl \<Rightarrow>
          if receiver_alive s then s\<lparr>signals := signals s + 1, tguard := GWait deadline cl (Ok ())\<rparr>
          else s\<lparr>tguard := GWait deadline cl (Err WriterGone)\<rparr>
      | GWait deadline cl signalled \<Rightarrow>
          (case wthread s of
             WEnd written \<Rightarrow> s\<lparr>tguard := GFinished (guard_result written cl signalled)\<rparr>
           | _ \<Rightarrow> if now \<ge> deadline then s\<lparr>tguard := GFinished (Err WriterBusy)\<rparr> else s)
      | GFinished _ \<Rightarrow> s)"

text \<open>\<open>write_trace\<close> and \<open>drain_events\<close>. The guard keeps a sender of both channels, so neither is disconnected.\<close>

definition take_event :: "trace_io \<Rightarrow> (trace_writer \<Rightarrow> writer_thread) \<Rightarrow> (trace_writer \<Rightarrow> writer_thread) \<Rightarrow>
    trace_writer \<Rightarrow> trace_sys \<Rightarrow> trace_sys" where
  "take_event io onward drained w s =
     (case tq s of
        [] \<Rightarrow> s\<lparr>wthread := drained w\<rparr>
      | e # q \<Rightarrow>
          s\<lparr>tq := q, wthread := (case observe io e w of Err x \<Rightarrow> WEnd (Err x) | Ok w' \<Rightarrow> onward w')\<rparr>)"

definition writer_step :: "trace_io \<Rightarrow> trace_sys \<Rightarrow> trace_sys" where
  "writer_step io s =
     (case wthread s of
        WLoop w \<Rightarrow>
          if signals s > 0 then s\<lparr>signals := signals s - 1, wthread := WDrain w\<rparr>
          else s\<lparr>wthread := WRecv w\<rparr>
      | WRecv w \<Rightarrow> take_event io WLoop WLoop w s
      | WDrain w \<Rightarrow> take_event io WDrain WFooter w s
      | WFooter w \<Rightarrow> s\<lparr>wthread := WEnd (trace_writer_finish io (dropped s) w)\<rparr>
      | WEnd _ \<Rightarrow> s)"

datatype trace_action =
    Producer nat trace_event bool
  | Guard instant
  | Writer

fun trace_step :: "trace_io \<Rightarrow> trace_action \<Rightarrow> trace_sys \<Rightarrow> trace_sys" where
  "trace_step io (Producer i e spurious) s = producer_step i e spurious s"
| "trace_step io (Guard now) s = guard_step now s"
| "trace_step io Writer s = writer_step io s"

definition trace_run :: "trace_io \<Rightarrow> nat \<Rightarrow> trace_action list \<Rightarrow> trace_sys" where
  "trace_run io n acts = fold (trace_step io) acts (trace_start n)"

section \<open>What the writer keeps of the events\<close>

fun observe_all :: "trace_io \<Rightarrow> trace_event list \<Rightarrow> trace_writer \<Rightarrow> trace_error + trace_writer" where
  "observe_all io [] w = Ok w"
| "observe_all io (e # es) w = (case observe io e w of Err x \<Rightarrow> Err x | Ok w' \<Rightarrow> observe_all io es w')"

definition latencies :: "(trace_event \<Rightarrow> bool) \<Rightarrow> trace_event list \<Rightarrow> u64 list" where
  "latencies P es = map elapsed_us (filter P es)"

text \<open>The histograms of a writer that has seen \<open>es\<close>: the global one has every event, the one of a session in
  the table every event of that session, and \<open>other\<close> the events of the sessions that found the table full.\<close>

definition partitions :: "trace_event list \<Rightarrow> trace_writer \<Rightarrow> bool" where
  "partitions es w \<longleftrightarrow>
     hm_wf (tw_sessions w) \<and> hm_len (tw_sessions w) \<le> MAX_KEYS \<and>
     tw_global w = recorded (map elapsed_us es) \<and>
     (\<forall>sid h. hm_get (tw_sessions w) sid = Some h \<longrightarrow> h = recorded (latencies (\<lambda>e. ev_session e = sid) es)) \<and>
     tw_other w = recorded (latencies (\<lambda>e. \<not> hm_contains (tw_sessions w) (ev_session e)) es) \<and>
     (\<forall>e \<in> set es. hm_contains (tw_sessions w) (ev_session e) \<or> hm_len (tw_sessions w) = MAX_KEYS)"

definition file_wf :: "trace_writer \<Rightarrow> bool" where
  "file_wf w \<longleftrightarrow> length (tw_file w) = raw_bytes w \<and> raw_bytes w \<le> raw_limit w \<and> raw_limit w \<le> RAW_LIMIT"

lemma recorded_snoc: "recorded (xs @ [x]) = histogram_record x (recorded xs)"
  by (simp add: recorded_def)

lemma latencies_snoc: "latencies P (es @ [e]) = latencies P es @ (if P e then [elapsed_us e] else [])"
  by (simp add: latencies_def)

lemma latencies_none: "(\<And>e. e \<in> set es \<Longrightarrow> \<not> P e) \<Longrightarrow> latencies P es = []"
  by (simp add: latencies_def filter_empty_conv)

lemma latencies_cong: "(\<And>e. e \<in> set es \<Longrightarrow> P e = Q e) \<Longrightarrow> latencies P es = latencies Q es"
  by (simp add: latencies_def cong: filter_cong)

lemma recorded_Nil [simp]: "recorded [] = histogram_new"
  by (simp add: recorded_def)

lemma recorded_single: "recorded [x] = histogram_record x histogram_new"
  by (simp add: recorded_def)

lemma partitions_new: "partitions [] (trace_writer_new limit)"
  by (simp add: partitions_def trace_writer_new_def latencies_def)

lemma partitions_count_event:
  assumes p: "partitions es w"
  shows "partitions (es @ [e]) (count_event e w)"
proof -
  let ?T = "tw_sessions w" let ?sid = "ev_session e"
  note P = p [unfolded partitions_def]
  consider (full) "\<not> hm_contains ?T ?sid" "hm_len ?T \<ge> MAX_KEYS"
    | (known) h where "hm_get ?T ?sid = Some h" | (new) "hm_get ?T ?sid = None" "hm_len ?T < MAX_KEYS"
    by fastforce
  then show ?thesis
  proof cases
    case full
    then show ?thesis using P
      by (auto simp: partitions_def count_event_def Let_def recorded_snoc latencies_snoc)
  next
    case known
    have same: "latencies (\<lambda>d. ev_session d \<noteq> ?sid \<and> (ev_session d \<noteq> ?sid \<longrightarrow> hm_get ?T (ev_session d) = None)) es =
        latencies (\<lambda>d. hm_get ?T (ev_session d) = None) es"
      using known by (intro latencies_cong) auto
    show ?thesis using P known unfolding partitions_def count_event_def Let_def
      by (auto simp: same recorded_snoc latencies_snoc hm_len_insert)
  next
    case new
    have all: "hm_contains ?T (ev_session d)" if "d \<in> set es" for d
      using P new that by fastforce
    have fresh: "latencies (\<lambda>d. ev_session d = ?sid) es = []"
      using all new(1) by (intro latencies_none) force
    have rest: "latencies (\<lambda>d. ev_session d \<noteq> ?sid \<and> (ev_session d \<noteq> ?sid \<longrightarrow> hm_get ?T (ev_session d) = None)) es =
        latencies (\<lambda>d. hm_get ?T (ev_session d) = None) es"
      using new(1) all by (intro latencies_cong) force
    show ?thesis using P new fresh all unfolding partitions_def count_event_def Let_def
      by (auto simp: rest recorded_snoc recorded_single latencies_snoc hm_len_insert)
  qed
qed

lemma write_raw_keeps:
  assumes "write_raw io e w = Ok w'"
  shows "tw_global w' = tw_global w" "tw_sessions w' = tw_sessions w" "tw_other w' = tw_other w"
    "file_wf w \<Longrightarrow> file_wf w'"
  using assms by (auto simp: write_raw_def file_wf_def Let_def split: if_splits option.splits)

lemma count_event_file [simp]: "file_wf (count_event e w) = file_wf w"
  by (simp add: file_wf_def count_event_def Let_def)

lemma observe_ok:
  assumes "observe io e w = Ok w'" "partitions es w" "file_wf w"
  shows "partitions (es @ [e]) w'" "file_wf w'"
  using partitions_count_event [OF assms(2), of e] write_raw_keeps [OF assms(1) [unfolded observe_def]] assms(3)
  by (simp_all add: partitions_def)

lemma observe_all_ok:
  "observe_all io es w = Ok w' \<Longrightarrow> partitions ds w \<Longrightarrow> file_wf w \<Longrightarrow> partitions (ds @ es) w' \<and> file_wf w'"
proof (induction es arbitrary: ds w)
  case (Cons e es)
  then obtain v where v: "observe io e w = Ok v" "observe_all io es v = Ok w'"
    by (auto split: sum.splits)
  from Cons.IH [OF v(2) observe_ok [OF v(1) Cons.prems(2,3)]] show ?case by simp
qed simp

lemma observe_all_snoc:
  "observe_all io (es @ [e]) w = (case observe_all io es w of Err x \<Rightarrow> Err x | Ok w' \<Rightarrow> observe io e w')"
  by (induction es arbitrary: w) (auto split: sum.splits)

section \<open>The admission word\<close>

lemma closed_bit_set: "a AND CLOSED_BIT \<noteq> 0 \<longleftrightarrow> 2 ^ 63 \<le> unat a"
proof -
  have "a AND CLOSED_BIT \<noteq> 0 \<longleftrightarrow> bit a 63"
    using and_exp_eq_0_iff_not_bit [of a 63] by (simp add: CLOSED_BIT_def push_bit_of_1)
  also have "\<dots> \<longleftrightarrow> bit (unat a) 63"
    by (simp add: bit_unsigned_iff)
  also have "\<dots> \<longleftrightarrow> odd (unat a div 2 ^ 63)"
    by (simp only: bit_iff_odd)
  also have "\<dots> \<longleftrightarrow> unat a div 2 ^ 63 \<noteq> 0"
  proof -
    have "unat a div 2 ^ 63 < 2"
      using less_mult_imp_div_less [of "unat a" 2 "2 ^ 63"] unat_u64_lt [of a] by simp
    then show ?thesis by (metis less_2_cases odd_one even_zero One_nat_def)
  qed
  also have "\<dots> \<longleftrightarrow> 2 ^ 63 \<le> unat a"
    by (simp add: div_eq_0_iff not_less)
  finally show ?thesis .
qed

lemma producer_bits: "unat (a AND PRODUCER_MASK) = unat a mod 2 ^ 63"
proof -
  have "PRODUCER_MASK = mask 63" by (simp add: PRODUCER_MASK_def CLOSED_BIT_def mask_eq_exp_minus_1 push_bit_of_1)
  then have "a AND PRODUCER_MASK = take_bit 63 a" by (simp add: take_bit_eq_mask)
  then have "unat (a AND PRODUCER_MASK) = take_bit 63 (unat a)" by (simp only: unsigned_take_bit_eq)
  then show ?thesis by (simp only: take_bit_eq_mod)
qed

lemma unat_producer_mask: "unat PRODUCER_MASK = 2 ^ 63 - 1"
  by (simp add: PRODUCER_MASK_def CLOSED_BIT_def push_bit_of_1)

lemma admission_closed_iff: "admission_closed a \<longleftrightarrow> 2 ^ 63 \<le> unat a \<or> unat a mod 2 ^ 63 = 2 ^ 63 - 1"
  unfolding admission_closed_def closed_bit_set
  by (metis producer_bits unat_producer_mask word_unat_eq_iff)

lemma producers_busy_iff: "producers_busy a \<longleftrightarrow> unat a mod 2 ^ 63 \<noteq> 0"
  unfolding producers_busy_def by (metis producer_bits unat_eq_zero)

lemma close_open: "unat a < 2 ^ 63 \<Longrightarrow> unat (a OR CLOSED_BIT) = 2 ^ 63 + unat a"
proof -
  assume a: "unat a < 2 ^ 63"
  then have "a AND CLOSED_BIT = 0" using closed_bit_set [of a] by linarith
  then have "a OR CLOSED_BIT = a + CLOSED_BIT" by (simp add: disjunctive_add_eq_or)
  moreover have "unat CLOSED_BIT = 2 ^ 63" by (simp add: CLOSED_BIT_def push_bit_of_1)
  ultimately show ?thesis using a by (simp add: unat_word_ariths)
qed

section \<open>The invariant of the threads\<close>

fun holds_admission :: "producer \<Rightarrow> bool" where
  "holds_admission (PAdmitted _) = True"
| "holds_admission PRelease = True"
| "holds_admission _ = False"

fun has_event :: "producer \<Rightarrow> bool" where
  "has_event (PAdmitted _) = True"
| "has_event _ = False"

fun closed_ok :: "guard \<Rightarrow> bool" where
  "closed_ok (GSignal _ c) = is_ok c"
| "closed_ok (GWait _ c _) = is_ok c"
| "closed_ok (GFinished r) = is_ok r"
| "closed_ok _ = False"

fun signalled :: "guard \<Rightarrow> bool" where
  "signalled (GWait _ _ _) = True"
| "signalled (GFinished _) = True"
| "signalled _ = False"

fun past_signal :: "writer_thread \<Rightarrow> bool" where
  "past_signal (WDrain _) = True"
| "past_signal (WFooter _) = True"
| "past_signal (WEnd r) = is_ok r"
| "past_signal _ = False"

abbreviation n_active :: "trace_sys \<Rightarrow> nat" where
  "n_active s \<equiv> length (filter holds_admission (producers s))"

abbreviation n_pending :: "trace_sys \<Rightarrow> nat" where
  "n_pending s \<equiv> length (filter has_event (producers s))"

definition counts_ok :: "trace_sys \<Rightarrow> bool" where
  "counts_ok s \<longleftrightarrow>
     unat (admission s) = (if tguard s = GOpen then 0 else 2 ^ 63) + n_active s \<and> n_active s < 2 ^ 63 \<and>
     dropped s = of_nat (hist_dropped s) \<and>
     hist_admitted s = length (hist_sent s) + hist_dropped s + n_pending s \<and>
     (closed_ok (tguard s) \<longrightarrow> n_active s = 0)"

text \<open>The writer has consumed a prefix of the events sent, and the queue has the others.\<close>

definition consumed :: "trace_io \<Rightarrow> trace_sys \<Rightarrow> trace_writer \<Rightarrow> bool" where
  "consumed io s w \<longleftrightarrow> (\<exists>c. hist_sent s = c @ tq s \<and> observe_all io c (trace_writer_new RAW_LIMIT) = Ok w)"

definition complete_file :: "trace_io \<Rightarrow> trace_sys \<Rightarrow> bytes \<Rightarrow> bool" where
  "complete_file io s file \<longleftrightarrow>
     (\<exists>w. observe_all io (hist_sent s) (trace_writer_new RAW_LIMIT) = Ok w \<and>
          trace_writer_finish io (dropped s) w = Ok file)"

definition writer_ok :: "trace_io \<Rightarrow> trace_sys \<Rightarrow> bool" where
  "writer_ok io s \<longleftrightarrow>
     (case wthread s of
        WLoop w \<Rightarrow> consumed io s w
      | WRecv w \<Rightarrow> consumed io s w
      | WDrain w \<Rightarrow> consumed io s w
      | WFooter w \<Rightarrow> consumed io s w \<and> (closed_ok (tguard s) \<longrightarrow> tq s = [])
      | WEnd r \<Rightarrow> (\<forall>file. r = Ok file \<longrightarrow> closed_ok (tguard s) \<longrightarrow> complete_file io s file))"

definition signal_ok :: "trace_sys \<Rightarrow> bool" where
  "signal_ok s \<longleftrightarrow>
     (0 < signals s \<or> past_signal (wthread s) \<longrightarrow> signalled (tguard s)) \<and>
     (tguard s = GFinished (Ok ()) \<longrightarrow> (\<exists>file. wthread s = WEnd (Ok file)))"

definition trace_inv :: "trace_io \<Rightarrow> trace_sys \<Rightarrow> bool" where
  "trace_inv io s \<longleftrightarrow> counts_ok s \<and> writer_ok io s \<and> signal_ok s"

lemma count_update:
  "i < length xs \<Longrightarrow> length (filter P (xs[i := x])) + (if P (xs ! i) then 1 else 0) =
     length (filter P xs) + (if P x then 1 else 0)"
proof (induction xs arbitrary: i)
  case (Cons y ys)
  then show ?case by (cases i) auto
qed simp

lemma trace_inv_start: "trace_inv io (trace_start n)"
  by (simp add: trace_inv_def counts_ok_def writer_ok_def signal_ok_def consumed_def trace_start_def)

text \<open>A step that changes neither the writer's view nor the guard keeps the writer's invariant.\<close>

lemma writer_ok_frame:
  assumes "writer_ok io s" "wthread s' = wthread s" "tguard s' = tguard s"
    "tq s' = tq s" "hist_sent s' = hist_sent s" "dropped s' = dropped s"
  shows "writer_ok io s'"
  using assms by (simp add: writer_ok_def consumed_def complete_file_def split: writer_thread.splits)

lemma signal_ok_frame:
  assumes "signal_ok s" "wthread s' = wthread s" "tguard s' = tguard s" "signals s' = signals s"
  shows "signal_ok s'"
  using assms by (simp add: signal_ok_def)

lemma producer_load_inv:
  assumes "trace_inv io s" "i < length (producers s)" "\<not> holds_admission (producers s ! i)"
  shows "trace_inv io (s\<lparr>producers := (producers s)[i := PAdmit c e]\<rparr>)" "trace_inv io (s\<lparr>producers := (producers s)[i := PIdle]\<rparr>)"
proof -
  have h: "\<not> has_event (producers s ! i)" using assms(3) by (cases "producers s ! i") auto
  have "counts_ok (s\<lparr>producers := (producers s)[i := p]\<rparr>)" if "\<not> holds_admission p" for p
  proof -
    have "\<not> has_event p" using that by (cases p) auto
    then show ?thesis
      using assms h that count_update [OF assms(2), of holds_admission p] count_update [OF assms(2), of has_event p]
      by (simp add: trace_inv_def counts_ok_def)
  qed
  then show "trace_inv io (s\<lparr>producers := (producers s)[i := PAdmit c e]\<rparr>)" "trace_inv io (s\<lparr>producers := (producers s)[i := PIdle]\<rparr>)"
    using assms(1) by (auto simp: trace_inv_def intro: writer_ok_frame signal_ok_frame)
qed

text \<open>An admission: the word is below the limit, so the increment cannot reach the closing bit.\<close>

lemma producer_cas_inv:
  assumes inv: "trace_inv io s" and i: "i < length (producers s)" "producers s ! i = PAdmit c e"
    and cas: "\<not> admission_closed c" "admission s = c"
  shows "trace_inv io (s\<lparr>admission := c + 1, producers := (producers s)[i := PAdmitted e], hist_admitted := hist_admitted s + 1\<rparr>)"
proof -
  have c: "counts_ok s" using inv by (simp add: trace_inv_def)
  have "unat c < 2 ^ 63 \<and> unat c mod 2 ^ 63 \<noteq> 2 ^ 63 - 1"
    using cas(1) unfolding admission_closed_iff de_Morgan_disj not_le .
  then have open_c: "unat c < 2 ^ 63 - 1" by auto
  then have g: "tguard s = GOpen" and n: "unat c = n_active s"
    using c cas(2) by (auto simp: counts_ok_def split: if_splits)
  have plus: "unat (c + 1) = unat c + 1"
    using open_c by (simp add: unat_word_ariths)
  have "counts_ok (s\<lparr>admission := c + 1, producers := (producers s)[i := PAdmitted e], hist_admitted := hist_admitted s + 1\<rparr>)"
    using c g n plus open_c i count_update [OF i(1), of holds_admission "PAdmitted e"]
      count_update [OF i(1), of has_event "PAdmitted e"]
    by (simp add: counts_ok_def)
  then show ?thesis
    using inv by (auto simp: trace_inv_def intro: writer_ok_frame signal_ok_frame)
qed

lemma producer_send_inv:
  assumes inv: "trace_inv io s" and i: "i < length (producers s)" "producers s ! i = PAdmitted e"
  shows "trace_inv io (producer_send i e s)"
proof -
  have c: "counts_ok s" "writer_ok io s" "signal_ok s" using inv by (simp_all add: trace_inv_def)
  have "n_active s \<noteq> 0" using i nth_mem [OF i(1)] by (force simp: filter_empty_conv)
  then have no: "\<not> closed_ok (tguard s)" using c(1) by (auto simp: counts_ok_def)
  have n: "n_active (s\<lparr>producers := (producers s)[i := PRelease]\<rparr>) = n_active s"
    "Suc (n_pending (s\<lparr>producers := (producers s)[i := PRelease]\<rparr>)) = n_pending s"
    using i count_update [OF i(1), of holds_admission PRelease] count_update [OF i(1), of has_event PRelease] by simp_all
  have "counts_ok (producer_send i e s)"
    using c(1) n no by (auto simp: counts_ok_def producer_send_def Let_def)
  moreover have "writer_ok io (producer_send i e s)"
    using c(2) no by (auto simp: writer_ok_def producer_send_def Let_def receiver_alive_def consumed_def split: writer_thread.splits)
  moreover have "signal_ok (producer_send i e s)"
    using c(3) by (rule signal_ok_frame) (simp_all add: producer_send_def Let_def)
  ultimately show ?thesis by (simp add: trace_inv_def)
qed

lemma producer_release_inv:
  assumes inv: "trace_inv io s" and i: "i < length (producers s)" "producers s ! i = PRelease"
  shows "trace_inv io (producer_release i s)"
proof -
  have c: "counts_ok s" using inv by (simp add: trace_inv_def)
  have n: "Suc (n_active (producer_release i s)) = n_active s" "n_pending (producer_release i s) = n_pending s"
    using i count_update [OF i(1), of holds_admission PIdle] count_update [OF i(1), of has_event PIdle]
    by (simp_all add: producer_release_def)
  moreover have "n_active s \<le> unat (admission s)" using c by (simp add: counts_ok_def)
  ultimately have "0 < unat (admission s)" by linarith
  then have "unat (admission s - 1) = unat (admission s) - 1"
    by (metis unat_minus_one unat_gt_0 word_gt_0)
  then have "counts_ok (producer_release i s)"
    using c n by (auto simp: counts_ok_def producer_release_def)
  then show ?thesis
    using inv by (auto simp: trace_inv_def producer_release_def intro: writer_ok_frame signal_ok_frame)
qed

lemma producer_step_inv:
  assumes "trace_inv io s"
  shows "trace_inv io (producer_step i e spurious s)"
  using assms producer_load_inv [OF assms] producer_cas_inv [OF assms] producer_send_inv [OF assms] producer_release_inv [OF assms]
  by (auto simp: producer_step_def producer_load_def producer_admit_def split: producer.split)

lemma guard_step_inv:
  assumes inv: "trace_inv io s"
  shows "trace_inv io (guard_step now s)"
proof -
  have c: "counts_ok s" "writer_ok io s" "signal_ok s" using inv by (simp_all add: trace_inv_def)
  show ?thesis
  proof (cases "tguard s")
    case GOpen
    then have "unat (admission s OR CLOSED_BIT) = 2 ^ 63 + n_active s"
      using c(1) by (subst close_open) (auto simp: counts_ok_def)
    then show ?thesis using c GOpen
      by (auto simp: trace_inv_def counts_ok_def writer_ok_def signal_ok_def consumed_def complete_file_def guard_step_def
          split: writer_thread.splits)
  next
    case (GClose deadline)
    then have "producers_busy (admission s) \<longleftrightarrow> n_active s \<noteq> 0"
      using c(1) unfolding producers_busy_iff counts_ok_def by simp
    then show ?thesis using c GClose
      by (auto simp: trace_inv_def counts_ok_def writer_ok_def signal_ok_def consumed_def complete_file_def guard_step_def
          split: writer_thread.splits)
  next
    case (GSignal deadline r)
    then show ?thesis using c
      by (auto simp: trace_inv_def counts_ok_def writer_ok_def signal_ok_def consumed_def complete_file_def guard_step_def
          receiver_alive_def split: writer_thread.splits)
  next
    case (GWait deadline r x)
    have ok: "is_ok (guard_result written r x) \<Longrightarrow> is_ok r \<and> (\<exists>file. written = Ok file)" for written
      by (auto simp: guard_result_def split: sum.splits)
    have written: "guard_result written r x = Ok () \<Longrightarrow> \<exists>file. written = Ok file" for written
      by (auto simp: guard_result_def split: sum.splits)
    show ?thesis using c GWait
      by (auto simp: trace_inv_def counts_ok_def writer_ok_def signal_ok_def consumed_def complete_file_def guard_step_def
          split: writer_thread.splits dest: ok written)
  qed (use inv in \<open>simp add: guard_step_def\<close>)
qed

lemma consumed_take:
  assumes "consumed io s w" "tq s = e # q" "observe io e w = Ok w'"
  shows "consumed io (s\<lparr>tq := q, wthread := t\<rparr>) w'"
proof -
  from assms(1,2) obtain c where c: "hist_sent s = (c @ [e]) @ q" "observe_all io c (trace_writer_new RAW_LIMIT) = Ok w"
    by (auto simp: consumed_def)
  then have "observe_all io (c @ [e]) (trace_writer_new RAW_LIMIT) = Ok w'" using assms(3) by (simp add: observe_all_snoc)
  with c(1) show ?thesis unfolding consumed_def by auto
qed

lemma take_event_inv:
  assumes inv: "trace_inv io s" and w: "consumed io s w"
    and onward: "onward = WLoop \<and> drained = WLoop \<or> onward = WDrain \<and> drained = WFooter \<and> signalled (tguard s)"
    and unfinished: "\<forall>r. wthread s \<noteq> WEnd r"
  shows "trace_inv io (take_event io onward drained w s)"
proof -
  have c: "counts_ok s" "signal_ok s" using inv by (simp_all add: trace_inv_def)
  have "counts_ok (take_event io onward drained w s)"
    using c(1) by (simp add: counts_ok_def take_event_def split: list.split)
  moreover have "writer_ok io (take_event io onward drained w s)"
  proof (cases "tq s")
    case Nil
    then show ?thesis using w onward by (auto simp: writer_ok_def take_event_def consumed_def)
  next
    case (Cons e q)
    then show ?thesis using consumed_take [OF w Cons] onward
      by (auto simp: writer_ok_def take_event_def split: sum.splits)
  qed
  moreover have "signal_ok (take_event io onward drained w s)"
    using c(2) onward unfinished by (auto simp: signal_ok_def take_event_def split: list.splits sum.splits)
  ultimately show ?thesis by (simp add: trace_inv_def)
qed

lemma writer_step_inv:
  assumes inv: "trace_inv io s"
  shows "trace_inv io (writer_step io s)"
proof -
  have c: "counts_ok s" "writer_ok io s" "signal_ok s" using inv by (simp_all add: trace_inv_def)
  show ?thesis
  proof (cases "wthread s")
    case (WLoop w)
    then show ?thesis using c
      by (auto simp: trace_inv_def counts_ok_def writer_ok_def signal_ok_def consumed_def writer_step_def)
  next
    case (WRecv w)
    then have "consumed io s w" using c(2) by (simp add: writer_ok_def)
    from take_event_inv [OF inv this, of WLoop WLoop] WRecv show ?thesis by (simp add: writer_step_def)
  next
    case (WDrain w)
    then have "consumed io s w" "signalled (tguard s)" using c(2,3) by (simp_all add: writer_ok_def signal_ok_def)
    from take_event_inv [OF inv this(1), of WDrain WFooter] this WDrain show ?thesis by (simp add: writer_step_def)
  next
    case (WFooter w)
    then show ?thesis using c
      by (auto simp: trace_inv_def counts_ok_def writer_ok_def signal_ok_def consumed_def complete_file_def writer_step_def)
  qed (use inv in \<open>simp add: writer_step_def\<close>)
qed

lemma trace_step_inv: "trace_inv io s \<Longrightarrow> trace_inv io (trace_step io a s)"
  by (cases a) (simp_all add: producer_step_inv guard_step_inv writer_step_inv)

lemma trace_run_inv: "trace_inv io (trace_run io n acts)"
proof -
  have "trace_inv io s \<Longrightarrow> trace_inv io (fold (trace_step io) acts s)" for s
    by (induction acts arbitrary: s) (simp_all add: trace_step_inv)
  then show ?thesis by (simp add: trace_run_def trace_inv_start)
qed

section \<open>Properties\<close>

text \<open>C33. The footer accounts for every record. In every interleaving of any number of producers, the writer
  and the guard, once \<open>finish\<close> has returned success, and at every later time: each admitted record entered
  the queue or was counted as dropped; the file is the one written by observing, in order, all the events that
  entered the queue, with a footer that has the exact number of dropped ones; and its histograms count every
  event once, under its session or under \<open>other\<close>, with at most 64 sessions.\<close>

theorem footer_accounts_for_every_record:
  assumes "s = trace_run io n acts" "tguard s = GFinished (Ok ())"
  shows "\<exists>w out. wthread s = WEnd (Ok out) \<and>
      hist_admitted s = length (hist_sent s) + hist_dropped s \<and>
      observe_all io (hist_sent s) (trace_writer_new RAW_LIMIT) = Ok w \<and>
      trace_writer_finish io (of_nat (hist_dropped s)) w = Ok out \<and>
      partitions (hist_sent s) w"
proof -
  have inv: "trace_inv io s" unfolding assms(1) by (rule trace_run_inv)
  then obtain out where f: "wthread s = WEnd (Ok out)"
    using assms(2) by (auto simp: trace_inv_def signal_ok_def)
  have c: "closed_ok (tguard s)" using assms(2) by simp
  with inv have none: "filter holds_admission (producers s) = []" by (simp add: trace_inv_def counts_ok_def)
  have "has_event p \<Longrightarrow> holds_admission p" for p by (cases p) auto
  then have "n_pending s = 0" using none by (auto simp: filter_empty_conv)
  then have "hist_admitted s = length (hist_sent s) + hist_dropped s" "dropped s = of_nat (hist_dropped s)"
    using inv by (simp_all add: trace_inv_def counts_ok_def)
  moreover obtain w where "observe_all io (hist_sent s) (trace_writer_new RAW_LIMIT) = Ok w"
    "trace_writer_finish io (dropped s) w = Ok out"
    using inv f c by (auto simp: trace_inv_def writer_ok_def complete_file_def)
  moreover from this(1) have "partitions (hist_sent s) w"
    using observe_all_ok [OF _ partitions_new] by (fastforce simp: file_wf_def trace_writer_new_def)
  ultimately show ?thesis using f by auto
qed

definition plain_io :: trace_io where
  "plain_io = \<lparr>event_json = (\<lambda>_. Some [123, 125]), summary_json = (\<lambda>_. Some [91, 93]), file_takes = (\<lambda>_ _. True)\<rparr>"

definition one_record :: "trace_action list" where
  "one_record =
     (let p = Producer 0 (new_event 1 7 12 23000) False
      in [p, p, p, p, Writer, Writer, Guard 0, Guard 1, Guard 2, Writer, Writer, Writer, Guard 3])"

lemma first_record:
  "fold (trace_step io) [Producer 0 e False, Producer 0 e False, Producer 0 e False, Producer 0 e False] (trace_start 1) =
     \<lparr>admission = 0, dropped = 0, tq = [e], signals = 0, producers = [PIdle], tguard = GOpen,
      wthread = WLoop (trace_writer_new RAW_LIMIT), hist_admitted = 1, hist_sent = [e], hist_dropped = 0\<rparr>"
proof -
  have "\<not> admission_closed 0" by (simp add: admission_closed_iff)
  then show ?thesis
    by (simp add: trace_start_def producer_step_def producer_load_def producer_admit_def producer_send_def
        producer_release_def receiver_alive_def QUEUE_CAPACITY_def Let_def)
qed

lemma plain_observe:
  "\<exists>w. observe plain_io e (trace_writer_new RAW_LIMIT) = Ok w"
  by (simp add: observe_def write_raw_def plain_io_def count_event_def trace_writer_new_def RAW_LIMIT_def Let_def)

lemma plain_finish: "\<exists>out. trace_writer_finish plain_io d w = Ok out"
  by (simp add: trace_writer_finish_def plain_io_def)

lemma one_record_finishes: "tguard (trace_run plain_io 1 one_record) = GFinished (Ok ())"
proof -
  let ?rest = "[Writer, Writer, Guard 0, Guard 1, Guard 2, Writer, Writer, Writer, Guard 3]"
  define e where "e = new_event 1 7 12 23000"
  obtain w where w: "observe plain_io e (trace_writer_new RAW_LIMIT) = Ok w"
    using plain_observe by blast
  obtain out where out: "trace_writer_finish plain_io 0 w = Ok out" using plain_finish by blast
  have "unat (0 OR CLOSED_BIT) = 2 ^ 63" using close_open [of 0] by simp
  then have idle_word: "\<not> producers_busy (0 OR CLOSED_BIT)" by (simp only: producers_busy_iff) simp
  have acts: "one_record = [Producer 0 e False, Producer 0 e False, Producer 0 e False, Producer 0 e False] @ ?rest"
    by (simp add: one_record_def e_def Let_def)
  have "trace_run plain_io 1 one_record = fold (trace_step plain_io) ?rest
     \<lparr>admission = 0, dropped = 0, tq = [e], signals = 0, producers = [PIdle], tguard = GOpen,
      wthread = WLoop (trace_writer_new RAW_LIMIT), hist_admitted = 1, hist_sent = [e], hist_dropped = 0\<rparr>"
    unfolding trace_run_def acts fold_append comp_apply first_record ..
  also have "\<dots> = fold (trace_step plain_io) (drop 2 ?rest)
     \<lparr>admission = 0, dropped = 0, tq = [], signals = 0, producers = [PIdle], tguard = GOpen,
      wthread = WLoop w, hist_admitted = 1, hist_sent = [e], hist_dropped = 0\<rparr>"
    using w by (simp add: writer_step_def take_event_def)
  also have "\<dots> = fold (trace_step plain_io) (drop 5 ?rest)
     \<lparr>admission = 0 OR CLOSED_BIT, dropped = 0, tq = [], signals = 1, producers = [PIdle],
      tguard = GWait FINISH_TIMEOUT (Ok ()) (Ok ()),
      wthread = WLoop w, hist_admitted = 1, hist_sent = [e], hist_dropped = 0\<rparr>"
    using idle_word by (simp add: guard_step_def receiver_alive_def)
  also have "\<dots> = fold (trace_step plain_io) [Guard 3]
     \<lparr>admission = 0 OR CLOSED_BIT, dropped = 0, tq = [], signals = 0, producers = [PIdle],
      tguard = GWait FINISH_TIMEOUT (Ok ()) (Ok ()),
      wthread = WEnd (Ok out), hist_admitted = 1, hist_sent = [e], hist_dropped = 0\<rparr>"
    using out by (simp add: writer_step_def take_event_def)
  finally show ?thesis by (simp add: guard_step_def guard_result_def)
qed

theorem footer_accounts_for_every_record_witness:
  "\<exists>w out. wthread (trace_run plain_io 1 one_record) = WEnd (Ok out) \<and>
      hist_admitted (trace_run plain_io 1 one_record) =
        length (hist_sent (trace_run plain_io 1 one_record)) + hist_dropped (trace_run plain_io 1 one_record) \<and>
      observe_all plain_io (hist_sent (trace_run plain_io 1 one_record)) (trace_writer_new RAW_LIMIT) = Ok w \<and>
      trace_writer_finish plain_io (of_nat (hist_dropped (trace_run plain_io 1 one_record))) w = Ok out \<and>
      partitions (hist_sent (trace_run plain_io 1 one_record)) w"
  by (rule footer_accounts_for_every_record [OF refl one_record_finishes])

text \<open>The trace file is bounded, whatever is recorded: the raw part by its limit, the footer by a mebibyte.\<close>

lemma trace_file_is_bounded:
  assumes "observe_all io es (trace_writer_new limit) = Ok w" "trace_writer_finish io d w = Ok out"
  shows "length out \<le> min limit RAW_LIMIT + 1024 * 1024"
proof -
  have keep: "observe_all io es v = Ok w \<Longrightarrow> raw_limit w = raw_limit v" for v
    by (induction es arbitrary: v)
      (auto simp: observe_def write_raw_def count_event_def Let_def split: sum.splits option.splits if_splits)
  have "file_wf w" using observe_all_ok [OF assms(1) partitions_new] by (simp add: file_wf_def trace_writer_new_def)
  moreover have "raw_limit w = min limit RAW_LIMIT" using keep [OF assms(1)] by (simp add: trace_writer_new_def)
  moreover have "length out \<le> length (tw_file w) + 1024 * 1024"
    using assms(2) by (auto simp: trace_writer_finish_def Let_def split: option.splits if_splits)
  ultimately show ?thesis unfolding file_wf_def by linarith
qed

end
