(* ===== verification/Http_Api.thy ===== *)
theory Http_Api
  imports Preview Control_Channel Media_Manager
begin

text \<open>
  The HTTP interface of \<open>rc-agent/src/http.rs\<close> and the local administration of \<open>rc-agent/src/local.rs\<close>: the
  state of the agent as a whole, the check of the bearer token, one definition per handler, and the
  commands of the local pipe.

  \<^item> The one store of the agent is part of the state of \<open>Auth\<close> and of the session table; \<open>with_auth\<close> and
    \<open>with_sessions\<close> keep the two views equal.
  \<^item> The matching of a path to its handler is axum's; a call here is the handler with its decoded body.
  \<^item> What a handler reads from outside (clocks, secrets, identifiers, the database, the process spawner,
    whether a blocking task could be joined) is the record \<open>api_env\<close>.
\<close>

section \<open>The state of the agent\<close>

record ('h, 'm) app =
  app_config :: config
  app_auth :: "'h auth"
  app_sessions :: "'m manager"
  app_previews :: "'h previews"
  app_media :: media_manager
  app_shutdown :: bool

definition with_auth :: "('h auth \<Rightarrow> 'h auth \<times> 'r) \<Rightarrow> ('h, 'm) app \<Rightarrow> ('h, 'm) app \<times> 'r" where
  "with_auth f x =
     (case f (app_auth x) of (a, r) \<Rightarrow>
        (x\<lparr>app_auth := a, app_sessions := (app_sessions x)\<lparr>mgr_store := a_store a\<rparr>\<rparr>, r))"

definition with_sessions :: "('m manager \<Rightarrow> 'm manager \<times> 'r) \<Rightarrow> ('h, 'm) app \<Rightarrow> ('h, 'm) app \<times> 'r" where
  "with_sessions f x =
     (case f (app_sessions x) of (m, r) \<Rightarrow>
        (x\<lparr>app_sessions := m, app_auth := (app_auth x)\<lparr>a_store := mgr_store m\<rparr>\<rparr>, r))"

record 'm api_env =
  ae_now :: instant
  ae_wall :: nat
  ae_secret :: str
  ae_nonce :: str
  ae_fresh :: uuid
  ae_db_ok :: bool
  ae_joined :: bool
  ae_probe :: probe
  ae_spawn :: "'m spawn_env"
  ae_em :: "'m emulator"
  ae_register :: register_env
  ae_received :: instant
  ae_written :: "u64 result option"

section \<open>Failures\<close>

fun failure_status :: "error_code \<Rightarrow> nat" where
  "failure_status Unauthenticated = 401"
| "failure_status DeviceRevoked = 401"
| "failure_status Forbidden = 403"
| "failure_status OriginRejected = 403"
| "failure_status SessionLost = 404"
| "failure_status LeaseBusy = 409"
| "failure_status LeaseRequired = 409"
| "failure_status LeaseStale = 409"
| "failure_status DuplicateInput = 409"
| "failure_status RateLimited = 429"
| "failure_status Internal = 500"
| "failure_status CaptureUnsupported = 501"
| "failure_status MediaUnavailable = 501"
| "failure_status _ = 400"

section \<open>The bearer token\<close>

text \<open>The argument is the text of the \<open>authorization\<close> header, \<open>None\<close> when it is absent or not text.\<close>

definition bearer_principal :: "'h crypto \<Rightarrow> instant \<Rightarrow> str option \<Rightarrow> scope \<Rightarrow> ('h, 'm) app \<Rightarrow> principal result" where
  "bearer_principal cr now bearer sc x =
     (case (case bearer of None \<Rightarrow> None | Some v \<Rightarrow> strip_prefix (lit ''Bearer '') v) of
        None \<Rightarrow> Err Unauthenticated
      | Some tok \<Rightarrow>
        (case authorize cr now tok (app_auth x) of Err e \<Rightarrow> Err e | Ok p \<Rightarrow>
          (case require (cancelled (app_auth x)) now p sc of Err e \<Rightarrow> Err e | Ok _ \<Rightarrow> Ok p)))"

definition authorized ::
    "'h crypto \<Rightarrow> instant \<Rightarrow> str option \<Rightarrow> scope \<Rightarrow> (principal \<Rightarrow> ('h, 'm) app \<Rightarrow> ('h, 'm) app \<times> 'r result)
      \<Rightarrow> ('h, 'm) app \<Rightarrow> ('h, 'm) app \<times> 'r result" where
  "authorized cr now bearer sc f x =
     (case bearer_principal cr now bearer sc x of Err e \<Rightarrow> (x, Err e) | Ok p \<Rightarrow> f p x)"

text \<open>The result of a blocking task, when it could be joined.\<close>

definition joined :: "'m api_env \<Rightarrow> ('h, 'm) app \<times> 'r result \<Rightarrow> ('h, 'm) app \<times> 'r result" where
  "joined env xr = (case xr of (x, r) \<Rightarrow> (x, if ae_joined env then r else Err Internal))"

definition replying :: "('r \<Rightarrow> 's) \<Rightarrow> ('h, 'm) app \<times> 'r result \<Rightarrow> ('h, 'm) app \<times> 's result" where
  "replying f xr = (case xr of (x, Err e) \<Rightarrow> (x, Err e) | (x, Ok v) \<Rightarrow> (x, Ok (f v)))"

section \<open>Calls and replies\<close>

record paste_request =
  ps_agent_epoch :: uuid
  ps_generation :: u32
  ps_connection :: uuid
  ps_lease_epoch :: u64
  ps_input_id :: uuid
  ps_input_seq :: u64
  ps_text :: str
  ps_append_enter :: bool

datatype api_call =
    Api_pair str str str
  | Api_challenge uuid
  | Api_verify str str
  | Api_host
  | Api_profiles
  | Api_sessions
  | Api_projection uuid
  | Api_create create_session
  | Api_rename uuid str
  | Api_close uuid
  | Api_history
  | Api_ws_ticket str "uuid option"
  | Api_devices
  | Api_revoke_device uuid
  | Api_pair_ticket "scope list"
  | Api_block_remote
  | Api_paste uuid paste_request
  | Api_previews
  | Api_register register
  | Api_remove uuid
  | Api_launch uuid
  | Api_capabilities
  | Api_sources

text \<open>\<open>Re_view\<close> is a view of the state that another library renders as JSON.\<close>

datatype api_reply =
    Re_paired uuid "scope list" str
  | Re_challenge str str str
  | Re_access str
  | Re_host uuid uuid "scope list" "str option" bool bool
  | Re_view
  | Re_sessions "session_info list"
  | Re_session session_info
  | Re_no_content
  | Re_ticket str nat
  | Re_written uuid u64
  | Re_previews "preview_info list"
  | Re_preview preview_info
  | Re_launch str
  | Re_sources "source_view list"

section \<open>Handlers\<close>

definition http_pair :: "'h crypto \<Rightarrow> 'm api_env \<Rightarrow> str \<Rightarrow> str \<Rightarrow> str \<Rightarrow> ('h, 'm) app \<Rightarrow> ('h, 'm) app \<times> api_reply result" where
  "http_pair cr env tk key label x =
     replying (\<lambda>d. Re_paired (d_client_id d) (d_scopes d) (audience (app_auth x)))
       (joined env (with_auth (pair cr (ae_now env) (ae_fresh env) (ae_db_ok env) tk key label) x))"

definition http_challenge :: "'h crypto \<Rightarrow> 'm api_env \<Rightarrow> uuid \<Rightarrow> ('h, 'm) app \<Rightarrow> ('h, 'm) app \<times> api_reply result" where
  "http_challenge cr env c x =
     replying (\<lambda>(i, m). Re_challenge i m (audience (app_auth x)))
       (with_auth (challenge cr (ae_now env) (ae_wall env) (ae_secret env) (ae_nonce env) c) x)"

definition http_verify :: "'h crypto \<Rightarrow> 'm api_env \<Rightarrow> str \<Rightarrow> str \<Rightarrow> ('h, 'm) app \<Rightarrow> ('h, 'm) app \<times> api_reply result" where
  "http_verify cr env i sig x =
     replying Re_access (joined env (with_auth (verify_challenge cr (ae_now env) (ae_secret env) i sig) x))"

definition http_host :: "principal \<Rightarrow> ('h, 'm) app \<Rightarrow> ('h, 'm) app \<times> api_reply result" where
  "http_host p x =
     (x, Ok (Re_host (mgr_epoch (app_sessions x)) (p_client p) (p_scopes p) (public_origin (app_config x))
        (mc_enabled (media (app_config x))) (mc_allow_control (media (app_config x)))))"

definition http_projection :: "'m api_env \<Rightarrow> uuid \<Rightarrow> ('h, 'm) app \<Rightarrow> ('h, 'm) app \<times> api_reply result" where
  "http_projection env i x =
     (case get_session (app_sessions x) i of Err e \<Rightarrow> (x, Err e) | Ok _ \<Rightarrow> joined env (x, Ok Re_view))"

definition http_create :: "'m api_env \<Rightarrow> create_session \<Rightarrow> ('h, 'm) app \<Rightarrow> ('h, 'm) app \<times> api_reply result" where
  "http_create env rq x = replying Re_session (joined env (with_sessions (create (ae_probe env) (ae_spawn env) rq) x))"

definition http_rename :: "'m api_env \<Rightarrow> uuid \<Rightarrow> str \<Rightarrow> principal \<Rightarrow> ('h, 'm) app \<Rightarrow> ('h, 'm) app \<times> api_reply result" where
  "http_rename env i label p x =
     replying Re_session (joined env
       (with_sessions (rename (ae_probe env) (ae_db_ok env) (cancelled (app_auth x)) (ae_now env) p i label) x))"

definition http_close :: "'m api_env \<Rightarrow> uuid \<Rightarrow> ('h, 'm) app \<Rightarrow> ('h, 'm) app \<times> api_reply result" where
  "http_close env i x =
     (case get_session (app_sessions x) i of Err e \<Rightarrow> (x, Err e) | Ok _ \<Rightarrow>
      joined env (with_sessions (with_session i (\<lambda>s. (close s, Ok Re_no_content))) x))"

definition http_ws_ticket ::
    "'h crypto \<Rightarrow> 'm api_env \<Rightarrow> str \<Rightarrow> uuid option \<Rightarrow> principal \<Rightarrow> ('h, 'm) app \<Rightarrow> ('h, 'm) app \<times> api_reply result" where
  "http_ws_ticket cr env channel sid p x =
     (case (if channel = lit ''media''
            then (case sid of None \<Rightarrow> Err InvalidRequest
              | Some i \<Rightarrow> (case get_source (cancelled (app_auth x)) (ae_now env) i p (app_media x) of
                  Err e \<Rightarrow> Err e | Ok _ \<Rightarrow> Ok ()))
            else (case sid of None \<Rightarrow> Ok ()
              | Some i \<Rightarrow> (case get_session (app_sessions x) i of Err e \<Rightarrow> Err e | Ok _ \<Rightarrow> Ok ()))) of
        Err e \<Rightarrow> (x, Err e)
      | Ok _ \<Rightarrow> replying (\<lambda>t. Re_ticket t 30) (with_auth (issue_ws cr (ae_now env) (ae_secret env) p channel sid) x))"

definition http_revoke_device :: "'m api_env \<Rightarrow> uuid \<Rightarrow> ('h, 'm) app \<Rightarrow> ('h, 'm) app \<times> api_reply result" where
  "http_revoke_device env i x =
     joined env (case with_auth (revoke (ae_db_ok env) i) x of
        (x1, Err e) \<Rightarrow> (x1, Err e)
      | (x1, Ok _) \<Rightarrow>
          (x1\<lparr>app_sessions := revoke_client_all i (app_sessions x1),
              app_previews := pv_revoke_client i (app_previews x1),
              app_media := media_revoke_client i (app_media x1)\<rparr>, Ok Re_no_content))"

definition http_pair_ticket ::
    "'h crypto \<Rightarrow> 'm api_env \<Rightarrow> scope list \<Rightarrow> principal \<Rightarrow> ('h, 'm) app \<Rightarrow> ('h, 'm) app \<times> api_reply result" where
  "http_pair_ticket cr env scopes p x =
     (if list_ex (\<lambda>v. v \<notin> set (p_scopes p)) scopes then (x, Err Forbidden)
      else replying (\<lambda>t. Re_ticket t 300) (with_auth (issue_pair_ticket cr (ae_now env) (ae_secret env) scopes) x))"

text \<open>The remote block, the same for the handler and for the local command.\<close>

definition block_everything :: "bool \<Rightarrow> ('h, 'm) app \<Rightarrow> ('h, 'm) app" where
  "block_everything db_ok x =
     (let x1 = fst (with_auth (\<lambda>a. (block_all db_ok a, ())) x) in
      x1\<lparr>app_sessions := block_input (app_sessions x1),
         app_previews := pv_block_all (app_previews x1),
         app_media := cancel_all (app_media x1)\<rparr>)"

definition http_block_remote :: "'m api_env \<Rightarrow> ('h, 'm) app \<Rightarrow> ('h, 'm) app \<times> api_reply result" where
  "http_block_remote env x = (block_everything (ae_db_ok env) x, Ok Re_no_content)"

text \<open>The paste waits for its delivery for at most 30 seconds: \<open>ae_written\<close> is the answer of the writer, \<open>None\<close>
  when none came in time.\<close>

definition http_paste ::
    "'m api_env \<Rightarrow> uuid \<Rightarrow> paste_request \<Rightarrow> principal \<Rightarrow> ('h, 'm) app \<Rightarrow> ('h, 'm) app \<times> api_reply result" where
  "http_paste env i b p x =
     (case with_sessions (with_session i (\<lambda>s.
             checked_generation (ps_agent_epoch b) (ps_generation b)
               (enqueue_paste (ae_em env) p (ps_connection b) (ps_lease_epoch b) (ps_input_id b) (ps_input_seq b)
                  (ps_text b) (ps_append_enter b) (ae_received env))
               (s\<lparr>clock := ae_now env, wall_ms := ae_wall env, revoked_tokens := cancelled (app_auth x)\<rparr>))) x of
        (x1, Err e) \<Rightarrow> (x1, Err e)
      | (x1, Ok _) \<Rightarrow>
          (x1, case ae_written env of None \<Rightarrow> Err InputDeliveryUnknown
                 | Some (Err e) \<Rightarrow> Err e
                 | Some (Ok us) \<Rightarrow> Ok (Re_written (ps_input_id b) us)))"

definition http_register :: "'m api_env \<Rightarrow> register \<Rightarrow> principal \<Rightarrow> ('h, 'm) app \<Rightarrow> ('h, 'm) app \<times> api_reply result" where
  "http_register env b p x =
     (case register_preview (app_config x) (ae_register env) p b (a_store (app_auth x), app_previews x) of
        ((st, v), r) \<Rightarrow>
          replying Re_preview
            (x\<lparr>app_previews := v, app_auth := (app_auth x)\<lparr>a_store := st\<rparr>,
               app_sessions := (app_sessions x)\<lparr>mgr_store := st\<rparr>\<rparr>, r))"

definition http_launch :: "'h crypto \<Rightarrow> 'm api_env \<Rightarrow> uuid \<Rightarrow> principal \<Rightarrow> ('h, 'm) app \<Rightarrow> ('h, 'm) app \<times> api_reply result" where
  "http_launch cr env i p x =
     (case launch_preview cr (ae_now env) (ae_secret env) p i (app_previews x) of
        (v, r) \<Rightarrow> replying Re_launch (x\<lparr>app_previews := v\<rparr>, r))"

fun http_api :: "'h crypto \<Rightarrow> 'm api_env \<Rightarrow> str option \<Rightarrow> api_call \<Rightarrow> ('h, 'm) app \<Rightarrow> ('h, 'm) app \<times> api_reply result" where
  "http_api cr env h (Api_pair t k l) x = http_pair cr env t k l x"
| "http_api cr env h (Api_challenge c) x = http_challenge cr env c x"
| "http_api cr env h (Api_verify i sig) x = http_verify cr env i sig x"
| "http_api cr env h Api_host x = authorized cr (ae_now env) h TerminalRead http_host x"
| "http_api cr env h Api_profiles x = authorized cr (ae_now env) h TerminalRead (\<lambda>_ x. (x, Ok Re_view)) x"
| "http_api cr env h Api_sessions x =
     authorized cr (ae_now env) h TerminalRead (\<lambda>_ x. (x, Ok (Re_sessions (list_sessions (ae_probe env) (app_sessions x))))) x"
| "http_api cr env h (Api_projection i) x = authorized cr (ae_now env) h TerminalRead (\<lambda>_. http_projection env i) x"
| "http_api cr env h (Api_create rq) x = authorized cr (ae_now env) h TerminalCreate (\<lambda>_. http_create env rq) x"
| "http_api cr env h (Api_rename i l) x = authorized cr (ae_now env) h TerminalCreate (http_rename env i l) x"
| "http_api cr env h (Api_close i) x = authorized cr (ae_now env) h TerminalClose (\<lambda>_. http_close env i) x"
| "http_api cr env h Api_history x = authorized cr (ae_now env) h TerminalRead (\<lambda>_ x. joined env (x, Ok Re_view)) x"
| "http_api cr env h (Api_ws_ticket ch sid) x = authorized cr (ae_now env) h TerminalRead (http_ws_ticket cr env ch sid) x"
| "http_api cr env h Api_devices x = authorized cr (ae_now env) h AdminDevices (\<lambda>_ x. (x, Ok Re_view)) x"
| "http_api cr env h (Api_revoke_device i) x = authorized cr (ae_now env) h AdminDevices (\<lambda>_. http_revoke_device env i) x"
| "http_api cr env h (Api_pair_ticket sc) x = authorized cr (ae_now env) h AdminDevices (http_pair_ticket cr env sc) x"
| "http_api cr env h Api_block_remote x = authorized cr (ae_now env) h AdminSettings (\<lambda>_. http_block_remote env) x"
| "http_api cr env h (Api_paste i b) x = authorized cr (ae_now env) h TerminalWrite (http_paste env i b) x"
| "http_api cr env h Api_previews x =
     authorized cr (ae_now env) h PreviewRead (\<lambda>_ x. (x, Ok (Re_previews (list_previews (app_previews x))))) x"
| "http_api cr env h (Api_register b) x = authorized cr (ae_now env) h AdminSettings (http_register env b) x"
| "http_api cr env h (Api_remove i) x =
     authorized cr (ae_now env) h AdminSettings (\<lambda>_ x. (x\<lparr>app_previews := remove_preview i (app_previews x)\<rparr>, Ok Re_no_content)) x"
| "http_api cr env h (Api_launch i) x = authorized cr (ae_now env) h PreviewRead (http_launch cr env i) x"
| "http_api cr env h Api_capabilities x = authorized cr (ae_now env) h TerminalRead (\<lambda>_ x. (x, Ok Re_view)) x"
| "http_api cr env h Api_sources x =
     authorized cr (ae_now env) h TerminalRead (\<lambda>p x.
       (x, Ok (Re_sources (public_sources (cancelled (app_auth x)) (ae_now env) p (app_media x))))) x"

section \<open>Local administration\<close>

datatype local_command =
    PairOwner
  | PairReader
  | PairGui
  | MediaSources
  | MediaApprove str str bool
  | MediaClear
  | BlockRemote
  | ResumeRemote
  | Status
  | Shutdown

datatype local_reply =
    L_ticket str
  | L_sources "local_source list"
  | L_approved source_view
  | L_cleared
  | L_blocked bool
  | L_status uuid bool "session_info list"
  | L_shutdown

record 'm local_env =
  le_now :: instant
  le_secret :: str
  le_fresh :: uuid
  le_db_ok :: bool
  le_sources :: "local_source list option"
  le_probe :: probe

definition local_ticket ::
    "'h crypto \<Rightarrow> 'm local_env \<Rightarrow> scope list \<Rightarrow> ('h, 'm) app \<Rightarrow> ('h, 'm) app \<times> local_reply checked" where
  "local_ticket cr env scopes x =
     (case with_auth (issue_pair_ticket cr (le_now env) (le_secret env) scopes) x of
        (x1, Err _) \<Rightarrow> (x1, Err ''ticket refused'')
      | (x1, Ok t) \<Rightarrow> (x1, Ok (L_ticket t)))"

definition gui_scopes :: "config \<Rightarrow> scope list" where
  "gui_scopes c = owner_scopes @ [WindowView, DesktopView]
     @ (if mc_allow_control (media c) then [WindowControl, DesktopControl] else [])"

fun local_admin :: "'h crypto \<Rightarrow> 'm local_env \<Rightarrow> local_command \<Rightarrow> ('h, 'm) app \<Rightarrow> ('h, 'm) app \<times> local_reply checked" where
  "local_admin cr env PairOwner x = local_ticket cr env owner_scopes x"
| "local_admin cr env PairReader x = local_ticket cr env [TerminalRead] x"
| "local_admin cr env PairGui x =
     (if \<not> mc_enabled (media (app_config x)) then (x, Err ''Media not configured'')
      else local_ticket cr env (gui_scopes (app_config x)) x)"
| "local_admin cr env MediaSources x =
     (x, case le_sources env of None \<Rightarrow> Err ''Source enumeration failed'' | Some ss \<Rightarrow> Ok (L_sources ss))"
| "local_admin cr env (MediaApprove knd hnd control) x =
     (case approve (le_sources env) (le_now env) (le_fresh env) knd hnd control (app_media x) of
        (m, Err e) \<Rightarrow> (x\<lparr>app_media := m\<rparr>, Err e)
      | (m, Ok v) \<Rightarrow> (x\<lparr>app_media := m\<rparr>, Ok (L_approved v)))"
| "local_admin cr env MediaClear x = (x\<lparr>app_media := clear_sources (app_media x)\<rparr>, Ok L_cleared)"
| "local_admin cr env BlockRemote x = (block_everything (le_db_ok env) x, Ok (L_blocked True))"
| "local_admin cr env ResumeRemote x =
     (case with_auth (\<lambda>a. (resume_local (le_db_ok env) a, ())) x of
        (x1, _) \<Rightarrow> (x1, Ok (L_blocked (blocked (app_auth x1)))))"
| "local_admin cr env Status x =
     (x, Ok (L_status (mgr_epoch (app_sessions x)) (blocked (app_auth x)) (list_sessions (le_probe env) (app_sessions x))))"
| "local_admin cr env Shutdown x = (x\<lparr>app_shutdown := True\<rparr>, Ok L_shutdown)"

text \<open>One request of the pipe: a length, at most 2048 bytes, and a command in JSON. \<open>peer_ok\<close> is the verification
  of the peer, \<open>parse\<close> the JSON decoder.\<close>

definition local_request ::
    "'h crypto \<Rightarrow> 'm local_env \<Rightarrow> bool \<Rightarrow> (bytes \<Rightarrow> local_command option) \<Rightarrow> u32 \<Rightarrow> bytes \<Rightarrow> ('h, 'm) app
      \<Rightarrow> ('h, 'm) app \<times> local_reply checked" where
  "local_request cr env peer_ok parse len data x =
     (if \<not> peer_ok then (x, Err ''Rejected local IPC peer'')
      else if len > 2048 then (x, Err ''Local request too large'')
      else if length data < unat len then (x, Err ''unexpected end of file'')
      else (case parse (take (unat len) data) of
        None \<Rightarrow> (x, Err ''invalid command'')
      | Some cmd \<Rightarrow> local_admin cr env cmd x))"

datatype probe_status = Active | Missing | Unsafe

definition classify_open_error :: "int option \<Rightarrow> probe_status" where
  "classify_open_error raw = (if raw = Some 2 then Missing else Unsafe)"

text \<open>The probe: the name of the pipe, the open, the peer, and the exchange of a status request in time.\<close>

definition probe_status_of :: "bool \<Rightarrow> int option + unit \<Rightarrow> bool \<Rightarrow> u32 option \<Rightarrow> (unit \<Rightarrow> bool) \<Rightarrow> probe_status" where
  "probe_status_of named opened peer_ok len answered =
     (if \<not> named then Unsafe
      else (case opened of Inl raw \<Rightarrow> classify_open_error raw | Inr _ \<Rightarrow>
        if \<not> peer_ok then Unsafe
        else (case len of None \<Rightarrow> Unsafe
          | Some n \<Rightarrow> if unat n > 128 * 1024 then Unsafe else if answered () then Active else Unsafe)))"

end
