(* ===== verification/Agent_Runs.thy ===== *)
theory Agent_Runs
  imports Http_Api
begin

text \<open>
  Runs of the whole agent: remote calls, local commands, the redemption of WebSocket tickets and the work of the
  open channels, in any order. What holds of the device table along such runs is proved once, for any
  predicate that the operations of \<open>Auth\<close> keep (locale \<open>auth_invariant\<close>), and used for two of them: a
  revoked device stays revoked, and remote calls never widen the scopes.
\<close>

section \<open>Runs\<close>

text \<open>\<open>L\<close> has the local commands of the run. The channels change sessions, previews and media and write the
  store; of the rest of the authentication state they only read.\<close>

inductive agent_step :: "'h crypto \<Rightarrow> local_command set \<Rightarrow> ('h, 'm) app \<Rightarrow> ('h, 'm) app \<Rightarrow> bool" for cr L where
  as_remote: "\<not> hm_contains (a_devices (app_auth x)) (ae_fresh env) \<Longrightarrow> agent_step cr L x (fst (http_api cr env h call x))"
| as_local: "cmd \<in> L \<Longrightarrow> agent_step cr L x (fst (local_admin cr env cmd x))"
| as_upgrade: "agent_step cr L x (fst (with_auth (consume_ws cr now tok ch) x))"
| as_channels: "app_auth y = (app_auth x)\<lparr>a_store := st\<rparr> \<Longrightarrow> app_config y = app_config x \<Longrightarrow> agent_step cr L x y"

section \<open>Predicates that the authentication operations keep\<close>

locale auth_invariant =
  fixes cr :: "'h crypto" and P :: "'h auth \<Rightarrow> bool" and local_ok :: "scope list \<Rightarrow> bool"
  assumes store: "P (a\<lparr>a_store := st\<rparr>) = P a"
    and pair_keeps: "P a \<Longrightarrow> \<not> hm_contains (a_devices a) fresh \<Longrightarrow> P (fst (pair cr now fresh ok tk k l a))"
    and challenge_keeps: "P a \<Longrightarrow> P (fst (challenge cr now wall iid nonce c a))"
    and verify_keeps: "P a \<Longrightarrow> P (fst (verify_challenge cr now sec iid sig a))"
    and issue_ws_keeps: "P a \<Longrightarrow> P (fst (issue_ws cr now sec p ch se a))"
    and consume_ws_keeps: "P a \<Longrightarrow> P (fst (consume_ws cr now tok ch a))"
    and revoke_keeps: "P a \<Longrightarrow> P (fst (revoke ok c a))"
    and block_keeps: "P a \<Longrightarrow> P (block_all ok a)"
    and resume_keeps: "P a \<Longrightarrow> P (resume_local ok a)"
    and remote_ticket: "P a \<Longrightarrow> authorize cr now tok a = Ok p \<Longrightarrow> set sc \<subseteq> set (p_scopes p) \<Longrightarrow>
        P (fst (issue_pair_ticket cr now' sec sc a))"
    and local_ticket_keeps: "P a \<Longrightarrow> local_ok sc \<Longrightarrow> P (fst (issue_pair_ticket cr now' sec sc a))"
begin

lemma with_auth_keeps: "P (fst (f (app_auth x))) \<Longrightarrow> P (app_auth (fst (with_auth f x)))"
  by (simp add: with_auth_def split_beta)

lemma with_sessions_keeps: "P (app_auth x) \<Longrightarrow> P (app_auth (fst (with_sessions f x)))"
  by (simp add: with_sessions_def split_beta store)

lemma wrapped_keeps:
  "P (app_auth (fst xr)) \<Longrightarrow> P (app_auth (fst (joined env xr)))"
  "P (app_auth (fst xr)) \<Longrightarrow> P (app_auth (fst (replying f xr)))"
  by (auto simp: joined_def replying_def split: prod.split sum.split)

lemma authorized_keeps:
  assumes "P (app_auth x)" "\<And>p. bearer_principal cr now h sc x = Ok p \<Longrightarrow> P (app_auth (fst (f p x)))"
  shows "P (app_auth (fst (authorized cr now h sc f x)))"
  using assms by (auto simp: authorized_def split: sum.split)

lemma block_everything_keeps: "P (app_auth x) \<Longrightarrow> P (app_auth (block_everything ok x))"
  by (simp add: block_everything_def Let_def with_auth_def block_keeps)

lemma revoke_device_keeps:
  assumes "P (app_auth x)"
  shows "P (app_auth (fst (http_revoke_device env i x)))"
proof -
  have "P (app_auth (fst (with_auth (revoke (ae_db_ok env) i) x)))"
    using assms by (intro with_auth_keeps revoke_keeps)
  then show ?thesis
    by (auto simp: http_revoke_device_def joined_def split: prod.split sum.split)
qed

lemma paste_keeps: "P (app_auth x) \<Longrightarrow> P (app_auth (fst (http_paste env i b p x)))"
proof -
  assume P: "P (app_auth x)"
  show ?thesis unfolding http_paste_def
    by (split prod.split, intro allI impI, split sum.split, intro conjI allI impI)
      (metis P fst_conv with_sessions_keeps)+
qed

lemma ticket_keeps:
  assumes "P (app_auth x)" "bearer_principal cr now h sc x = Ok p"
  shows "P (app_auth (fst (http_pair_ticket cr env scopes p x)))"
proof -
  obtain tok where "authorize cr now tok (app_auth x) = Ok p"
    using assms(2) by (auto simp: bearer_principal_def split: option.splits sum.splits)
  then show ?thesis using assms(1)
    by (auto simp: http_pair_ticket_def list_ex_iff subset_iff intro!: wrapped_keeps with_auth_keeps intro: remote_ticket)
qed

lemma http_api_keeps:
  assumes "P (app_auth x)" "\<not> hm_contains (a_devices (app_auth x)) (ae_fresh env)"
  shows "P (app_auth (fst (http_api cr env h call x)))"
proof (cases call)
  case (Api_revoke_device i)
  then show ?thesis using assms by (auto intro!: authorized_keeps revoke_device_keeps)
next
  case (Api_pair_ticket sc)
  then show ?thesis using assms by (auto intro!: authorized_keeps ticket_keeps)
next
  case (Api_paste i b)
  then show ?thesis using assms by (auto intro!: authorized_keeps paste_keeps)
next
  case (Api_ws_ticket ch sid)
  have "P (app_auth (fst (http_ws_ticket cr env ch sid p x)))" for p
    using assms(1) unfolding http_ws_ticket_def
    by (split sum.split) (auto intro!: wrapped_keeps with_auth_keeps issue_ws_keeps)
  then show ?thesis using Api_ws_ticket assms(1) by (auto intro!: authorized_keeps)
next
  case (Api_register b)
  have "P (app_auth (fst (http_register env b p x)))" for p
    using assms(1) unfolding http_register_def
    by (split prod.split, intro allI impI, split prod.split, intro allI impI) (auto intro!: wrapped_keeps simp: store)
  then show ?thesis using Api_register assms(1) by (auto intro!: authorized_keeps)
next
  case (Api_launch i)
  have "P (app_auth (fst (http_launch cr env i p x)))" for p
    using assms(1) unfolding http_launch_def by (auto intro!: wrapped_keeps split: prod.split)
  then show ?thesis using Api_launch assms(1) by (auto intro!: authorized_keeps)
next
  case (Api_close i)
  have "P (app_auth (fst (http_close env i x)))"
    using assms(1) unfolding http_close_def by (auto intro!: wrapped_keeps with_sessions_keeps split: sum.split)
  then show ?thesis using Api_close assms(1) by (auto intro!: authorized_keeps)
next
  case (Api_projection i)
  have "P (app_auth (fst (http_projection env i x)))"
    using assms(1) unfolding http_projection_def by (auto intro!: wrapped_keeps split: sum.split)
  then show ?thesis using Api_projection assms(1) by (auto intro!: authorized_keeps)
qed (use assms in \<open>auto simp: http_pair_def http_challenge_def http_verify_def http_host_def http_create_def http_rename_def
      http_block_remote_def intro!: authorized_keeps wrapped_keeps with_auth_keeps with_sessions_keeps pair_keeps
      challenge_keeps verify_keeps block_everything_keeps\<close>)

text \<open>The scopes of the tickets that a local command issues.\<close>

definition locals_ok :: "config \<Rightarrow> local_command set \<Rightarrow> bool" where
  "locals_ok c L \<longleftrightarrow>
     (PairOwner \<in> L \<longrightarrow> local_ok owner_scopes) \<and> (PairReader \<in> L \<longrightarrow> local_ok [TerminalRead]) \<and>
     (PairGui \<in> L \<longrightarrow> local_ok (gui_scopes c))"

lemma local_ticket_cmd: "P (app_auth x) \<Longrightarrow> local_ok sc \<Longrightarrow> P (app_auth (fst (local_ticket cr env sc x)))"
  using with_auth_keeps [of "issue_pair_ticket cr (le_now env) (le_secret env) sc" x] local_ticket_keeps
  by (auto simp: local_ticket_def split: prod.split sum.split)

lemma local_admin_keeps:
  assumes "P (app_auth x)" "locals_ok (app_config x) L" "cmd \<in> L"
  shows "P (app_auth (fst (local_admin cr env cmd x)))"
proof (cases cmd)
  case (MediaApprove k hnd control)
  then show ?thesis using assms(1) by (auto split: prod.split sum.split)
next
  case ResumeRemote
  then show ?thesis using assms(1) by (simp add: with_auth_def resume_keeps)
qed (use assms in \<open>auto simp: locals_ok_def intro: local_ticket_cmd block_everything_keeps split: option.split\<close>)

lemma agent_step_keeps:
  "agent_step cr L x y \<Longrightarrow> P (app_auth x) \<Longrightarrow> locals_ok (app_config x) L \<Longrightarrow> P (app_auth y)"
proof (induction rule: agent_step.induct)
  case (as_upgrade x now tok ch)
  then show ?case by (intro with_auth_keeps consume_ws_keeps)
qed (simp_all add: http_api_keeps local_admin_keeps store)

end

section \<open>The configuration never changes\<close>

lemma config_with [simp]:
  "app_config (fst (with_auth f x)) = app_config x"
  "app_config (fst (with_sessions g x)) = app_config x"
  "app_config (fst (joined env xr)) = app_config (fst xr)"
  "app_config (fst (replying k xr)) = app_config (fst xr)"
  "app_config (block_everything ok x) = app_config x"
  by (auto simp: with_auth_def with_sessions_def joined_def replying_def block_everything_def Let_def split: prod.split sum.split)

lemma config_authorized:
  "(\<And>p. app_config (fst (f p x)) = app_config x) \<Longrightarrow> app_config (fst (authorized cr now h sc f x)) = app_config x"
  by (simp add: authorized_def split: sum.split)

lemma config_revoke_device: "app_config (fst (http_revoke_device env i x)) = app_config x"
proof -
  have "app_config (fst (with_auth (revoke (ae_db_ok env) i) x)) = app_config x" by simp
  then show ?thesis unfolding http_revoke_device_def by (auto simp del: config_with(1) split: prod.split sum.split)
qed

lemma config_paste: "app_config (fst (http_paste env i b p x)) = app_config x"
  unfolding http_paste_def
  by (split prod.split, intro allI impI, split sum.split, intro conjI allI impI) (metis fst_conv config_with(2))+

lemma config_http_api: "app_config (fst (http_api cr env h call x)) = app_config x"
  by (cases call)
    (auto simp: http_pair_def http_challenge_def http_verify_def http_host_def http_create_def http_rename_def
      http_block_remote_def http_pair_ticket_def http_ws_ticket_def http_register_def http_launch_def http_close_def
      http_projection_def config_revoke_device config_paste intro!: config_authorized split: sum.split prod.split)

lemma config_local_ticket: "app_config (fst (local_ticket cr env sc x)) = app_config x"
proof -
  have "app_config (fst (with_auth (issue_pair_ticket cr (le_now env) (le_secret env) sc) x)) = app_config x" by simp
  then show ?thesis unfolding local_ticket_def by (auto simp del: config_with(1) split: prod.split sum.split)
qed

lemma config_local_admin: "app_config (fst (local_admin cr env cmd x)) = app_config x"
proof (cases cmd)
  case ResumeRemote
  have "app_config (fst (with_auth (\<lambda>a. (resume_local (le_db_ok env) a, ())) x)) = app_config x" by simp
  then show ?thesis unfolding ResumeRemote by (auto simp del: config_with(1) split: prod.split)
qed (auto simp: config_local_ticket split: prod.split sum.split option.split)

lemma agent_step_config: "agent_step cr L x y \<Longrightarrow> app_config y = app_config x"
  by (induction rule: agent_step.induct) (simp_all add: config_http_api config_local_admin)

context auth_invariant
begin

lemma agent_run_keeps:
  assumes "(agent_step cr L)\<^sup>*\<^sup>* x y" "P (app_auth x)" "locals_ok (app_config x) L"
  shows "P (app_auth y) \<and> app_config y = app_config x"
  using assms
proof (induction rule: rtranclp_induct)
  case (step y z)
  then show ?case using agent_step_keeps [OF step.hyps(2)] agent_step_config [OF step.hyps(2)] by simp
qed simp

end

section \<open>A revoked device stays revoked\<close>

lemma revoked_in_store [simp]: "revoked_in (a\<lparr>a_store := st\<rparr>) c = revoked_in a c"
  by (simp add: revoked_in_def)

lemma revoked_in_resume: "revoked_in a c \<Longrightarrow> revoked_in (resume_local ok a) c"
  using fresh_tokens_revoked [of "a_devices a" c _ "next_token a"]
  by (auto simp: resume_local_def revoked_in_def split: prod.splits)

lemma revoked_in_step:
  "auth_step cr UNIV (a, ps) (b, ps') \<Longrightarrow> revoked_in a c \<Longrightarrow> revoked_in b c"
  using revoked_step by fastforce

interpretation rv: auth_invariant cr "\<lambda>a. revoked_in a c" "\<lambda>_. True" for cr c
  by unfold_locales
    (auto simp: revoked_core [OF core_simple(1)] revoked_core [OF core_simple(2)] revoked_core [OF core_simple(3)]
      revoked_core [OF core_simple(4)] revoked_core [OF core_simple(5)] revoked_in_resume
      intro: revoked_in_step [OF s_revoke] revoked_in_step [OF s_block] revoked_in_step [OF s_pair])

lemma revoked_bearer:
  assumes "revoked_in (app_auth x) c" "bearer_principal cr now h sc x = Ok p"
  shows "p_client p \<noteq> c"
  using assms
  by (auto simp: bearer_principal_def authorize_def active_device_def revoked_in_def split: option.splits sum.splits if_splits)

lemma owner_revoke_client: "owner (revoke_client l c) = Some own \<Longrightarrow> client own \<noteq> c"
  by (auto simp: revoke_client_def split: if_splits option.splits)

lemma revoke_device_Ok:
  assumes "http_revoke_device env c x = (y, Ok r)"
  shows "revoked_in (app_auth y) c"
    "app_sessions y = revoke_client_all c ((app_sessions x)\<lparr>mgr_store := a_store (app_auth y)\<rparr>)"
    "app_previews y = pv_revoke_client c (app_previews x)" "app_media y = media_revoke_client c (app_media x)"
proof -
  obtain a1 q where a1: "revoke (ae_db_ok env) c (app_auth x) = (a1, q)" by (cases "revoke (ae_db_ok env) c (app_auth x)")
  with assms have q: "q = Ok ()" and y: "app_auth y = a1"
    "app_sessions y = revoke_client_all c ((app_sessions x)\<lparr>mgr_store := a_store a1\<rparr>)"
    "app_previews y = pv_revoke_client c (app_previews x)" "app_media y = media_revoke_client c (app_media x)"
    by (auto simp: http_revoke_device_def joined_def with_auth_def split: sum.splits if_splits)
  have "hm_contains (a_devices (app_auth x)) c" using a1 q by (auto simp: revoke_def split: option.splits)
  from revoke_revokes [OF this, of "ae_db_ok env"] a1 y(1) show "revoked_in (app_auth y) c" by simp
  show "app_sessions y = revoke_client_all c ((app_sessions x)\<lparr>mgr_store := a_store (app_auth y)\<rparr>)"
    "app_previews y = pv_revoke_client c (app_previews x)" "app_media y = media_revoke_client c (app_media x)"
    using y by simp_all
qed

text \<open>C8. A device that the API revoked is out everywhere: from the answer on, in every run of remote calls, local
  commands, ticket redemptions and channels, no bearer token gives a principal of the device; at the moment
  of the answer no session's input lease is the device's, no preview grant is, and a media stream of the
  device is cancelled.\<close>

theorem revoked_device_is_out_everywhere:
  assumes "http_api cr env h (Api_revoke_device c) x = (y, Ok Re_no_content)"
  shows "(\<forall>L z now h sc p. (agent_step cr L)\<^sup>*\<^sup>* y z \<longrightarrow> bearer_principal cr now h sc z = Ok p \<longrightarrow> p_client p \<noteq> c) \<and>
    (\<forall>i s own. hm_get (sessions (app_sessions y)) i = Some s \<longrightarrow> owner (s_lease s) = Some own \<longrightarrow> client own \<noteq> c) \<and>
    (\<forall>(k, g) \<in> set (launches (app_previews y)) \<union> set (browsers (app_previews y)). g_client g \<noteq> c) \<and>
    (\<forall>act. mm_active (app_media y) = Some act \<longrightarrow> act_client act = c \<longrightarrow> act_cancel act \<in> set (mm_cancelled (app_media y)))"
proof -
  have "http_revoke_device env c x = (y, Ok Re_no_content)"
    using assms by (auto simp: authorized_def split: sum.splits)
  note r = revoke_device_Ok [OF this]
  have "p_client p \<noteq> c" if "(agent_step cr L)\<^sup>*\<^sup>* y z" "bearer_principal cr now h sc z = Ok p" for L z now h sc p
    using rv.agent_run_keeps [OF that(1) r(1)] revoked_bearer [OF _ that(2)] by (simp add: rv.locals_ok_def)
  moreover have "client own \<noteq> c" if got: "hm_get (sessions (app_sessions y)) i = Some s" and own: "owner (s_lease s) = Some own" for i s own
  proof -
    have "\<exists>l. s_lease s = revoke_client l c"
      using got unfolding r(2) by (auto simp: revoke_client_all_def changed_def)
    with own show ?thesis by (metis owner_revoke_client)
  qed
  moreover have "\<forall>(k, g) \<in> set (launches (app_previews y)) \<union> set (browsers (app_previews y)). g_client g \<noteq> c"
    unfolding r(3) by (auto simp: pv_revoke_client_def hm_retain_def)
  moreover have "act_cancel act \<in> set (mm_cancelled (app_media y))"
    if "mm_active (app_media y) = Some act" "act_client act = c" for act
    using that unfolding r(4) by (auto simp: media_revoke_client_def cancel_active_def split: option.splits if_splits)
  ultimately show ?thesis by blast
qed

section \<open>Remote calls never widen the scopes\<close>

definition scopes_within :: "scope set \<Rightarrow> 'h auth \<Rightarrow> bool" where
  "scopes_within B a \<longleftrightarrow>
     (\<forall>e \<in> set (a_devices a). set (d_scopes (ds_device (snd e))) \<subseteq> B) \<and>
     (\<forall>e \<in> set (pairs a). set (pt_scopes (snd e)) \<subseteq> B)"

text \<open>The scopes that some device or some open pairing ticket has.\<close>

definition granted_scopes :: "'h auth \<Rightarrow> scope set" where
  "granted_scopes a =
     (\<Union>e \<in> set (a_devices a). set (d_scopes (ds_device (snd e)))) \<union> (\<Union>e \<in> set (pairs a). set (pt_scopes (snd e)))"

lemma scopes_within_granted: "scopes_within B a \<longleftrightarrow> granted_scopes a \<subseteq> B"
  by (auto simp: scopes_within_def granted_scopes_def)

lemma scopes_of_device:
  "scopes_within B a \<Longrightarrow> hm_get (a_devices a) c = Some d \<Longrightarrow> set (d_scopes (ds_device d)) \<subseteq> B"
  using hm_get_in_set by (force simp: scopes_within_def)

lemma scopes_of_ticket: "scopes_within B a \<Longrightarrow> hm_get (pairs a) k = Some t \<Longrightarrow> set (pt_scopes t) \<subseteq> B"
  using hm_get_in_set by (force simp: scopes_within_def)

lemma scopes_within_store [simp]: "scopes_within B (a\<lparr>a_store := st\<rparr>) = scopes_within B a"
  by (simp add: scopes_within_def)

lemma scopes_within_mono:
  "scopes_within B a \<Longrightarrow> a_devices b = a_devices a \<Longrightarrow> set (pairs b) \<subseteq> set (pairs a) \<Longrightarrow> scopes_within B b"
  by (auto simp: scopes_within_def)

lemma scopes_limit:
  assumes "anonymous_limit now a = (a1, r)"
  shows "a_devices a1 = a_devices a" "set (pairs a1) \<subseteq> set (pairs a)"
  using assms by (auto simp: anonymous_limit_def prune_def hm_retain_def Let_def split: if_splits)

lemma scopes_within_limit:
  "scopes_within B a \<Longrightarrow> anonymous_limit now a = (a1, r) \<Longrightarrow> scopes_within B a1"
  by (rule scopes_within_mono [OF _ scopes_limit])

lemma scopes_within_simple:
  assumes "scopes_within B a"
  shows "scopes_within B (fst (challenge cr now wall iid nonce c a))"
    "scopes_within B (fst (verify_challenge cr now sec iid sig a))"
    "scopes_within B (fst (issue_ws cr now sec p ch se a))"
    "scopes_within B (fst (consume_ws cr now tok ch a))"
    "scopes_within B (block_all ok a)"
proof -
  have frame: "scopes_within B b = scopes_within B d" if "a_devices b = a_devices d" "pairs b = pairs d" for b d :: "'a auth"
    using that by (simp add: scopes_within_def)
  show "scopes_within B (fst (challenge cr now wall iid nonce c a))"
    using assms scopes_within_limit [OF assms]
    by (auto simp: challenge_def ensure_open_def Let_def scopes_within_def split: prod.split sum.split)
  show "scopes_within B (fst (verify_challenge cr now sec iid sig a))"
    using assms scopes_within_limit [OF assms]
    by (auto simp: verify_challenge_def ensure_open_def Let_def scopes_within_def split: prod.split sum.split option.split)
  show "scopes_within B (fst (issue_ws cr now sec p ch se a))"
    by (rule scopes_within_mono [OF assms])
      (auto simp: issue_ws_def prune_def hm_retain_def Let_def split: sum.split)
  show "scopes_within B (fst (consume_ws cr now tok ch a))"
    by (rule scopes_within_mono [OF assms])
      (auto simp: consume_ws_def ensure_open_def prune_def hm_retain_def Let_def split: sum.split option.split if_splits)
  show "scopes_within B (block_all ok a)"
    using assms by (simp add: block_all_def scopes_within_def)
qed

lemma scopes_within_revoke:
  assumes "scopes_within B a"
  shows "scopes_within B (fst (revoke ok c a))"
proof (cases "hm_get (a_devices a) c")
  case (Some d)
  then have "set (d_scopes (ds_device d)) \<subseteq> B" using assms by (rule scopes_of_device [rotated])
  then show ?thesis using assms Some by (auto simp: revoke_def Let_def scopes_within_def dest!: hm_set_insert)
qed (use assms in \<open>simp add: revoke_def\<close>)

lemma fresh_tokens_devices:
  "e \<in> set (fst (fresh_tokens m t)) \<Longrightarrow> \<exists>d \<in> set m. ds_device (snd e) = ds_device (snd d)"
proof (induction m arbitrary: t)
  case (Cons a m)
  then show ?case using Cons.IH [of t] Cons.IH [of "Suc t"]
    by (cases a) (auto simp: fresh_tokens_Cons simp del: fresh_tokens.simps(2) split: if_splits)
qed simp

lemma scopes_within_resume: "scopes_within B a \<Longrightarrow> scopes_within B (resume_local ok a)"
  using fresh_tokens_devices [of _ "a_devices a" "next_token a"]
  by (auto simp: resume_local_def scopes_within_def split: prod.splits) (metis fst_conv snd_conv subsetD)

lemma scopes_within_ticket:
  assumes "scopes_within B a" "set sc \<subseteq> B"
  shows "scopes_within B (fst (issue_pair_ticket cr now sec sc a))"
  using assms
  by (auto simp: issue_pair_ticket_def ensure_open_def Let_def scopes_within_def prune_def hm_retain_def
      dest!: hm_set_insert)

lemma scopes_within_authorize:
  assumes "scopes_within B a" "authorize cr now tok a = Ok p"
  shows "set (p_scopes p) \<subseteq> B"
  using assms(2) scopes_of_device [OF assms(1)]
  by (fastforce simp: authorize_def active_device_def split: option.splits sum.splits if_splits)

lemma scopes_within_pair:
  assumes "scopes_within B a"
  shows "scopes_within B (fst (pair cr now fresh ok tk k l a))"
proof -
  obtain a1 r where lim: "anonymous_limit now a = (a1, r)" by (cases "anonymous_limit now a")
  have a1: "scopes_within B a1" using scopes_within_limit [OF assms lim] .
  show ?thesis
  proof (cases "hm_get (pairs a1) (digest cr tk)")
    case None
    then show ?thesis using assms a1 lim
      by (auto simp: pair_def ensure_open_def Let_def split: sum.split option.split)
  next
    case (Some t)
    then have t: "set (pt_scopes t) \<subseteq> B" by (rule scopes_of_ticket [OF a1])
    show ?thesis using assms a1 lim Some t
      by (auto simp: pair_def ensure_open_def Let_def scopes_within_def hm_remove_def dest!: hm_set_insert
          split: sum.split option.split)
  qed
qed

interpretation sw: auth_invariant cr "scopes_within B" "\<lambda>sc. set sc \<subseteq> B" for cr B
  by unfold_locales
    (auto simp: scopes_within_simple scopes_within_revoke scopes_within_resume scopes_within_pair
      intro: scopes_within_ticket dest: scopes_within_authorize)

text \<open>C31. Remote calls never escalate. In every run without a local pairing command, whatever is called, redeemed or
  relayed in whatever order, every scope that some device or open pairing ticket has at the end was held by
  a device or an open ticket at the start.\<close>

theorem remote_calls_never_escalate:
  assumes "(agent_step cr (- {PairOwner, PairReader, PairGui}))\<^sup>*\<^sup>* x y"
  shows "granted_scopes (app_auth y) \<subseteq> granted_scopes (app_auth x)"
  using sw.agent_run_keeps [OF assms, of "granted_scopes (app_auth x)"]
  by (simp add: scopes_within_granted sw.locals_ok_def)

section \<open>The remote block\<close>

lemma blocked_bearer: "blocked (app_auth x) \<Longrightarrow> \<exists>e \<in> {Forbidden, Unauthenticated}. bearer_principal cr now h sc x = Err e"
  by (auto simp: bearer_principal_def authorize_def ensure_open_def split: option.splits)

lemma blocked_authorized:
  assumes "blocked (app_auth x)"
  shows "\<exists>e \<in> {Forbidden, Unauthenticated}. authorized cr now h sc f x = (x, Err e)"
  using blocked_bearer [OF assms, of cr now h sc] by (auto simp: authorized_def)

definition stores_agree :: "('h, 'm) app \<Rightarrow> bool" where
  "stores_agree x \<longleftrightarrow> mgr_store (app_sessions x) = a_store (app_auth x)"

lemma blocked_with_auth:
  assumes "stores_agree x" "f (app_auth x) = (app_auth x, Err e)"
  shows "with_auth f x = (x, Err e)"
  using assms by (simp add: with_auth_def stores_agree_def flip: assms(1) [unfolded stores_agree_def])

lemma blocked_anonymous:
  assumes "blocked a"
  shows "pair cr now fresh ok tk k l a = (a, Err Forbidden)" "challenge cr now wall iid nonce c a = (a, Err Forbidden)"
    "verify_challenge cr now sec iid sig a = (a, Err Forbidden)"
  using assms by (simp_all add: pair_def challenge_def verify_challenge_def ensure_open_def)

lemma blocked_calls:
  assumes "stores_agree x" "blocked (app_auth x)"
  shows "with_auth (pair cr now fresh ok tk k l) x = (x, Err Forbidden)"
    "with_auth (challenge cr now wall iid nonce c) x = (x, Err Forbidden)"
    "with_auth (verify_challenge cr now sec iid sig) x = (x, Err Forbidden)"
  using assms by (simp_all add: blocked_with_auth blocked_anonymous)

lemma block_everything_fields:
  "blocked (app_auth (block_everything ok x))" "stores_agree (block_everything ok x)"
  "app_previews (block_everything ok x) = pv_block_all (app_previews x)"
  "app_media (block_everything ok x) = cancel_all (app_media x)"
  "\<exists>m. sessions m = sessions (app_sessions x) \<and> app_sessions (block_everything ok x) = block_input m"
  by (auto simp: block_everything_def with_auth_def block_all_def block_input_def stores_agree_def Let_def
      intro!: exI [of _ "(app_sessions x)\<lparr>mgr_store := _\<rparr>"])

text \<open>C9. The remote block stops the agent: after it, no session has an owner of its input, no preview grant is
  left, an active media stream is cancelled, and every remote call, with any token, is refused with \<open>Forbidden\<close>
  or \<open>Unauthenticated\<close> (\<open>Internal\<close> when a worker thread failed) and changes nothing.\<close>

theorem block_stops_the_agent:
  "let y = block_everything ok x in
     (\<forall>i s. hm_get (sessions (app_sessions y)) i = Some s \<longrightarrow> owner (s_lease s) = None) \<and>
     launches (app_previews y) = [] \<and> browsers (app_previews y) = [] \<and>
     (\<forall>act. mm_active (app_media y) = Some act \<longrightarrow> act_cancel act \<in> set (mm_cancelled (app_media y))) \<and>
     (\<forall>env h call. \<exists>e \<in> {Forbidden, Unauthenticated, Internal}. http_api cr env h call y = (y, Err e))"
proof -
  define y where "y = block_everything ok x"
  note f = block_everything_fields [where ok = ok and x = x, folded y_def]
  have "owner (s_lease s) = None" if "hm_get (sessions (app_sessions y)) i = Some s" for i s
    using f(5) that by (auto simp: block_input_def changed_def revoke_all_def)
  moreover have "launches (app_previews y) = []" "browsers (app_previews y) = []"
    using f(3) by (simp_all add: pv_block_all_def)
  moreover have "act_cancel act \<in> set (mm_cancelled (app_media y))" if "mm_active (app_media y) = Some act" for act
    using that unfolding f(4) by (auto simp: cancel_all_def cancel_active_def split: option.splits)
  moreover have "\<exists>e \<in> {Forbidden, Unauthenticated, Internal}. http_api cr env h call y = (y, Err e)" for env h call
  proof -
    have au: "\<exists>e \<in> {Forbidden, Unauthenticated, Internal}. authorized cr now h sc f y = (y, Err e)" for now h sc f
      using blocked_authorized [OF f(1), of cr now h sc] by auto
    show ?thesis
      by (cases call; (simp only: http_api.simps au)?)
        (simp_all add: http_pair_def http_challenge_def http_verify_def joined_def replying_def blocked_calls [OF f(2,1)])
  qed
  ultimately show ?thesis by (simp add: y_def [symmetric])
qed

section \<open>Instances\<close>

text \<open>An agent with one owner device, number 7, that holds an access token.\<close>

definition owner_agent :: "(str, bytes) app" where
  "owner_agent =
     \<lparr>app_config = default_config [], app_auth = one_auth\<lparr>access := [([1], \<lparr>ac_client = 7, ac_until = 100\<rparr>)]\<rparr>,
      app_sessions = sample_manager\<lparr>mgr_store := a_store one_auth\<rparr>, app_previews = default_previews,
      app_media = new_media default_media_config, app_shutdown = False\<rparr>"

definition owner_env :: "bytes api_env" where
  "owner_env =
     \<lparr>ae_now = 0, ae_wall = 0, ae_secret = [2], ae_nonce = [3], ae_fresh = 9, ae_db_ok = True, ae_joined = True,
      ae_probe = sample_probe, ae_spawn = sample_env, ae_em = tape,
      ae_register = \<lparr>re_origin = None, re_identity = None, re_bound = False, re_joined = True, re_client_built = True, re_fresh = 1\<rparr>,
      ae_received = 0, ae_written = None\<rparr>"

definition owner_bearer :: "str option" where
  "owner_bearer = Some (lit ''Bearer '' @ [1])"

lemma owner_auth_fields:
  "a_devices one_auth = [(7, \<lparr>ds_device = \<lparr>d_client_id = 7, d_public_key = [1], d_label = [0x61], d_scopes = owner_scopes,
     d_revoked = False\<rparr>, ds_cancel = 0\<rparr>)]" "blocked one_auth = False" "cancelled one_auth = []" "pairs one_auth = []"
  by (simp_all add: one_auth_def new_auth_def one_device_def save_device_def empty_store_def hm_insert_def devices_of_def
      remote_blocked_def)

lemma owner_authorized:
  assumes "sc \<in> set owner_scopes"
  shows "authorized plain_crypto 0 owner_bearer sc f owner_agent =
     f \<lparr>p_client = 7, p_scopes = owner_scopes, p_expires = 100, p_revoked = 0\<rparr> owner_agent"
  using assms
  by (simp add: authorized_def bearer_principal_def owner_bearer_def authorize_def ensure_open_def active_device_def
      owner_agent_def owner_auth_fields plain_crypto_def require_def strip_prefix_def)

lemma owner_revokes:
  "snd (http_api plain_crypto owner_env owner_bearer (Api_revoke_device 7) owner_agent) = Ok Re_no_content"
proof -
  have now: "ae_now owner_env = 0" "AdminDevices \<in> set owner_scopes" by (simp_all add: owner_env_def owner_scopes_def)
  have "snd (http_revoke_device owner_env 7 owner_agent) = Ok Re_no_content"
    by (simp add: owner_env_def http_revoke_device_def joined_def with_auth_def owner_agent_def revoke_def owner_auth_fields Let_def)
  then show ?thesis by (simp add: now owner_authorized)
qed

theorem revoked_device_is_out_everywhere_witness:
  "\<not> (\<exists>p. bearer_principal plain_crypto 0 owner_bearer TerminalRead
        (fst (http_api plain_crypto owner_env owner_bearer (Api_revoke_device 7) owner_agent)) = Ok p \<and> p_client p = 7)"
proof -
  let ?r = "http_api plain_crypto owner_env owner_bearer (Api_revoke_device 7) owner_agent"
  have r: "?r = (fst ?r, Ok Re_no_content)" using owner_revokes by (metis prod.collapse)
  show ?thesis using revoked_device_is_out_everywhere [OF r] by blast
qed

theorem remote_calls_never_escalate_witness:
  "granted_scopes (app_auth (fst (http_api plain_crypto owner_env owner_bearer (Api_pair_ticket [TerminalRead]) owner_agent)))
     \<subseteq> granted_scopes (app_auth owner_agent)"
proof (rule remote_calls_never_escalate, rule r_into_rtranclp, rule as_remote)
  show "\<not> hm_contains (a_devices (app_auth owner_agent)) (ae_fresh owner_env)"
    by (simp add: owner_agent_def owner_env_def owner_auth_fields)
qed

theorem block_stops_the_agent_witness:
  "\<exists>e \<in> {Forbidden, Unauthenticated, Internal}.
     http_api plain_crypto owner_env owner_bearer Api_sessions (block_everything True owner_agent)
       = (block_everything True owner_agent, Err e)"
  using block_stops_the_agent [of True owner_agent plain_crypto] by (simp only: Let_def)

end
