(* ===== verification/Http_Boundary.thy ===== *)
theory Http_Boundary
  imports Http_Api
begin

text \<open>
  The middleware \<open>boundary\<close> of \<open>rc-agent/src/http.rs\<close>: the checks of host and origin in front of every route, and
  the headers it puts on every answer. The header map and the text conversions are the records of \<open>Preview\<close>;
  the route behind the middleware is a function on a state.
\<close>

section \<open>Model\<close>

record 'm response =
  rs_status :: nat
  rs_headers :: 'm

text \<open>\<open>str::replacen(from, to, 1)\<close> for a non-empty pattern.\<close>

fun replace_first :: "str \<Rightarrow> str \<Rightarrow> str \<Rightarrow> str" where
  "replace_first pat repl [] = []"
| "replace_first pat repl (c # s) =
     (if prefix pat (c # s) then repl @ drop (length pat) (c # s) else c # replace_first pat repl s)"

definition ws_source :: "config \<Rightarrow> str" where
  "ws_source c =
     (case public_origin c of
        Some s \<Rightarrow> replace_first (lit ''https://'') (lit ''wss://'') s
      | None \<Rightarrow> replace_first (lit ''http://'') (lit ''ws://'') (local_origin c))"

definition content_policy :: "config \<Rightarrow> str" where
  "content_policy c =
     lit ''default-src 'self'; script-src 'self'; style-src 'self' 'unsafe-inline'; connect-src 'self' '' @ ws_source c
     @ lit ''; img-src 'self' data:; media-src 'self' blob:; font-src 'self'; object-src 'none'; frame-ancestors 'none'; ''
     @ lit ''base-uri 'none'; worker-src '' @ [0x27] @ lit ''self'' @ [0x27]"

datatype verdict = Reject | Preflight | Run

definition request_origin :: "'m headers \<Rightarrow> web \<Rightarrow> 'm request \<Rightarrow> str option" where
  "request_origin H W rq = header_text H W (rq_headers rq) (lit ''origin'')"

definition boundary_verdict :: "'m headers \<Rightarrow> web \<Rightarrow> config \<Rightarrow> 'm request \<Rightarrow> verdict" where
  "boundary_verdict H W c rq =
     (let host = text_or_empty (header_text H W (rq_headers rq) (lit ''host''));
          origin = request_origin H W rq
      in if \<not> host_allowed (url_parse W) c host then Reject
         else if (case origin of None \<Rightarrow> False | Some v \<Rightarrow> \<not> origin_allowed c v) then Reject
         else if prefix (lit ''/api/'') (rq_path rq) \<and> origin = None \<and> rq_method rq \<noteq> GET \<and> rq_method rq \<noteq> HEAD then Reject
         else if rq_method rq = OPTIONS then Preflight
         else Run)"

definition safety_headers :: "'m headers \<Rightarrow> web \<Rightarrow> config \<Rightarrow> 'm \<Rightarrow> 'm" where
  "safety_headers H W c h =
     (let h1 = h_insert H (lit ''x-content-type-options'') (lit ''nosniff'') h;
          h2 = h_insert H (lit ''referrer-policy'') (lit ''no-referrer'') h1;
          h3 = h_insert H (lit ''cache-control'') (lit ''no-store'') h2;
          h4 = h_insert H (lit ''x-frame-options'') (lit ''DENY'') h3
      in case header_value W (content_policy c) of
           None \<Rightarrow> h4 | Some v \<Rightarrow> h_insert H (lit ''content-security-policy'') v h4)"

definition cors_headers :: "'m headers \<Rightarrow> web \<Rightarrow> str option \<Rightarrow> 'm \<Rightarrow> 'm" where
  "cors_headers H W origin h =
     (case origin of None \<Rightarrow> h | Some o' \<Rightarrow>
      (case header_value W o' of None \<Rightarrow> h | Some v \<Rightarrow>
        h_insert H (lit ''access-control-allow-headers'') (lit ''Authorization, Content-Type'')
          (h_insert H (lit ''access-control-allow-methods'') (lit ''GET, POST, DELETE, OPTIONS'')
            (h_insert H (lit ''vary'') (lit ''Origin'')
              (h_insert H (lit ''access-control-allow-origin'') v h)))))"

text \<open>\<open>plain\<close> is the header map of an answer without a handler.\<close>

definition boundary ::
    "'m headers \<Rightarrow> web \<Rightarrow> config \<Rightarrow> 'm \<Rightarrow> 'm request \<Rightarrow> ('s \<Rightarrow> 's \<times> 'm response) \<Rightarrow> 's \<Rightarrow> 's \<times> 'm response" where
  "boundary H W c plain rq onward s =
     (case boundary_verdict H W c rq of
        Reject \<Rightarrow> (s, \<lparr>rs_status = failure_status OriginRejected, rs_headers = plain\<rparr>)
      | v \<Rightarrow>
        (case (if v = Preflight then (s, \<lparr>rs_status = 204, rs_headers = plain\<rparr>) else onward s) of
           (s', r) \<Rightarrow> (s', r\<lparr>rs_headers := cors_headers H W (request_origin H W rq) (safety_headers H W c (rs_headers r))\<rparr>)))"

section \<open>Properties\<close>

text \<open>The names are different, also without case.\<close>

definition NAMES :: "str list" where
  "NAMES = [lit ''x-content-type-options'', lit ''referrer-policy'', lit ''cache-control'', lit ''x-frame-options'',
     lit ''content-security-policy'', lit ''access-control-allow-origin'', lit ''vary'',
     lit ''access-control-allow-methods'', lit ''access-control-allow-headers'']"

lemma names_distinct: "distinct (map (map to_ascii_lower) NAMES)"
  by code_simp

lemma names_eq:
  assumes "i < 9" "j < 9"
  shows "eq_ignore_ascii_case (NAMES ! i) (NAMES ! j) \<longleftrightarrow> i = j"
proof -
  have l: "length NAMES = 9" by (simp add: NAMES_def)
  then show ?thesis
    using nth_eq_iff_index_eq [OF names_distinct, of i j] assms by (simp add: eq_ignore_ascii_case_def)
qed

lemma name_nth:
  "lit ''x-content-type-options'' = NAMES ! 0" "lit ''referrer-policy'' = NAMES ! 1" "lit ''cache-control'' = NAMES ! 2"
  "lit ''x-frame-options'' = NAMES ! 3" "lit ''content-security-policy'' = NAMES ! 4"
  "lit ''access-control-allow-origin'' = NAMES ! 5" "lit ''vary'' = NAMES ! 6"
  "lit ''access-control-allow-methods'' = NAMES ! 7" "lit ''access-control-allow-headers'' = NAMES ! 8"
  by (simp_all add: NAMES_def)

lemma safety_headers_get:
  assumes "header_laws H" "i < 9"
  shows "h_get_all H (safety_headers H W c h) (NAMES ! i) =
    (if i = 0 then [lit ''nosniff''] else if i = 1 then [lit ''no-referrer''] else if i = 2 then [lit ''no-store'']
     else if i = 3 then [lit ''DENY'']
     else if i = 4 then (case header_value W (content_policy c) of None \<Rightarrow> h_get_all H h (NAMES ! i) | Some v \<Rightarrow> [v])
     else h_get_all H h (NAMES ! i))"
  using assms(2) unfolding safety_headers_def Let_def name_nth
  by (auto simp: header_get_all [OF assms(1)] names_eq split: option.split)

lemma cors_headers_get:
  assumes "header_laws H" "i < 6"
  shows "h_get_all H (cors_headers H W origin h) (NAMES ! i) =
    (case origin of None \<Rightarrow> h_get_all H h (NAMES ! i) | Some o' \<Rightarrow>
     (case header_value W o' of None \<Rightarrow> h_get_all H h (NAMES ! i) | Some v \<Rightarrow> if i = 5 then [v] else h_get_all H h (NAMES ! i)))"
  using assms(2) unfolding cors_headers_def name_nth
  by (auto simp: header_get_all [OF assms(1)] names_eq split: option.split)

lemma verdict_Run:
  assumes "boundary_verdict H W c rq = Run"
  shows "host_allowed (url_parse W) c (text_or_empty (header_text H W (rq_headers rq) (lit ''host'')))"
    "\<forall>v. request_origin H W rq = Some v \<longrightarrow> origin_allowed c v"
    "prefix (lit ''/api/'') (rq_path rq) \<and> rq_method rq \<notin> {GET, HEAD} \<longrightarrow> request_origin H W rq \<noteq> None"
    "rq_method rq \<noteq> OPTIONS"
  using assms by (auto simp: boundary_verdict_def Let_def split: if_splits option.splits)

text \<open>C32. The boundary guards every route. A request reaches its handler only with an allowed host, an allowed origin or
  none, and for a call of the API that is not a read only with an allowed origin; otherwise the state is untouched.
  Every answer that is not the refusal forbids framing, sniffing, caching and referrers and has the content
  policy, whatever the handler put there; and an answer allows a foreign reader only if its request's origin is allowed,
  or the handler itself did.\<close>

theorem boundary_guards_every_route:
  assumes laws: "header_laws H" and out: "boundary H W c plain rq onward s = (s', r)"
  shows "(s' \<noteq> s \<longrightarrow>
      host_allowed (url_parse W) c (text_or_empty (header_text H W (rq_headers rq) (lit ''host''))) \<and>
      (\<forall>v. request_origin H W rq = Some v \<longrightarrow> origin_allowed c v) \<and>
      (prefix (lit ''/api/'') (rq_path rq) \<and> rq_method rq \<notin> {GET, HEAD} \<longrightarrow> request_origin H W rq \<noteq> None)) \<and>
    (r = \<lparr>rs_status = 403, rs_headers = plain\<rparr> \<or>
      h_get_all H (rs_headers r) (lit ''x-frame-options'') = [lit ''DENY''] \<and>
      h_get_all H (rs_headers r) (lit ''x-content-type-options'') = [lit ''nosniff''] \<and>
      h_get_all H (rs_headers r) (lit ''cache-control'') = [lit ''no-store''] \<and>
      h_get_all H (rs_headers r) (lit ''referrer-policy'') = [lit ''no-referrer''] \<and>
      (\<forall>v. header_value W (content_policy c) = Some v \<longrightarrow> h_get_all H (rs_headers r) (lit ''content-security-policy'') = [v]) \<and>
      (\<forall>v \<in> set (h_get_all H (rs_headers r) (lit ''access-control-allow-origin'')).
        v \<in> set (h_get_all H plain (lit ''access-control-allow-origin'')) \<or>
        v \<in> set (h_get_all H (rs_headers (snd (onward s))) (lit ''access-control-allow-origin'')) \<or>
        (\<exists>o'. request_origin H W rq = Some o' \<and> origin_allowed c o' \<and> header_value W o' = Some v)))"
proof (cases "boundary_verdict H W c rq = Reject")
  case True
  then show ?thesis using out by (simp add: boundary_def)
next
  case False
  define inner where "inner = (if boundary_verdict H W c rq = Preflight then (s, \<lparr>rs_status = 204, rs_headers = plain\<rparr>) else onward s)"
  have r: "rs_headers r = cors_headers H W (request_origin H W rq) (safety_headers H W c (rs_headers (snd inner)))" "s' = fst inner"
    using out False by (auto simp: boundary_def inner_def split: verdict.splits prod.splits)
  have h: "rs_headers (snd inner) = plain \<or> rs_headers (snd inner) = rs_headers (snd (onward s))"
    by (simp add: inner_def)
  have allowed: "\<forall>v. request_origin H W rq = Some v \<longrightarrow> origin_allowed c v"
    using False by (auto simp: boundary_verdict_def Let_def split: if_splits)
  have run: "boundary_verdict H W c rq = Run" if "s' \<noteq> s"
    using that False r(2) by (cases "boundary_verdict H W c rq") (simp_all add: inner_def)
  show ?thesis using verdict_Run [OF run] allowed h unfolding r(1) name_nth
    by (auto simp: cors_headers_get [OF laws] safety_headers_get [OF laws] split: option.splits)
qed

definition unsigned_post :: "(str \<times> bytes) list request" where
  "unsigned_post = \<lparr>rq_method = POST, rq_path = lit ''/api/v1/block-remote'', rq_suffix = [], rq_headers = [], rq_body = [], rq_upgrade = False\<rparr>"

theorem boundary_guards_every_route_witness:
  "fst (boundary list_headers plain_web (default_config []) [] unsigned_post
     (\<lambda>n. (n + 1, \<lparr>rs_status = 204, rs_headers = []\<rparr>)) (0 :: nat)) = 0"
proof (rule ccontr)
  let ?b = "boundary list_headers plain_web (default_config []) [] unsigned_post
     (\<lambda>n. (n + 1, \<lparr>rs_status = 204, rs_headers = []\<rparr>)) (0 :: nat)"
  assume "fst ?b \<noteq> 0"
  then have "prefix (lit ''/api/'') (rq_path unsigned_post) \<and> rq_method unsigned_post \<notin> {GET, HEAD} \<longrightarrow>
      request_origin list_headers plain_web unsigned_post \<noteq> None"
    using boundary_guards_every_route [OF list_header_laws surjective_pairing [of ?b]] by blast
  moreover have "request_origin list_headers plain_web unsigned_post = None"
    by (simp add: request_origin_def header_text_def list_headers_def unsigned_post_def)
  moreover have "prefix (lit ''/api/'') (rq_path unsigned_post)" by code_simp
  ultimately show False by (simp add: unsigned_post_def)
qed

end
