(* ===== verification/Tailscale.thy ===== *)
theory Tailscale
  imports Rust_Strings
begin

text \<open>
  \<open>apps/desktop/src-tauri/src/tailscale.rs\<close>: the ownership of the HTTPS port that Tailscale Serve publishes. The
  status of Serve is read as JSON, checked field by field, and compared with the receipt of an earlier change;
  a change is made only when the port is unused or provably ours.

  A JSON value is a datatype, an object an association list with distinct keys; decoding the text is a parameter, as is the
  command-line tool, a function of a state of the machine.
\<close>

section \<open>JSON values\<close>

datatype json =
    JNull
  | JBool bool
  | JNumber int
  | JString str
  | JArray "json list"
  | JObject "(str \<times> json) list"

fun as_object :: "json \<Rightarrow> (str \<times> json) list option" where
  "as_object (JObject m) = Some m"
| "as_object _ = None"

fun as_bool :: "json \<Rightarrow> bool option" where
  "as_bool (JBool b) = Some b"
| "as_bool _ = None"

fun as_str :: "json \<Rightarrow> str option" where
  "as_str (JString s) = Some s"
| "as_str _ = None"

definition json_get :: "json \<Rightarrow> str \<Rightarrow> json option" where
  "json_get v k = (case as_object v of None \<Rightarrow> None | Some m \<Rightarrow> map_of m k)"

section \<open>Data\<close>

definition BACKEND :: str where
  "BACKEND = lit ''http://127.0.0.1:3847''"

datatype ownership = Absent | Owned | Conflict

datatype cli_state = Installed | NotInstalledCli

record inspection =
  in_installed :: bool
  in_cli :: cli_state
  in_ownership :: ownership
  in_detail :: string
  in_dns_name :: "str option"
  in_proxy :: "str option"
  in_public_origin :: "str option"
  in_restart_required :: bool
  in_preview_ports :: "(u16 \<times> u16) list"

datatype serve_plan = Apply | Remove

datatype serve_error = NotInstalled | CommandFailed | ServeFailed string

record serve_receipt =
  sr_dns_name :: str
  sr_proxy :: str
  sr_https_port :: u16
  sr_public_origin :: str

record pending_serve =
  pd_enabled :: bool
  pd_receipt :: "serve_receipt option"
  pd_dns_name :: "str option"
  pd_proxy :: str

record command_output =
  co_success :: bool
  co_stdout :: str

section \<open>Names\<close>

definition is_ascii_alphanumeric :: "u8 \<Rightarrow> bool" where
  "is_ascii_alphanumeric b \<longleftrightarrow> is_digit b \<or> 0x41 \<le> b \<and> b \<le> 0x5A \<or> 0x61 \<le> b \<and> b \<le> 0x7A"

definition dns_label_ok :: "str \<Rightarrow> bool" where
  "dns_label_ok p \<longleftrightarrow>
     p \<noteq> [] \<and> length p \<le> 63 \<and> list_all (\<lambda>b. is_ascii_alphanumeric b \<or> b = 0x2D) p \<and>
     \<not> prefix [0x2D] p \<and> \<not> suffix [0x2D] p"

definition valid_dns_name :: "str \<Rightarrow> bool" where
  "valid_dns_name name =
     (case strip_suffix (lit ''.ts.net'') name of
        None \<Rightarrow> False
      | Some p \<Rightarrow> p \<noteq> [] \<and> list_all dns_label_ok (split_on 0x2E p))"

definition serve_origin :: "str \<Rightarrow> str option" where
  "serve_origin name = (if valid_dns_name name then Some (lit ''https://'' @ name) else None)"

definition preview_ports :: "(u16 \<times> u16) list" where
  "preview_ports = map (\<lambda>p. (of_nat p, of_nat p + 5400)) [8444..<8452]"

definition not_installed :: inspection where
  "not_installed =
     \<lparr>in_installed = False, in_cli = NotInstalledCli, in_ownership = Absent, in_detail = ''Tailscale CLI is not installed'',
      in_dns_name = None, in_proxy = None, in_public_origin = None, in_restart_required = False,
      in_preview_ports = preview_ports\<rparr>"

section \<open>The status of Serve\<close>

record observed =
  ob_dns_name :: "str option"
  ob_proxy :: "str option"
  ob_occupied :: bool
  ob_funnel :: bool

definition typed_fields :: "(str \<times> json) list \<Rightarrow> serve_error + unit" where
  "typed_fields root =
     (case find (\<lambda>k. case map_of root (lit k) of None \<Rightarrow> False | Some x \<Rightarrow> as_object x = None) [''TCP'', ''Web'', ''Foreground''] of
        Some k \<Rightarrow> Inl (ServeFailed (''Tailscale Serve field '' @ k @ '' has an invalid type''))
      | None \<Rightarrow> Inr ())"

definition funnel_of :: "(str \<times> json) list \<Rightarrow> serve_error + bool" where
  "funnel_of root =
     (case map_of root (lit ''AllowFunnel'') of
        None \<Rightarrow> Inr False
      | Some x \<Rightarrow> (case as_object x of
          None \<Rightarrow> Inl (ServeFailed ''Tailscale AllowFunnel has an invalid type'')
        | Some m \<Rightarrow>
            if list_ex (\<lambda>e. as_bool (snd e) = None) m
            then Inl (ServeFailed ''Tailscale AllowFunnel value has an invalid type'')
            else Inr (list_ex (\<lambda>e. as_bool (snd e) = Some True) m)))"

text \<open>Port 443: whether it is occupied, and whether it forwards raw TCP.\<close>

definition tcp443_of :: "(str \<times> json) list \<Rightarrow> serve_error + bool \<times> bool" where
  "tcp443_of root =
     (case (case map_of root (lit ''TCP'') of None \<Rightarrow> None | Some t \<Rightarrow> json_get t (lit ''443'')) of
        None \<Rightarrow> Inr (False, False)
      | Some x \<Rightarrow> (case as_object x of
          None \<Rightarrow> Inl (ServeFailed ''Tailscale TCP 443 has an invalid type'')
        | Some m \<Rightarrow>
            (case map_of m (lit ''HTTPS'') of
               Some h \<Rightarrow> (case as_bool h of None \<Rightarrow> Inl (ServeFailed ''Tailscale TCP 443 HTTPS has an invalid type'')
                  | Some b \<Rightarrow> (case map_of m (lit ''TCPForward'') of
                      None \<Rightarrow> Inr (b, False)
                    | Some f \<Rightarrow> if as_str f = None then Inl (ServeFailed ''Tailscale TCP 443 TCPForward has an invalid type'')
                        else Inr (True, True)))
             | None \<Rightarrow> (case map_of m (lit ''TCPForward'') of
                   None \<Rightarrow> Inr (False, False)
                 | Some f \<Rightarrow> if as_str f = None then Inl (ServeFailed ''Tailscale TCP 443 TCPForward has an invalid type'')
                     else Inr (True, True)))))"

definition foreground_of :: "(str \<times> json) list \<Rightarrow> serve_error + bool" where
  "foreground_of root =
     (case map_of root (lit ''Foreground'') of
        None \<Rightarrow> Inr False
      | Some x \<Rightarrow> (case as_object x of
          None \<Rightarrow> Inl (ServeFailed ''Tailscale Foreground has an invalid type'')
        | Some m \<Rightarrow>
            if list_ex (\<lambda>e. as_object (snd e) = None) m
            then Inl (ServeFailed ''Tailscale Foreground session has an invalid type'')
            else Inr (m \<noteq> [])))"

text \<open>\<open>trim_end_matches(":443")\<close>: every trailing copy is dropped.\<close>

function trim_443 :: "str \<Rightarrow> str" where
  "trim_443 s = (if suffix (lit '':443'') s then trim_443 (take (length s - 4) s) else s)"
  by auto
termination
proof (relation "measure length")
  fix s :: str
  assume "suffix (lit '':443'') s"
  then have "length (lit '':443'') \<le> length s" by (rule suffix_length_le)
  moreover have "length (lit '':443'') = 4" by code_simp
  ultimately show "(take (length s - 4) s, s) \<in> measure length" by simp
qed simp

declare trim_443.simps [simp del]

text \<open>One entry of \<open>Web\<close>: \<open>None\<close> when it is not about port 443.\<close>

definition web_rule :: "str \<Rightarrow> json \<Rightarrow> serve_error + (str \<times> str) option" where
  "web_rule host rule =
     (if \<not> suffix (lit '':443'') host then Inr None
      else (let name = trim_443 host in
        if \<not> valid_dns_name name then Inl (ServeFailed ''Tailscale Serve returned an invalid DNS name'')
        else (case as_object rule of
          None \<Rightarrow> Inl (ServeFailed ''Tailscale Web rule has an invalid type'')
        | Some ro \<Rightarrow>
          (case (case map_of ro (lit ''Handlers'') of None \<Rightarrow> None | Some x \<Rightarrow> as_object x) of
            None \<Rightarrow> Inl (ServeFailed ''Tailscale Web Handlers has an invalid type'')
          | Some handlers \<Rightarrow>
            if length handlers \<noteq> 1 \<or> map_of handlers [0x2F] = None
            then Inl (ServeFailed ''Tailscale Web Handlers must contain only the root handler'')
            else (case (case map_of handlers [0x2F] of None \<Rightarrow> None | Some x \<Rightarrow> as_object x) of
              None \<Rightarrow> Inl (ServeFailed ''Tailscale Web root handler has an invalid type'')
            | Some root \<Rightarrow>
              if length root \<noteq> 1 \<or> map_of root (lit ''Proxy'') = None
              then Inl (ServeFailed ''Tailscale Web root handler must contain only Proxy'')
              else (case (case map_of root (lit ''Proxy'') of None \<Rightarrow> None | Some x \<Rightarrow> as_str x) of
                None \<Rightarrow> Inl (ServeFailed ''Tailscale Web Proxy has an invalid type'')
              | Some proxy \<Rightarrow> Inr (Some (name, proxy))))))))"

fun web_rules :: "(str \<times> json) list \<Rightarrow> serve_error + (str \<times> str) list" where
  "web_rules [] = Inr []"
| "web_rules ((host, rule) # rest) =
     (case web_rule host rule of
        Inl e \<Rightarrow> Inl e
      | Inr r \<Rightarrow> (case web_rules rest of Inl e \<Rightarrow> Inl e
          | Inr rs \<Rightarrow> Inr (case r of None \<Rightarrow> rs | Some x \<Rightarrow> x # rs)))"

definition parse_status :: "json \<Rightarrow> serve_error + observed" where
  "parse_status v =
     (case as_object v of
        None \<Rightarrow> Inl (ServeFailed ''Tailscale Serve status must be a JSON object'')
      | Some root \<Rightarrow>
        (case typed_fields root of Inl e \<Rightarrow> Inl e | Inr _ \<Rightarrow>
        (case funnel_of root of Inl e \<Rightarrow> Inl e | Inr funnel \<Rightarrow>
        (case tcp443_of root of Inl e \<Rightarrow> Inl e | Inr (occupied, forward) \<Rightarrow>
        (case foreground_of root of Inl e \<Rightarrow> Inl e | Inr foreground \<Rightarrow>
          (let unused = \<lparr>ob_dns_name = None, ob_proxy = None, ob_occupied = (occupied \<or> foreground \<or> funnel),
                         ob_funnel = (funnel \<or> forward \<or> foreground)\<rparr>
           in case (case map_of root (lit ''Web'') of None \<Rightarrow> None | Some x \<Rightarrow> as_object x) of
                None \<Rightarrow> Inr unused
              | Some web \<Rightarrow>
                (case web_rules web of Inl e \<Rightarrow> Inl e | Inr rules \<Rightarrow>
                  if length rules > 1 \<or> rules \<noteq> [] \<and> \<not> occupied
                  then Inl (ServeFailed ''Tailscale Serve 443 configuration is mixed or incomplete'')
                  else (case rules of
                    (dns, proxy) # _ \<Rightarrow>
                      Inr \<lparr>ob_dns_name = Some dns, ob_proxy = Some proxy, ob_occupied = True,
                           ob_funnel = (funnel \<or> forward \<or> foreground)\<rparr>
                  | [] \<Rightarrow> Inr unused))))))))"

section \<open>Inspection and ownership\<close>

definition receipt_matches :: "serve_receipt \<Rightarrow> str \<Rightarrow> str \<Rightarrow> bool" where
  "receipt_matches r dns proxy \<longleftrightarrow>
     sr_https_port r = 443 \<and> sr_dns_name r = dns \<and> sr_proxy r = proxy \<and> sr_proxy r = BACKEND \<and>
     sr_public_origin r = (case serve_origin dns of Some x \<Rightarrow> x | None \<Rightarrow> [])"

definition unused_inspection :: inspection where
  "unused_inspection =
     \<lparr>in_installed = True, in_cli = Installed, in_ownership = Absent, in_detail = ''HTTPS 443 is unused'',
      in_dns_name = None, in_proxy = None, in_public_origin = None, in_restart_required = False,
      in_preview_ports = preview_ports\<rparr>"

definition FOREIGN :: string where
  "FOREIGN = ''HTTPS 443 contains an existing or foreign Serve rule''"

definition inspection_from :: "json \<Rightarrow> serve_receipt option \<Rightarrow> serve_error + inspection" where
  "inspection_from v receipt =
     (case parse_status v of Inl e \<Rightarrow> Inl e | Inr ob \<Rightarrow>
      if \<not> ob_occupied ob then Inr unused_inspection
      else (case (ob_dns_name ob, ob_proxy ob) of
        (Some dns, Some proxy) \<Rightarrow>
          (let owned = (\<not> ob_funnel ob \<and> (case receipt of None \<Rightarrow> False | Some r \<Rightarrow> receipt_matches r dns proxy)) in
           Inr (unused_inspection\<lparr>in_dns_name := Some dns, in_proxy := Some proxy, in_public_origin := serve_origin dns,
                  in_ownership := (if owned then Owned else Conflict),
                  in_detail := (if owned then ''RemoteCodex owns HTTPS 443'' else FOREIGN)\<rparr>))
      | _ \<Rightarrow> Inr (unused_inspection\<lparr>in_ownership := Conflict, in_detail := FOREIGN\<rparr>)))"

text \<open>The receipt for an inspection. The error is of the \<open>String\<close> kind.\<close>

definition receipt_from :: "inspection \<Rightarrow> string + serve_receipt" where
  "receipt_from i =
     (case in_dns_name i of None \<Rightarrow> Inl ''Serve status has no DNS name'' | Some dns \<Rightarrow>
      (case in_public_origin i of None \<Rightarrow> Inl ''Serve status has no validated public origin'' | Some o' \<Rightarrow>
        Inr \<lparr>sr_dns_name = dns, sr_proxy = BACKEND, sr_https_port = 443, sr_public_origin = o'\<rparr>))"

section \<open>The command-line tool\<close>

text \<open>The tool answers a list of arguments from a state of the machine: an error of the runner (not found, not started,
  timed out, not text) or the exit status with the output. The log has the calls with their exit status.\<close>

record 'w machine =
  mc_world :: 'w
  mc_log :: "(string list \<times> bool) list"

type_synonym 'w cli = "string list \<Rightarrow> 'w \<Rightarrow> 'w \<times> (string + command_output)"

definition run_cli :: "'w cli \<Rightarrow> string list \<Rightarrow> 'w machine \<Rightarrow> 'w machine \<times> (string + command_output)" where
  "run_cli cli args m =
     (case cli args (mc_world m) of (w, r) \<Rightarrow>
        (\<lparr>mc_world = w, mc_log = mc_log m @ [(args, case r of Inl _ \<Rightarrow> False | Inr o' \<Rightarrow> co_success o')]\<rparr>, r))"

text \<open>Whether a runner's error says that the program was not found.\<close>

definition says_not_found :: "string \<Rightarrow> bool" where
  "says_not_found e \<longleftrightarrow> sublist (map to_ascii_lower (lit ''not found'')) (map to_ascii_lower (lit e))"

definition runner_error :: "string \<Rightarrow> serve_error" where
  "runner_error e = (if says_not_found e then NotInstalled else ServeFailed e)"

definition inspect_with_receipt ::
    "'w cli \<Rightarrow> (str \<Rightarrow> json option) \<Rightarrow> serve_receipt option \<Rightarrow> 'w machine \<Rightarrow> 'w machine \<times> (serve_error + inspection)" where
  "inspect_with_receipt cli from_str receipt m =
     (case run_cli cli [''version''] m of
        (m1, Inl e) \<Rightarrow> (m1, Inl (runner_error e))
      | (m1, Inr v) \<Rightarrow>
        if \<not> co_success v then (m1, Inl (ServeFailed ''Tailscale CLI version check failed''))
        else (case run_cli cli [''serve'', ''status'', ''--json''] m1 of
          (m2, Inl e) \<Rightarrow> (m2, Inl (runner_error e))
        | (m2, Inr o') \<Rightarrow>
          if \<not> co_success o' then (m2, Inl (ServeFailed ''Tailscale Serve status failed''))
          else (case from_str (co_stdout o') of
            None \<Rightarrow> (m2, Inl (ServeFailed ''Tailscale returned invalid Serve status JSON''))
          | Some v \<Rightarrow> (m2, inspection_from v receipt))))"

definition dns_name_of :: "json \<Rightarrow> string + str" where
  "dns_name_of v =
     (case (case (case json_get v (lit ''Self'') of None \<Rightarrow> None | Some x \<Rightarrow>
                   (case json_get x (lit ''DNSName'') of None \<Rightarrow> None | Some d \<Rightarrow> as_str d)) of
              Some d \<Rightarrow> Some d
            | None \<Rightarrow> (case json_get v (lit ''DNSName'') of None \<Rightarrow> None | Some d \<Rightarrow> as_str d)) of
        None \<Rightarrow> Inl ''Tailscale status has no DNS name''
      | Some raw \<Rightarrow>
        (let name = (case strip_suffix [0x2E] raw of Some n \<Rightarrow> n | None \<Rightarrow> raw) in
         if valid_dns_name name then Inr name else Inl ''Tailscale status has an invalid DNS name''))"

definition expected_dns_name :: "'w cli \<Rightarrow> (str \<Rightarrow> json option) \<Rightarrow> 'w machine \<Rightarrow> 'w machine \<times> (string + str)" where
  "expected_dns_name cli from_str m =
     (case run_cli cli [''status'', ''--json''] m of
        (m1, Inl e) \<Rightarrow> (m1, Inl e)
      | (m1, Inr o') \<Rightarrow>
        if \<not> co_success o' then (m1, Inl ''Tailscale status query failed'')
        else (case from_str (co_stdout o') of
          None \<Rightarrow> (m1, Inl ''Tailscale returned invalid status JSON'')
        | Some v \<Rightarrow> (m1, dns_name_of v)))"

definition APPLY_ARGS :: "string list" where
  "APPLY_ARGS = [''serve'', ''--bg'', ''--yes'', ''--https=443'', ''http://127.0.0.1:3847'']"

definition REMOVE_ARGS :: "string list" where
  "REMOVE_ARGS = [''serve'', ''--yes'', ''--https=443'', ''off'']"

definition plan_args :: "serve_plan \<Rightarrow> ownership \<Rightarrow> string list option" where
  "plan_args plan own =
     (if plan = Apply \<and> own = Absent then Some APPLY_ARGS
      else if plan = Remove \<and> own = Owned then Some REMOVE_ARGS
      else None)"

definition verify_plan ::
    "'w cli \<Rightarrow> (str \<Rightarrow> json option) \<Rightarrow> serve_plan \<Rightarrow> inspection \<Rightarrow> 'w machine \<Rightarrow> 'w machine \<times> (serve_error + inspection)" where
  "verify_plan cli from_str plan a m =
     (if plan = Apply
      then (case receipt_from a of
          Inl e \<Rightarrow> (m, Inl (ServeFailed e))
        | Inr candidate \<Rightarrow>
          (case inspect_with_receipt cli from_str (Some candidate) m of
             (m1, Inl e) \<Rightarrow> (m1, Inl e)
           | (m1, Inr verified) \<Rightarrow>
             if in_ownership verified = Owned then (m1, Inr verified)
             else (m1, Inl (ServeFailed ''Tailscale Serve postcondition was not an exclusive RemoteCodex rule''))))
      else if in_ownership a = Absent then (m, Inr a)
      else (m, Inl (ServeFailed ''Tailscale Serve postcondition was not met'')))"

definition serve_apply ::
    "'w cli \<Rightarrow> (str \<Rightarrow> json option) \<Rightarrow> serve_plan \<Rightarrow> inspection \<Rightarrow> 'w machine \<Rightarrow> 'w machine \<times> (serve_error + inspection)" where
  "serve_apply cli from_str plan current m =
     (case plan_args plan (in_ownership current) of
        None \<Rightarrow> (m, Inl (ServeFailed ''Serve configuration changed or is not exclusively owned by RemoteCodex''))
      | Some args \<Rightarrow>
        (case run_cli cli args m of
           (m1, Inl e) \<Rightarrow> (m1, Inl (ServeFailed e))
         | (m1, Inr o') \<Rightarrow>
           if \<not> co_success o' then (m1, Inl CommandFailed)
           else (case inspect_with_receipt cli from_str None m1 of
             (m2, Inl e) \<Rightarrow> (m2, Inl e)
           | (m2, Inr a) \<Rightarrow> verify_plan cli from_str plan a m2)))"

section \<open>What an inspection tells\<close>

text \<open>The rules of the status about port 443, whatever else it has.\<close>

definition rules_443 :: "json \<Rightarrow> (str \<times> json) list" where
  "rules_443 v = filter (\<lambda>e. suffix (lit '':443'') (fst e))
     (case json_get v (lit ''Web'') of None \<Rightarrow> [] | Some x \<Rightarrow> (case as_object x of None \<Rightarrow> [] | Some m \<Rightarrow> m))"

definition proxies_to :: "json \<Rightarrow> str \<Rightarrow> bool" where
  "proxies_to rule target \<longleftrightarrow>
     (\<exists>ro h. as_object rule = Some ro \<and> map_of ro (lit ''Handlers'') = Some (JObject [([0x2F], h)]) \<and>
        h = JObject [(lit ''Proxy'', JString target)])"

text \<open>No funnel, no foreground session, and no raw forward of port 443.\<close>

definition nothing_else :: "json \<Rightarrow> bool" where
  "nothing_else v \<longleftrightarrow>
     (\<forall>m e. json_get v (lit ''AllowFunnel'') = Some (JObject m) \<longrightarrow> e \<in> set m \<longrightarrow> snd e = JBool False) \<and>
     (\<forall>m. json_get v (lit ''Foreground'') = Some (JObject m) \<longrightarrow> m = []) \<and>
     (\<forall>t x m. json_get v (lit ''TCP'') = Some t \<longrightarrow> json_get t (lit ''443'') = Some x \<longrightarrow> as_object x = Some m \<longrightarrow>
        map_of m (lit ''TCPForward'') = None)"

lemma single_entry: "length m = 1 \<Longrightarrow> map_of m k = Some v \<Longrightarrow> m = [(k, v)]"
  by (cases m) (auto split: if_splits)

lemma as_object_Some [simp]: "as_object v = Some m \<longleftrightarrow> v = JObject m"
  by (cases v) auto

lemma as_str_Some [simp]: "as_str v = Some t \<longleftrightarrow> v = JString t"
  by (cases v) auto

lemma as_bool_Some [simp]: "as_bool v = Some b \<longleftrightarrow> v = JBool b"
  by (cases v) auto

lemma web_rule_None: "web_rule host rule = Inr None \<Longrightarrow> \<not> suffix (lit '':443'') host"
  by (auto simp: web_rule_def Let_def split: if_splits option.splits)

lemma web_rule_Some:
  assumes "web_rule host rule = Inr (Some (n, p))"
  shows "suffix (lit '':443'') host" "n = trim_443 host" "valid_dns_name n" "proxies_to rule p"
proof -
  from assms obtain ro hs h root q where
    o: "as_object rule = Some ro" "map_of ro (lit ''Handlers'') = Some (JObject hs)" "length hs = 1"
      "map_of hs [0x2F] = Some (JObject root)" "length root = 1" "map_of root (lit ''Proxy'') = Some (JString q)" "q = p"
    and n: "suffix (lit '':443'') host" "n = trim_443 host" "valid_dns_name n"
    by (fastforce simp: web_rule_def Let_def split: if_splits option.splits)
  show "suffix (lit '':443'') host" "n = trim_443 host" "valid_dns_name n" by (fact n)+
  show "proxies_to rule p"
    unfolding proxies_to_def using o single_entry [OF o(3,4)] single_entry [OF o(5,6)] by auto
qed

lemma web_rules_ok:
  "web_rules ws = Inr rs \<Longrightarrow>
   list_all2 (\<lambda>e r. fst r = trim_443 (fst e) \<and> valid_dns_name (fst r) \<and> proxies_to (snd e) (snd r))
     (filter (\<lambda>e. suffix (lit '':443'') (fst e)) ws) rs"
proof (induction ws arbitrary: rs)
  case (Cons w ws)
  obtain host rule where w: "w = (host, rule)" by (cases w)
  from Cons.prems w obtain r rs' where r: "web_rule host rule = Inr r" "web_rules ws = Inr rs'"
    "rs = (case r of None \<Rightarrow> rs' | Some x \<Rightarrow> x # rs')"
    by (auto split: sum.splits)
  note IH = Cons.IH [OF r(2)]
  show ?case
  proof (cases r)
    case None
    then show ?thesis using IH r w web_rule_None by auto
  next
    case (Some x)
    obtain n p where "x = (n, p)" by (cases x)
    then show ?thesis using IH r w Some web_rule_Some [of host rule n p] by auto
  qed
qed simp

text \<open>What a parsed status says, field by field.\<close>

lemma funnel_of_False: "funnel_of root = Inr False \<Longrightarrow> map_of root (lit ''AllowFunnel'') = Some (JObject m) \<Longrightarrow> e \<in> set m \<Longrightarrow> snd e = JBool False"
  by (cases "snd e") (auto simp: funnel_of_def list_ex_iff split: if_splits)

lemma foreground_of_False: "foreground_of root = Inr False \<Longrightarrow> map_of root (lit ''Foreground'') = Some (JObject m) \<Longrightarrow> m = []"
  by (auto simp: foreground_of_def split: if_splits)

lemma tcp443_of_forward:
  "tcp443_of root = Inr (occ, False) \<Longrightarrow> map_of root (lit ''TCP'') = Some t \<Longrightarrow> json_get t (lit ''443'') = Some (JObject m) \<Longrightarrow>
   map_of m (lit ''TCPForward'') = None \<and> (map_of m (lit ''HTTPS'') = Some (JBool True) \<longrightarrow> occ)"
  by (auto simp: tcp443_of_def split: option.splits if_splits)

definition observes :: "json \<Rightarrow> observed \<Rightarrow> bool" where
  "observes v ob \<longleftrightarrow>
     (\<not> ob_funnel ob \<longrightarrow> nothing_else v) \<and>
     (case (ob_dns_name ob, ob_proxy ob) of
        (Some dns, Some proxy) \<Rightarrow>
          (\<exists>host rule. rules_443 v = [(host, rule)] \<and> dns = trim_443 host \<and> valid_dns_name dns \<and> proxies_to rule proxy)
      | (None, None) \<Rightarrow> rules_443 v = [] \<and> (\<not> ob_occupied ob \<longrightarrow> nothing_else v)
      | _ \<Rightarrow> False)"

lemma parse_status_observes:
  assumes "parse_status v = Inr ob"
  shows "observes v ob"
proof -
  from assms obtain root where v: "v = JObject root" by (auto simp: parse_status_def split: option.splits)
  from assms v obtain fu oc fo fg where
    f: "typed_fields root = Inr ()" "funnel_of root = Inr fu" "tcp443_of root = Inr (oc, fo)" "foreground_of root = Inr fg"
    by (auto simp: parse_status_def split: sum.splits)
  have quiet: "nothing_else v" if "\<not> fu" "\<not> fo" "\<not> fg"
  proof -
    have f': "funnel_of root = Inr False" "tcp443_of root = Inr (oc, False)" "foreground_of root = Inr False"
      using f(2-4) that by simp_all
    show ?thesis unfolding nothing_else_def v json_get_def
      using funnel_of_False [OF f'(1)] foreground_of_False [OF f'(3)] tcp443_of_forward [OF f'(2)]
      by (auto simp: json_get_def split: option.splits)
  qed
  have forward: "fo \<longrightarrow> oc" using f(3) by (auto simp: tcp443_of_def split: option.splits if_splits)
  have web: "rules_443 v = filter (\<lambda>e. suffix (lit '':443'') (fst e))
      (case map_of root (lit ''Web'') of None \<Rightarrow> [] | Some x \<Rightarrow> (case as_object x of None \<Rightarrow> [] | Some m \<Rightarrow> m))"
    by (simp add: rules_443_def v json_get_def)
  show ?thesis
  proof (cases "case map_of root (lit ''Web'') of None \<Rightarrow> None | Some x \<Rightarrow> as_object x")
    case None
    then have "rules_443 v = []" unfolding web by (auto split: option.splits)
    moreover have "ob = \<lparr>ob_dns_name = None, ob_proxy = None, ob_occupied = (oc \<or> fg \<or> fu), ob_funnel = (fu \<or> fo \<or> fg)\<rparr>"
      using assms v f None by (simp add: parse_status_def Let_def)
    ultimately show ?thesis using quiet forward by (auto simp: observes_def)
  next
    case (Some ws)
    then have w: "rules_443 v = filter (\<lambda>e. suffix (lit '':443'') (fst e)) ws" unfolding web by (auto split: option.splits)
    from assms v f Some obtain rs where rs: "web_rules ws = Inr rs" "\<not> (length rs > 1 \<or> rs \<noteq> [] \<and> \<not> oc)"
      by (auto simp: parse_status_def Let_def split: sum.splits if_splits)
    note l = web_rules_ok [OF rs(1), folded w]
    show ?thesis
    proof (cases rs)
      case Nil
      then have "rules_443 v = []" using l by simp
      moreover have "ob = \<lparr>ob_dns_name = None, ob_proxy = None, ob_occupied = (oc \<or> fg \<or> fu), ob_funnel = (fu \<or> fo \<or> fg)\<rparr>"
        using assms v f Some rs Nil by (simp add: parse_status_def Let_def)
      ultimately show ?thesis using quiet forward by (auto simp: observes_def)
    next
      case (Cons r rest)
      then have "rest = []" using rs(2) by auto
      obtain n q where r: "r = (n, q)" by (cases r)
      with Cons \<open>rest = []\<close> l obtain host rule where
        "rules_443 v = [(host, rule)]" "n = trim_443 host" "valid_dns_name n" "proxies_to rule q"
        by (auto simp: list_all2_Cons2)
      moreover have "ob = \<lparr>ob_dns_name = Some n, ob_proxy = Some q, ob_occupied = True, ob_funnel = (fu \<or> fo \<or> fg)\<rparr>"
        using assms v f Some rs Cons r by (simp add: parse_status_def Let_def)
      ultimately show ?thesis using quiet by (auto simp: observes_def)
    qed
  qed
qed

text \<open>An inspection never takes a foreign rule for ours or for none.\<close>

lemma inspection_sound:
  assumes "inspection_from v receipt = Inr i"
  shows "in_ownership i = Owned \<Longrightarrow> \<exists>r host rule. receipt = Some r \<and> rules_443 v = [(host, rule)] \<and> trim_443 host = sr_dns_name r \<and>
      proxies_to rule BACKEND \<and> sr_public_origin r = lit ''https://'' @ sr_dns_name r \<and> nothing_else v \<and>
      in_dns_name i = Some (sr_dns_name r) \<and> in_public_origin i = Some (sr_public_origin r)"
    "in_ownership i = Absent \<Longrightarrow> rules_443 v = [] \<and> nothing_else v"
proof -
  from assms obtain ob where ob: "parse_status v = Inr ob" by (auto simp: inspection_from_def split: sum.splits)
  note obs = parse_status_observes [OF ob, unfolded observes_def]
  show "\<exists>r host rule. receipt = Some r \<and> rules_443 v = [(host, rule)] \<and> trim_443 host = sr_dns_name r \<and>
      proxies_to rule BACKEND \<and> sr_public_origin r = lit ''https://'' @ sr_dns_name r \<and> nothing_else v \<and>
      in_dns_name i = Some (sr_dns_name r) \<and> in_public_origin i = Some (sr_public_origin r)"
    if own: "in_ownership i = Owned"
  proof -
    from assms ob own obtain dns proxy r where
      d: "ob_dns_name ob = Some dns" "ob_proxy ob = Some proxy" "\<not> ob_funnel ob" "receipt = Some r" "receipt_matches r dns proxy"
        "in_dns_name i = Some dns" "in_public_origin i = serve_origin dns"
      by (auto simp: inspection_from_def unused_inspection_def Let_def split: if_splits option.splits)
    with obs obtain host rule where h: "rules_443 v = [(host, rule)]" "dns = trim_443 host" "valid_dns_name dns"
      "proxies_to rule proxy" "nothing_else v" by auto
    then have "serve_origin dns = Some (lit ''https://'' @ dns)" by (simp add: serve_origin_def)
    then show ?thesis using d h by (auto simp: receipt_matches_def)
  qed
  show "rules_443 v = [] \<and> nothing_else v" if own: "in_ownership i = Absent"
  proof -
    have "\<not> ob_occupied ob"
      using assms ob own by (auto simp: inspection_from_def unused_inspection_def Let_def split: if_splits option.splits)
    moreover from this have "ob_dns_name ob = None" "ob_proxy ob = None"
      using ob by (auto simp: parse_status_def Let_def split: option.splits sum.splits if_splits list.splits)
    ultimately show ?thesis using obs by simp
  qed
qed

text \<open>The verified inspection of a receipt made from another inspection gives that receipt's name and origin.\<close>

lemma inspect_runs:
  assumes "inspect_with_receipt cli from_str receipt m = (m', Inr i)"
  shows "\<exists>v. inspection_from v receipt = Inr i"
    "mc_log m' = mc_log m @ [([''version''], True), ([''serve'', ''status'', ''--json''], True)]"
  using assms by (auto simp: inspect_with_receipt_def run_cli_def split: prod.splits sum.splits if_splits option.splits)

text \<open>The calls of an inspection: queries only.\<close>

definition query :: "string list \<Rightarrow> bool" where
  "query args \<longleftrightarrow> args = [''version''] \<or> args = [''serve'', ''status'', ''--json''] \<or> args = [''status'', ''--json'']"

lemma inspect_queries:
  "inspect_with_receipt cli from_str receipt m = (m', r) \<Longrightarrow> \<exists>l. mc_log m' = mc_log m @ l \<and> (\<forall>e \<in> set l. query (fst e))"
  by (auto simp: inspect_with_receipt_def run_cli_def query_def split: prod.splits sum.splits if_splits option.splits)

lemma plan_args_cases:
  assumes "plan_args plan own = Some args"
  shows "plan = Apply \<and> own = Absent \<and> args = APPLY_ARGS \<or> plan = Remove \<and> own = Owned \<and> args = REMOVE_ARGS"
  using assms by (auto simp: plan_args_def split: if_splits)

lemma not_query [simp]: "\<not> query APPLY_ARGS" "\<not> query REMOVE_ARGS"
  by (simp_all add: query_def APPLY_ARGS_def REMOVE_ARGS_def)

lemma verify_plan_queries:
  "verify_plan cli from_str plan a m = (m', r) \<Longrightarrow> \<exists>l. mc_log m' = mc_log m @ l \<and> (\<forall>e \<in> set l. query (fst e))"
  using inspect_queries [of cli from_str _ m]
  by (fastforce simp: verify_plan_def split: prod.splits sum.splits if_splits)

text \<open>\<open>CommandFailed\<close> is no error of an inspection.\<close>

lemma parse_part_errors:
  "typed_fields root = Inl e \<Longrightarrow> e \<noteq> CommandFailed" "funnel_of root = Inl e \<Longrightarrow> e \<noteq> CommandFailed"
  "tcp443_of root = Inl e \<Longrightarrow> e \<noteq> CommandFailed" "foreground_of root = Inl e \<Longrightarrow> e \<noteq> CommandFailed"
  "web_rule host rule = Inl e \<Longrightarrow> e \<noteq> CommandFailed"
  by (auto simp: typed_fields_def funnel_of_def tcp443_of_def foreground_of_def web_rule_def Let_def
      split: option.splits if_splits)

lemma web_rules_error: "web_rules ws = Inl e \<Longrightarrow> e \<noteq> CommandFailed"
  by (induction ws rule: web_rules.induct) (auto dest: parse_part_errors(5) split: sum.splits)

lemma parse_status_error: "parse_status v = Inl e \<Longrightarrow> e \<noteq> CommandFailed"
  by (auto simp: parse_status_def Let_def dest: parse_part_errors web_rules_error
      split: option.splits sum.splits prod.splits if_splits list.splits)

lemma inspection_error: "inspection_from v c = Inl e \<Longrightarrow> e \<noteq> CommandFailed"
  by (auto simp: inspection_from_def Let_def dest: parse_status_error split: sum.splits if_splits option.splits)

lemma inspect_error: "inspect_with_receipt cli from_str c m = (m', Inl e) \<Longrightarrow> e \<noteq> CommandFailed"
  by (auto simp: inspect_with_receipt_def runner_error_def dest: inspection_error
      split: prod.splits sum.splits if_splits option.splits)

lemma verify_plan_error: "verify_plan cli from_str plan a m = (m', Inl e) \<Longrightarrow> e \<noteq> CommandFailed"
  by (auto simp: verify_plan_def dest: inspect_error split: prod.splits sum.splits if_splits)

text \<open>A change runs at most one command that is not a query, the one of its plan; it fails with
  \<open>CommandFailed\<close> only when that command did.\<close>

lemma serve_apply_log:
  assumes "serve_apply cli from_str plan current m = (m', r)"
  shows "\<exists>l. mc_log m' = mc_log m @ l \<and> (\<forall>e \<in> set l. query (fst e) \<or> plan_args plan (in_ownership current) = Some (fst e)) \<and>
      (r = Inl CommandFailed \<longrightarrow> (\<forall>e \<in> set l. snd e \<longrightarrow> query (fst e)))"
proof (cases "plan_args plan (in_ownership current)")
  case None
  then show ?thesis using assms by (auto simp: serve_apply_def)
next
  case (Some args)
  obtain m1 q where q: "run_cli cli args m = (m1, q)" by (cases "run_cli cli args m")
  then have l1: "mc_log m1 = mc_log m @ [(args, case q of Inl _ \<Rightarrow> False | Inr o' \<Rightarrow> co_success o')]"
    by (auto simp: run_cli_def split: prod.splits)
  consider e where "q = Inl e" | o' where "q = Inr o'" "\<not> co_success o'" | o' where "q = Inr o'" "co_success o'"
    by (cases q) auto
  then show ?thesis
  proof cases
    case 1
    then show ?thesis using assms Some q l1 by (auto simp: serve_apply_def)
  next
    case 2
    then show ?thesis using assms Some q l1 by (auto simp: serve_apply_def)
  next
    case 3
    obtain m2 a where a: "inspect_with_receipt cli from_str None m1 = (m2, a)"
      by (cases "inspect_with_receipt cli from_str None m1")
    from inspect_queries [OF a] obtain l2 where l2: "mc_log m2 = mc_log m1 @ l2" "\<forall>e \<in> set l2. query (fst e)" by blast
    show ?thesis
    proof (cases a)
      case (Inl e)
      then show ?thesis using assms Some q l1 l2 3 a inspect_error by (fastforce simp: serve_apply_def)
    next
      case (Inr i)
      with assms Some q 3 a have v: "verify_plan cli from_str plan i m2 = (m', r)" by (simp add: serve_apply_def)
      from verify_plan_queries [OF v] l1 l2 verify_plan_error [of cli from_str plan i m2] v show ?thesis using Some by auto
    qed
  qed
qed


definition quiet_cli :: "unit cli" where
  "quiet_cli args w = (w, Inr \<lparr>co_success = False, co_stdout = []\<rparr>)"


end
