(* ===== verification/Serve_Settings.thy ===== *)
theory Serve_Settings
  imports Tailscale
begin

text \<open>
  The settings transactions of \<open>apps/desktop/src-tauri/src/main.rs\<close> over Tailscale Serve: \<open>set_tailscale_serve\<close>,
  the recovery in \<open>tailscale_status\<close>, and \<open>uninstall_cleanup\<close>. The state has the machine with its Serve
  configuration and the three files: the journal of a pending change, the receipt of the last one, and the
  public origin in the agent's configuration.

  Every access to a file and every use of the tool is a point where the operation may fail or the process may
  be killed (a crash between the calls of one use shows at the next point); the points are driven by a list of faults, so that a run with any list is an execution with
  crashes at arbitrary places. Files are replaced by renaming, so a write happens as a whole or not at all.
\<close>

section \<open>Execution with faults\<close>

datatype fault = Good | IoError | Crash

record 'w desk =
  dk_machine :: "'w machine"
  dk_pending :: "pending_serve option"
  dk_receipt :: "serve_receipt option"
  dk_origin :: "str option"
  dk_faults :: "fault list"

datatype 'a outcome = Crashed | Failed string | Done 'a

type_synonym ('w, 'a) act = "'w desk \<Rightarrow> 'w desk \<times> 'a outcome"

definition ret :: "'a \<Rightarrow> ('w, 'a) act" where
  "ret v s = (s, Done v)"

definition fail :: "string \<Rightarrow> ('w, 'a) act" where
  "fail e s = (s, Failed e)"

definition andthen :: "('w, 'a) act \<Rightarrow> ('a \<Rightarrow> ('w, 'b) act) \<Rightarrow> ('w, 'b) act" where
  "andthen m k s =
     (case m s of (t, Done v) \<Rightarrow> k v t | (t, Failed e) \<Rightarrow> (t, Failed e) | (t, Crashed) \<Rightarrow> (t, Crashed))"

definition point :: "('w, 'a) act \<Rightarrow> ('w, 'a) act" where
  "point f s =
     (case dk_faults s of
        [] \<Rightarrow> f s
      | Good # r \<Rightarrow> f (s\<lparr>dk_faults := r\<rparr>)
      | IoError # r \<Rightarrow> (s\<lparr>dk_faults := r\<rparr>, Failed ''I/O error'')
      | Crash # r \<Rightarrow> (s\<lparr>dk_faults := r\<rparr>, Crashed))"

section \<open>Files\<close>

definition load_pending :: "('w, pending_serve option) act" where
  "load_pending = point (\<lambda>s. (s, Done (dk_pending s)))"

definition load_receipt :: "('w, serve_receipt option) act" where
  "load_receipt = point (\<lambda>s. (s, Done (dk_receipt s)))"

definition write_pending :: "pending_serve \<Rightarrow> ('w, unit) act" where
  "write_pending p = point (\<lambda>s. (s\<lparr>dk_pending := Some p\<rparr>, Done ()))"

definition remove_pending :: "('w, unit) act" where
  "remove_pending = point (\<lambda>s. (s\<lparr>dk_pending := None\<rparr>, Done ()))"

definition write_receipt :: "serve_receipt \<Rightarrow> ('w, unit) act" where
  "write_receipt r = point (\<lambda>s. (s\<lparr>dk_receipt := Some r\<rparr>, Done ()))"

definition remove_receipt :: "('w, unit) act" where
  "remove_receipt = point (\<lambda>s. (s\<lparr>dk_receipt := None\<rparr>, Done ()))"

definition origin_valid :: "str \<Rightarrow> bool" where
  "origin_valid o' =
     (case strip_prefix (lit ''https://'') o' of None \<Rightarrow> False | Some host \<Rightarrow> serve_origin host = Some o')"

definition update_public_origin :: "str option \<Rightarrow> ('w, unit) act" where
  "update_public_origin origin =
     point (\<lambda>s. if (case origin of None \<Rightarrow> True | Some o' \<Rightarrow> origin_valid o')
                then (s\<lparr>dk_origin := origin\<rparr>, Done ()) else (s, Failed ''Invalid public_origin''))"

definition read_public_origin :: "('w, str option) act" where
  "read_public_origin =
     point (\<lambda>s. case dk_origin s of
        None \<Rightarrow> (s, Done None)
      | Some o' \<Rightarrow> if origin_valid o' then (s, Done (Some o')) else (s, Failed ''Agent public_origin is invalid''))"

definition preflight_config :: "('w, unit) act" where
  "preflight_config = point (ret ())"

section \<open>Calls of the tool\<close>

record 'w tools =
  tl_cli :: "'w cli"
  tl_from_str :: "str \<Rightarrow> json option"

definition inspect_now :: "'w tools \<Rightarrow> serve_receipt option \<Rightarrow> ('w, serve_error + inspection) act" where
  "inspect_now T receipt =
     point (\<lambda>s. case inspect_with_receipt (tl_cli T) (tl_from_str T) receipt (dk_machine s) of
        (m, r) \<Rightarrow> (s\<lparr>dk_machine := m\<rparr>, Done r))"

definition expected_name_now :: "'w tools \<Rightarrow> ('w, str) act" where
  "expected_name_now T =
     point (\<lambda>s. case expected_dns_name (tl_cli T) (tl_from_str T) (dk_machine s) of
        (m, Inl e) \<Rightarrow> (s\<lparr>dk_machine := m\<rparr>, Failed e)
      | (m, Inr n) \<Rightarrow> (s\<lparr>dk_machine := m\<rparr>, Done n))"

definition apply_now :: "'w tools \<Rightarrow> serve_plan \<Rightarrow> inspection \<Rightarrow> ('w, serve_error + inspection) act" where
  "apply_now T plan current =
     point (\<lambda>s. case serve_apply (tl_cli T) (tl_from_str T) plan current (dk_machine s) of
        (m, r) \<Rightarrow> (s\<lparr>dk_machine := m\<rparr>, Done r))"

text \<open>\<open>Display\<close> of an error.\<close>

fun serve_error_text :: "serve_error \<Rightarrow> string" where
  "serve_error_text NotInstalled = ''Tailscale CLI is not installed''"
| "serve_error_text CommandFailed = ''Tailscale Serve command failed''"
| "serve_error_text (ServeFailed e) = e"

section \<open>Changing the setting\<close>

text \<open>The origin the running agent reports, \<open>None\<close> when it does not answer.\<close>

definition with_restart :: "str option \<Rightarrow> inspection \<Rightarrow> ('w, inspection) act" where
  "with_restart running i =
     andthen read_public_origin (\<lambda>stored. ret (i\<lparr>in_restart_required := (stored \<noteq> running)\<rparr>))"

definition pending_of :: "bool \<Rightarrow> serve_receipt option \<Rightarrow> str option \<Rightarrow> pending_serve" where
  "pending_of enabled receipt dns = \<lparr>pd_enabled = enabled, pd_receipt = receipt, pd_dns_name = dns, pd_proxy = BACKEND\<rparr>"

definition record_enabled :: "str option \<Rightarrow> str \<Rightarrow> inspection \<Rightarrow> serve_receipt \<Rightarrow> ('w, inspection) act" where
  "record_enabled running dns after rc =
     andthen (write_pending (pending_of True (Some rc) (Some dns))) (\<lambda>_.
     andthen (write_receipt rc) (\<lambda>_.
     andthen (update_public_origin (in_public_origin after)) (\<lambda>_.
     andthen remove_pending (\<lambda>_. with_restart running after))))"

definition record_disabled :: "str option \<Rightarrow> inspection \<Rightarrow> ('w, inspection) act" where
  "record_disabled running after =
     andthen remove_receipt (\<lambda>_.
     andthen (update_public_origin None) (\<lambda>_.
     andthen remove_pending (\<lambda>_. with_restart running after)))"

text \<open>The answer of a change: the journal is dropped only when the command itself reported failure.\<close>

definition on_applied :: "serve_error + inspection \<Rightarrow> (inspection \<Rightarrow> ('w, inspection) act) \<Rightarrow> ('w, inspection) act" where
  "on_applied r k =
     (case r of
        Inl e \<Rightarrow> if e = CommandFailed then andthen remove_pending (\<lambda>_. fail (serve_error_text CommandFailed))
                 else fail (serve_error_text e)
      | Inr after \<Rightarrow> k after)"

definition enable_serve :: "'w tools \<Rightarrow> str option \<Rightarrow> inspection \<Rightarrow> ('w, inspection) act" where
  "enable_serve T running current =
     andthen (expected_name_now T) (\<lambda>dns.
     andthen (write_pending (pending_of True None (Some dns))) (\<lambda>_.
     andthen (apply_now T Apply current) (\<lambda>r.
       on_applied r (\<lambda>after.
         case receipt_from after of Inl e \<Rightarrow> fail e | Inr rc \<Rightarrow> record_enabled running dns after rc))))"

definition disable_serve :: "'w tools \<Rightarrow> str option \<Rightarrow> serve_receipt option \<Rightarrow> inspection \<Rightarrow> ('w, inspection) act" where
  "disable_serve T running receipt current =
     (if in_ownership current \<noteq> Owned \<or> receipt = None
      then fail ''Only a matching RemoteCodex Serve receipt can be removed''
      else
        andthen (write_pending (pending_of False receipt (in_dns_name current))) (\<lambda>_.
        andthen (apply_now T Remove current) (\<lambda>r. on_applied r (record_disabled running))))"

text \<open>\<open>abandoned\<close>: the previous holder of the lock died with it. The journal is then read once more.\<close>

definition abandoned_check :: "bool \<Rightarrow> ('w, unit) act" where
  "abandoned_check abandoned =
     (if \<not> abandoned then ret ()
      else andthen load_pending (\<lambda>pending.
        if pending = None then fail ''A previous settings transaction was interrupted without a recovery journal'' else ret ()))"

definition set_tailscale_serve :: "'w tools \<Rightarrow> str option \<Rightarrow> bool \<Rightarrow> bool \<Rightarrow> bool \<Rightarrow> ('w, inspection) act" where
  "set_tailscale_serve T running abandoned enabled consent =
     (if \<not> consent then fail ''Explicit consent is required''
      else
        andthen preflight_config (\<lambda>_.
        andthen (abandoned_check abandoned) (\<lambda>_.
        andthen load_pending (\<lambda>pending.
          if pending \<noteq> None
          then fail ''A previous settings transaction requires recovery before a new change''
          else
            andthen load_receipt (\<lambda>receipt.
            andthen (inspect_now T receipt) (\<lambda>r.
              case r of
                Inl e \<Rightarrow> fail (serve_error_text e)
              | Inr current \<Rightarrow>
                if enabled \<and> in_ownership current \<noteq> Absent then fail ''Serve 443 is not exclusively unused''
                else if enabled then enable_serve T running current
                else disable_serve T running receipt current))))))"

section \<open>Status and recovery\<close>

definition recovery_candidate :: "pending_serve \<Rightarrow> inspection \<Rightarrow> serve_receipt option" where
  "recovery_candidate p value =
     (case pd_receipt p of
        Some r \<Rightarrow> Some r
      | None \<Rightarrow>
        if in_proxy value = Some (pd_proxy p) \<and> in_dns_name value = pd_dns_name p
        then (case receipt_from value of Inl _ \<Rightarrow> None | Inr r \<Rightarrow> Some r)
        else None)"

definition recover :: "'w tools \<Rightarrow> pending_serve \<Rightarrow> inspection \<Rightarrow> ('w, inspection) act" where
  "recover T p value =
     (if pd_enabled p
      then (case recovery_candidate p value of
          None \<Rightarrow> ret value
        | Some candidate \<Rightarrow>
          andthen (inspect_now T (Some candidate)) (\<lambda>r.
            case r of
              Inl e \<Rightarrow> fail (serve_error_text e)
            | Inr verified \<Rightarrow>
              if in_ownership verified = Owned
              then andthen (write_receipt candidate) (\<lambda>_.
                   andthen (update_public_origin (in_public_origin verified)) (\<lambda>_.
                   andthen remove_pending (\<lambda>_. ret verified)))
              else ret value))
      else if in_ownership value = Absent
      then andthen remove_receipt (\<lambda>_.
           andthen (update_public_origin None) (\<lambda>_.
           andthen remove_pending (\<lambda>_. ret value)))
      else ret value)"

definition on_status ::
    "'w tools \<Rightarrow> str option \<Rightarrow> pending_serve option \<Rightarrow> serve_error + inspection \<Rightarrow> ('w, inspection) act" where
  "on_status T running pending r =
     (case r of
        Inl e \<Rightarrow> if e = NotInstalled then ret not_installed else fail (serve_error_text e)
      | Inr value \<Rightarrow> andthen (case pending of None \<Rightarrow> ret value | Some p \<Rightarrow> recover T p value) (with_restart running))"

definition tailscale_status :: "'w tools \<Rightarrow> str option \<Rightarrow> bool \<Rightarrow> ('w, inspection) act" where
  "tailscale_status T running abandoned =
     andthen load_receipt (\<lambda>receipt.
     andthen load_pending (\<lambda>pending.
       if abandoned \<and> pending = None
       then fail ''A previous settings transaction was interrupted without a recovery journal''
       else
         andthen (inspect_now T receipt) (on_status T running pending)))"

section \<open>Uninstalling\<close>

datatype autostart = AutoDisabled | AutoEnabled | AutoConflict

definition clear_files :: "('w, unit) act" where
  "clear_files = andthen remove_receipt (\<lambda>_. andthen (update_public_origin None) (\<lambda>_. remove_pending))"

definition uninstall_serve :: "'w tools \<Rightarrow> serve_receipt option \<Rightarrow> inspection option \<Rightarrow> ('w, unit) act" where
  "uninstall_serve T receipt current =
     (case (current, receipt) of
        (Some cur, Some matching) \<Rightarrow>
          andthen preflight_config (\<lambda>_.
            if in_ownership cur = Owned then
              andthen (write_pending \<lparr>pd_enabled = False, pd_receipt = Some matching,
                 pd_dns_name = Some (sr_dns_name matching), pd_proxy = sr_proxy matching\<rparr>) (\<lambda>_.
              andthen (apply_now T Remove cur) (\<lambda>r.
                case r of
                  Inl e \<Rightarrow> fail (serve_error_text e)
                | Inr after \<Rightarrow>
                  if in_ownership after \<noteq> Absent then fail ''Owned Serve rule did not clear'' else clear_files))
            else if in_ownership cur = Absent then clear_files
            else fail ''Serve ownership could not be verified'')
      | (None, Some _) \<Rightarrow> fail ''Serve ownership could not be verified''
      | (_, None) \<Rightarrow> ret ())"

definition uninstall_cleanup :: "'w tools \<Rightarrow> bool \<Rightarrow> autostart \<Rightarrow> ('w, autostart) act" where
  "uninstall_cleanup T abandoned auto =
     (if auto = AutoConflict then fail ''A foreign autostart value is present''
      else
        andthen (abandoned_check abandoned) (\<lambda>_.
        andthen load_pending (\<lambda>pending.
          if pending \<noteq> None
          then fail ''A pending Serve transaction requires recovery before uninstall cleanup''
          else
            andthen load_receipt (\<lambda>receipt.
            andthen (inspect_now T receipt) (\<lambda>r.
              case (case r of Inr value \<Rightarrow> Inr (Some value)
                      | Inl e \<Rightarrow> if e = NotInstalled \<and> receipt = None then Inr None else Inl e) of
                Inl e \<Rightarrow> fail (serve_error_text e)
              | Inr current \<Rightarrow>
                andthen (uninstall_serve T receipt current) (\<lambda>_.
                  if auto = AutoEnabled then point (ret AutoDisabled) else ret auto))))))"

section \<open>Reasoning about crashes\<close>

text \<open>A run of \<open>m\<close> from \<open>s\<close> that returns a value ends in \<open>R\<close>, and one that fails or is killed ends in \<open>Q\<close>.\<close>

definition wp :: "('w, 'a) act \<Rightarrow> ('a \<Rightarrow> 'w desk \<Rightarrow> bool) \<Rightarrow> ('w desk \<Rightarrow> bool) \<Rightarrow> 'w desk \<Rightarrow> bool" where
  "wp m R Q s \<longleftrightarrow> (case m s of (t, Done v) \<Rightarrow> R v t | (t, _) \<Rightarrow> Q t)"

named_theorems wp_rules

lemma wp_ret [simp]: "wp (ret v) R Q s = R v s"
  by (simp add: wp_def ret_def)

lemma wp_fail [simp]: "wp (fail e) R Q s = Q s"
  by (simp add: wp_def fail_def)

lemma wp_andthen [simp]: "wp (andthen m k) R Q s = wp m (\<lambda>v. wp (k v) R Q) Q s"
  by (auto simp: wp_def andthen_def split: prod.split outcome.split)

lemma wp_mono: "wp m R Q s \<Longrightarrow> (\<And>v t. R v t \<Longrightarrow> R' v t) \<Longrightarrow> (\<And>t. Q t \<Longrightarrow> Q' t) \<Longrightarrow> wp m R' Q' s"
  by (auto simp: wp_def split: prod.splits outcome.splits)

lemma wp_point:
  assumes "\<And>r. wp f R Q (s\<lparr>dk_faults := r\<rparr>)" "\<And>r. Q (s\<lparr>dk_faults := r\<rparr>)"
  shows "wp (point f) R Q s"
proof -
  have s: "s\<lparr>dk_faults := dk_faults s\<rparr> = s" by simp
  then have "wp f R Q s" using assms(1) [of "dk_faults s"] by simp
  then show ?thesis using assms
    by (auto simp: wp_def point_def split: list.split fault.split)
qed

lemma wp_files [wp_rules]:
  "(\<And>r. R (dk_pending s) (s\<lparr>dk_faults := r\<rparr>)) \<Longrightarrow> (\<And>r. Q (s\<lparr>dk_faults := r\<rparr>)) \<Longrightarrow> wp load_pending R Q s"
  "(\<And>r. R2 (dk_receipt s) (s\<lparr>dk_faults := r\<rparr>)) \<Longrightarrow> (\<And>r. Q (s\<lparr>dk_faults := r\<rparr>)) \<Longrightarrow> wp load_receipt R2 Q s"
  "(\<And>r. U () (s\<lparr>dk_faults := r, dk_pending := Some p\<rparr>)) \<Longrightarrow> (\<And>r. Q (s\<lparr>dk_faults := r\<rparr>)) \<Longrightarrow> wp (write_pending p) U Q s"
  "(\<And>r. U () (s\<lparr>dk_faults := r, dk_pending := None\<rparr>)) \<Longrightarrow> (\<And>r. Q (s\<lparr>dk_faults := r\<rparr>)) \<Longrightarrow> wp remove_pending U Q s"
  "(\<And>r. U () (s\<lparr>dk_faults := r, dk_receipt := Some c\<rparr>)) \<Longrightarrow> (\<And>r. Q (s\<lparr>dk_faults := r\<rparr>)) \<Longrightarrow> wp (write_receipt c) U Q s"
  "(\<And>r. U () (s\<lparr>dk_faults := r, dk_receipt := None\<rparr>)) \<Longrightarrow> (\<And>r. Q (s\<lparr>dk_faults := r\<rparr>)) \<Longrightarrow> wp remove_receipt U Q s"
  "(\<And>r. U () (s\<lparr>dk_faults := r\<rparr>)) \<Longrightarrow> (\<And>r. Q (s\<lparr>dk_faults := r\<rparr>)) \<Longrightarrow> wp preflight_config U Q s"
  "(\<And>r. U () (s\<lparr>dk_faults := r, dk_origin := og\<rparr>)) \<Longrightarrow> (\<And>r. Q (s\<lparr>dk_faults := r\<rparr>)) \<Longrightarrow> wp (update_public_origin og) U Q s"
  "(\<And>r. R3 (dk_origin s) (s\<lparr>dk_faults := r\<rparr>)) \<Longrightarrow> (\<And>r. Q (s\<lparr>dk_faults := r\<rparr>)) \<Longrightarrow> wp read_public_origin R3 Q s"
  unfolding load_pending_def load_receipt_def write_pending_def remove_pending_def write_receipt_def remove_receipt_def
    preflight_config_def update_public_origin_def read_public_origin_def
  by (rule wp_point; auto simp: wp_def ret_def split: option.split)+

lemma wp_tools [wp_rules]:
  "(\<And>r m x. inspect_with_receipt (tl_cli T) (tl_from_str T) c (dk_machine s) = (m, x) \<Longrightarrow> R x (s\<lparr>dk_faults := r, dk_machine := m\<rparr>)) \<Longrightarrow>
   (\<And>r. Q (s\<lparr>dk_faults := r\<rparr>)) \<Longrightarrow> wp (inspect_now T c) R Q s"
  "(\<And>r m x. serve_apply (tl_cli T) (tl_from_str T) plan cur (dk_machine s) = (m, x) \<Longrightarrow> R x (s\<lparr>dk_faults := r, dk_machine := m\<rparr>)) \<Longrightarrow>
   (\<And>r. Q (s\<lparr>dk_faults := r\<rparr>)) \<Longrightarrow> wp (apply_now T plan cur) R Q s"
  "(\<And>r m x. expected_dns_name (tl_cli T) (tl_from_str T) (dk_machine s) = (m, Inr x) \<Longrightarrow> N x (s\<lparr>dk_faults := r, dk_machine := m\<rparr>)) \<Longrightarrow>
   (\<And>r m x. expected_dns_name (tl_cli T) (tl_from_str T) (dk_machine s) = (m, Inl x) \<Longrightarrow> Q (s\<lparr>dk_faults := r, dk_machine := m\<rparr>)) \<Longrightarrow>
   (\<And>r. Q (s\<lparr>dk_faults := r\<rparr>)) \<Longrightarrow> wp (expected_name_now T) N Q s"
  unfolding inspect_now_def apply_now_def expected_name_now_def
  by (rule wp_point; auto simp: wp_def split: prod.split sum.split)+

lemma wp_abandoned [wp_rules]:
  "(\<And>r. U () (s\<lparr>dk_faults := r\<rparr>)) \<Longrightarrow> U () s \<Longrightarrow> (\<And>r. Q (s\<lparr>dk_faults := r\<rparr>)) \<Longrightarrow> wp (abandoned_check abandoned) U Q s"
  by (auto simp: abandoned_check_def intro!: wp_rules)

section \<open>The receipt and the origin agree\<close>

definition files_agree :: "'w desk \<Rightarrow> bool" where
  "files_agree s \<longleftrightarrow> dk_origin s = map_option sr_public_origin (dk_receipt s)"

definition consistent :: "'w desk \<Rightarrow> bool" where
  "consistent s \<longleftrightarrow> dk_pending s \<noteq> None \<or> files_agree s"

abbreviation crash_safe :: "('w, 'a) act \<Rightarrow> 'w desk \<Rightarrow> bool" where
  "crash_safe m s \<equiv> wp m (\<lambda>_. consistent) consistent s"

lemma consistent_frame [simp]:
  "consistent (s\<lparr>dk_faults := r\<rparr>) = consistent s" "consistent (s\<lparr>dk_machine := m\<rparr>) = consistent s"
  "files_agree (s\<lparr>dk_faults := r\<rparr>) = files_agree s" "files_agree (s\<lparr>dk_machine := m\<rparr>) = files_agree s"
  "files_agree (s\<lparr>dk_pending := p\<rparr>) = files_agree s"
  by (simp_all add: consistent_def files_agree_def)

lemma with_restart_safe: "consistent s \<Longrightarrow> crash_safe (with_restart running i) s"
  unfolding with_restart_def by (simp, intro wp_rules) simp_all

lemma receipt_from_origin: "receipt_from i = Inr rc \<Longrightarrow> in_public_origin i = Some (sr_public_origin rc)"
  by (auto simp: receipt_from_def split: option.splits)

lemma record_enabled_safe:
  assumes "dk_pending s \<noteq> None" "receipt_from after = Inr rc"
  shows "crash_safe (record_enabled running dns after rc) s"
  using assms unfolding record_enabled_def wp_andthen
  by (intro wp_rules with_restart_safe) (auto simp: consistent_def files_agree_def receipt_from_origin)

lemma record_disabled_safe:
  assumes "dk_pending s \<noteq> None"
  shows "crash_safe (record_disabled running after) s"
  using assms unfolding record_disabled_def wp_andthen
  by (intro wp_rules with_restart_safe) (auto simp: consistent_def files_agree_def)

lemma on_applied_safe:
  assumes "dk_pending s \<noteq> None" "files_agree s" "\<And>after. crash_safe (k after) s"
  shows "crash_safe (on_applied r k) s"
  using assms unfolding on_applied_def
  by (cases r) (auto simp: consistent_def files_agree_def intro!: wp_rules)

lemma enable_serve_safe:
  assumes "files_agree s"
  shows "crash_safe (enable_serve T running current) s"
proof -
  have "crash_safe (case receipt_from after of Inl e \<Rightarrow> fail e | Inr rc \<Rightarrow> record_enabled running dns after rc) t"
    if "dk_pending t \<noteq> None" for after dns and t :: "'a desk"
    using that record_enabled_safe [OF that] by (simp add: consistent_def split: sum.split)
  then show ?thesis unfolding enable_serve_def wp_andthen
    by (intro wp_rules on_applied_safe) (use assms in \<open>simp_all add: consistent_def files_agree_def\<close>)
qed

lemma disable_serve_safe:
  assumes "files_agree s"
  shows "crash_safe (disable_serve T running receipt current) s"
proof (cases "in_ownership current \<noteq> Owned \<or> receipt = None")
  case False
  then show ?thesis unfolding disable_serve_def if_not_P [OF False] wp_andthen
    by (intro wp_rules on_applied_safe record_disabled_safe) (use assms in \<open>simp_all add: consistent_def files_agree_def\<close>)
qed (use assms in \<open>simp add: disable_serve_def consistent_def\<close>)

lemma set_tailscale_serve_safe:
  assumes "consistent s"
  shows "crash_safe (set_tailscale_serve T running abandoned enabled consent) s"
proof (cases "consent \<and> dk_pending s = None")
  case True
  then have agree: "files_agree s" using assms by (simp add: consistent_def)
  then have "crash_safe (enable_serve T running c) (s\<lparr>dk_faults := r, dk_machine := m\<rparr>)"
    "crash_safe (disable_serve T running q c) (s\<lparr>dk_faults := r, dk_machine := m\<rparr>)" for c q r m
    by (auto intro!: enable_serve_safe disable_serve_safe)
  then show ?thesis using True assms agree
    unfolding set_tailscale_serve_def
    by (simp only: if_False simp_thms wp_andthen) (intro wp_rules; auto intro!: wp_rules split: sum.split)
next
  case False
  then show ?thesis using assms
    by (cases consent) (auto simp: set_tailscale_serve_def intro!: wp_rules)
qed

lemma recover_safe:
  assumes "dk_pending s \<noteq> None"
  shows "crash_safe (recover T p value) s"
proof (cases "pd_enabled p")
  case True
  show ?thesis
  proof (cases "recovery_candidate p value")
    case None
    then show ?thesis using assms True by (simp add: recover_def consistent_def)
  next
    case (Some c)
    have origin: "in_public_origin i = Some (sr_public_origin c)"
      if "inspect_with_receipt cli fs (Some c) m = (m', Inr i)" "in_ownership i = Owned" for cli fs m m' i
      using inspect_runs(1) [OF that(1)] inspection_sound(1) [OF _ that(2)] by fastforce
    show ?thesis using assms True Some unfolding recover_def
      by (simp only: if_True option.case wp_andthen)
        (intro wp_rules; auto simp: consistent_def files_agree_def intro!: wp_rules split: sum.split; blast intro: origin)
  qed
next
  case False
  then show ?thesis using assms
    by (auto simp: recover_def consistent_def files_agree_def intro!: wp_rules)
qed

lemma tailscale_status_safe:
  assumes "consistent s"
  shows "crash_safe (tailscale_status T running abandoned) s"
proof -
  have r: "crash_safe (recover T p v) t" if "dk_pending t = Some p" for p v and t :: "'a desk"
    using that by (intro recover_safe) simp
  have w: "wp (recover T p v) (\<lambda>v. crash_safe (with_restart running v)) consistent t" if "dk_pending t = Some p"
    for p v and t :: "'a desk"
    by (rule wp_mono [OF r [OF that]]) (auto intro: with_restart_safe)
  have k: "crash_safe (on_status T running pd x) (s\<lparr>dk_faults := f, dk_machine := m\<rparr>)" if "dk_pending s = pd" for x f m pd
    using that assms w by (auto simp: on_status_def intro!: with_restart_safe split: sum.split option.split)
  show ?thesis unfolding tailscale_status_def wp_andthen
    by (intro wp_rules; (simp add: assms)?)
      (auto simp: assms k intro!: wp_rules(10))
qed

section \<open>Runs\<close>

datatype serve_op =
    SetServe "str option" bool bool bool
  | ServeStatus "str option" bool
  | Uninstall bool autostart

fun serve_step :: "'w tools \<Rightarrow> fault list \<times> serve_op \<Rightarrow> 'w desk \<Rightarrow> 'w desk" where
  "serve_step T (fs, SetServe running abandoned enabled consent) s =
     fst (set_tailscale_serve T running abandoned enabled consent (s\<lparr>dk_faults := fs\<rparr>))"
| "serve_step T (fs, ServeStatus running abandoned) s = fst (tailscale_status T running abandoned (s\<lparr>dk_faults := fs\<rparr>))"
| "serve_step T (fs, Uninstall abandoned auto) s = fst (uninstall_cleanup T abandoned auto (s\<lparr>dk_faults := fs\<rparr>))"

definition serve_run :: "'w tools \<Rightarrow> (fault list \<times> serve_op) list \<Rightarrow> 'w desk \<Rightarrow> 'w desk" where
  "serve_run T ops s = fold (serve_step T) ops s"

fun is_uninstall :: "serve_op \<Rightarrow> bool" where
  "is_uninstall (Uninstall _ _) = True"
| "is_uninstall _ = False"

lemma crash_safe_fst: "crash_safe m s \<Longrightarrow> consistent (fst (m s))"
  by (auto simp: wp_def split: prod.splits outcome.splits)

lemma serve_step_consistent: "\<not> is_uninstall (snd x) \<Longrightarrow> consistent s \<Longrightarrow> consistent (serve_step T x s)"
  by (cases "(T, x, s)" rule: serve_step.cases)
    (auto intro!: crash_safe_fst set_tailscale_serve_safe tailscale_status_safe)

text \<open>C36. The settings survive crashes. In every sequence of changes and status queries, each with failures and
  crashes at arbitrary points, and with whatever Tailscale answers: when no change is journaled, the origin in
  the agent's configuration is the one of the receipt, and there is none when there is no receipt.\<close>

theorem settings_survive_crashes:
  assumes "consistent s" "\<forall>x \<in> set ops. \<not> is_uninstall (snd x)" "dk_pending (serve_run T ops s) = None"
  shows "dk_origin (serve_run T ops s) = map_option sr_public_origin (dk_receipt (serve_run T ops s))"
proof -
  have "consistent s \<Longrightarrow> \<forall>x \<in> set ops. \<not> is_uninstall (snd x) \<Longrightarrow> consistent (fold (serve_step T) ops s)"
    by (induction ops arbitrary: s) (simp_all add: serve_step_consistent)
  then show ?thesis using assms by (auto simp: serve_run_def consistent_def files_agree_def)
qed

text \<open>A machine on which port 443 is unused, and the files of a host that never published anything.\<close>

definition unused_tools :: "unit tools" where
  "unused_tools =
     \<lparr>tl_cli = (\<lambda>_ w. (w, Inr \<lparr>co_success = True, co_stdout = []\<rparr>)), tl_from_str = (\<lambda>_. Some (JObject []))\<rparr>"

definition fresh_desk :: "unit desk" where
  "fresh_desk = \<lparr>dk_machine = \<lparr>mc_world = (), mc_log = []\<rparr>, dk_pending = None, dk_receipt = None, dk_origin = None, dk_faults = []\<rparr>"

lemma fresh_consistent: "consistent fresh_desk"
  by (simp add: fresh_desk_def consistent_def files_agree_def)

theorem settings_survive_crashes_witness:
  "dk_origin (serve_run unused_tools [([Good, Good, Good, Crash], SetServe None False True True)] fresh_desk) =
     map_option sr_public_origin (dk_receipt (serve_run unused_tools [([Good, Good, Good, Crash], SetServe None False True True)] fresh_desk))"
proof (rule settings_survive_crashes [OF fresh_consistent])
  show "dk_pending (serve_run unused_tools [([Good, Good, Good, Crash], SetServe None False True True)] fresh_desk) = None"
    by (simp add: serve_run_def set_tailscale_serve_def andthen_def point_def preflight_config_def load_pending_def
        abandoned_check_def load_receipt_def inspect_now_def fresh_desk_def ret_def)
qed simp

section \<open>Where the journal does not help\<close>

definition same_files :: "'w desk \<Rightarrow> 'w desk \<Rightarrow> bool" where
  "same_files s t \<longleftrightarrow> dk_pending t = dk_pending s \<and> dk_receipt t = dk_receipt s \<and> dk_origin t = dk_origin s"

abbreviation files_kept :: "('w, 'a) act \<Rightarrow> 'w desk \<Rightarrow> bool" where
  "files_kept m s \<equiv> wp m (\<lambda>_. same_files s) (same_files s) s"

lemma same_files_frame [simp]:
  "same_files s (t\<lparr>dk_faults := r\<rparr>) = same_files s t" "same_files s (t\<lparr>dk_machine := m\<rparr>) = same_files s t" "same_files s s"
  "same_files (s\<lparr>dk_faults := r\<rparr>) t = same_files s t" "same_files (s\<lparr>dk_machine := m\<rparr>) t = same_files s t"
  by (simp_all add: same_files_def)

lemma files_kept_fst: "files_kept m s \<Longrightarrow> same_files s (fst (m s))"
  by (auto simp: wp_def split: prod.splits outcome.splits)

definition reports_unused :: "'w tools \<Rightarrow> bool" where
  "reports_unused T \<longleftrightarrow> (\<forall>c m m' r. inspect_with_receipt (tl_cli T) (tl_from_str T) c m = (m', r) \<longrightarrow> r = Inr unused_inspection)"

definition interrupted_enable :: "pending_serve \<Rightarrow> bool" where
  "interrupted_enable p \<longleftrightarrow> pd_enabled p \<and> pd_receipt p = None \<and> pd_dns_name p \<noteq> None"

lemma journaled_changes_nothing:
  assumes "dk_pending s = Some p"
  shows "files_kept (set_tailscale_serve T running abandoned enabled consent) s"
    "files_kept (uninstall_cleanup T abandoned auto) s"
  using assms by (auto simp: set_tailscale_serve_def uninstall_cleanup_def intro!: wp_rules)

lemma interrupted_status:
  assumes "dk_pending s = Some p" "interrupted_enable p" "reports_unused T"
  shows "files_kept (tailscale_status T running abandoned) s"
proof -
  have "recovery_candidate p unused_inspection = None"
    using assms(2) by (auto simp: recovery_candidate_def interrupted_enable_def unused_inspection_def)
  then have "recover T p unused_inspection = ret unused_inspection"
    using assms(2) by (simp add: recover_def interrupted_enable_def fun_eq_iff)
  then have k: "wp (on_status T running (Some p) (Inr unused_inspection)) (\<lambda>_. same_files s) (same_files s)
      (s\<lparr>dk_faults := f, dk_machine := m\<rparr>)" for f m
    by (auto simp: on_status_def with_restart_def intro!: wp_rules)
  show ?thesis unfolding tailscale_status_def wp_andthen
  proof (intro wp_rules)
    fix f g
    show "wp (if abandoned \<and> dk_pending (s\<lparr>dk_faults := f\<rparr>) = None
         then fail ''A previous settings transaction was interrupted without a recovery journal''
         else andthen (inspect_now T (dk_receipt s)) (on_status T running (dk_pending (s\<lparr>dk_faults := f\<rparr>))))
       (\<lambda>_. same_files s) (same_files s) (s\<lparr>dk_faults := f, dk_faults := g\<rparr>)"
      using assms(1,3) k by (auto simp: reports_unused_def intro!: wp_rules(10))
  qed simp_all
qed


lemma unused_tools_report: "reports_unused unused_tools"
proof -
  have "parse_status (JObject []) = Inr \<lparr>ob_dns_name = None, ob_proxy = None, ob_occupied = False, ob_funnel = False\<rparr>"
    by (simp add: parse_status_def typed_fields_def funnel_of_def tcp443_of_def foreground_of_def)
  then show ?thesis
    by (simp add: reports_unused_def unused_tools_def inspect_with_receipt_def run_cli_def inspection_from_def)
qed

definition interrupted_desk :: "unit desk" where
  "interrupted_desk = fresh_desk\<lparr>dk_pending := Some (pending_of True None (Some (lit ''h.ts.net'')))\<rparr>"


text \<open>Uninstalling on a host whose rule was removed by someone else clears the receipt and the origin without a
  journal: an error between the two leaves the origin without its receipt.\<close>

lemma uninstall_can_leave_the_origin:
  "\<not> consistent (serve_run unused_tools [([Good, Good, Good, Good, Good, IoError], Uninstall False AutoDisabled)]
      (fresh_desk\<lparr>dk_receipt := Some \<lparr>sr_dns_name = [1], sr_proxy = BACKEND, sr_https_port = 443, sr_public_origin = [2]\<rparr>,
        dk_origin := Some [2]\<rparr>))"
proof -
  have "inspect_with_receipt (tl_cli unused_tools) (tl_from_str unused_tools) c m =
      (\<lparr>mc_world = mc_world m, mc_log = mc_log m @ [([''version''], True)] @ [([''serve'', ''status'', ''--json''], True)]\<rparr>,
       Inr unused_inspection)" for c m
    using unused_tools_report
    by (auto simp: reports_unused_def unused_tools_def inspect_with_receipt_def run_cli_def)
  then show ?thesis
    by (simp add: serve_run_def uninstall_cleanup_def uninstall_serve_def clear_files_def andthen_def point_def load_pending_def
        abandoned_check_def load_receipt_def inspect_now_def preflight_config_def remove_receipt_def update_public_origin_def fresh_desk_def
        ret_def unused_inspection_def consistent_def files_agree_def)
qed

end
