(* ===== verification/Terminal_Model.thy ===== *)
theory Terminal_Model
  imports Vt_Fence Rust_Strings
begin

text \<open>
  The adapter of \<open>rc-agent/src/terminal.rs\<close> between the terminal emulator and the clients: \<open>snapshot\<close> writes
  the emulator's state as a stream that repaints it, \<open>readable_projection\<close> extracts the visible text. The emulator
  is third-party code; what the adapter reads of it (grids of cells, cursors, modes, colours) is a record. A
  character is its code point.
\<close>

unbundle bit_operations_syntax

section \<open>Characters\<close>

type_synonym chr = nat

definition is_scalar :: "chr \<Rightarrow> bool" where
  "is_scalar c \<longleftrightarrow> c < 0xD800 \<or> 0xE000 \<le> c \<and> c < 0x110000"

text \<open>\<open>char::is_control\<close>: the category Cc.\<close>

definition is_control :: "chr \<Rightarrow> bool" where
  "is_control c \<longleftrightarrow> c < 0x20 \<or> 0x7F \<le> c \<and> c \<le> 0x9F"

text \<open>\<open>char::encode_utf8\<close>.\<close>

definition encode_char :: "chr \<Rightarrow> bytes" where
  "encode_char c =
     (if c < 0x80 then [of_nat c]
      else if c < 0x800 then [of_nat (0xC0 + c div 64), of_nat (0x80 + c mod 64)]
      else if c < 0x10000 then [of_nat (0xE0 + c div 4096), of_nat (0x80 + c div 64 mod 64), of_nat (0x80 + c mod 64)]
      else [of_nat (0xF0 + c div 262144), of_nat (0x80 + c div 4096 mod 64), of_nat (0x80 + c div 64 mod 64),
            of_nat (0x80 + c mod 64)])"

section \<open>The emulator's state\<close>

datatype color = Spec u8 u8 u8 | Indexed u8 | Named u16

record cell =
  ce_c :: chr
  ce_fg :: color
  ce_bg :: color
  ce_flags :: u16
  ce_zerowidth :: "chr list option"
  ce_underline :: "color option"

abbreviation (input) "INVERSE \<equiv> (0x0001 :: u16)"
abbreviation (input) "BOLD \<equiv> (0x0002 :: u16)"
abbreviation (input) "ITALIC \<equiv> (0x0004 :: u16)"
abbreviation (input) "UNDERLINE \<equiv> (0x0008 :: u16)"
abbreviation (input) "WRAPLINE \<equiv> (0x0010 :: u16)"
abbreviation (input) "WIDE_CHAR \<equiv> (0x0020 :: u16)"
abbreviation (input) "WIDE_CHAR_SPACER \<equiv> (0x0040 :: u16)"
abbreviation (input) "DIM \<equiv> (0x0080 :: u16)"
abbreviation (input) "HIDDEN \<equiv> (0x0100 :: u16)"
abbreviation (input) "STRIKEOUT \<equiv> (0x0200 :: u16)"
abbreviation (input) "LEADING_WIDE_CHAR_SPACER \<equiv> (0x0400 :: u16)"
abbreviation (input) "DOUBLE_UNDERLINE \<equiv> (0x0800 :: u16)"
abbreviation (input) "UNDERCURL \<equiv> (0x1000 :: u16)"
abbreviation (input) "DOTTED_UNDERLINE \<equiv> (0x2000 :: u16)"
abbreviation (input) "DASHED_UNDERLINE \<equiv> (0x4000 :: u16)"

definition has_flag :: "cell \<Rightarrow> u16 \<Rightarrow> bool" where
  "has_flag c f \<longleftrightarrow> ce_flags c AND f \<noteq> 0"

datatype charset = Ascii | LineDrawing
datatype charset_index = G0 | G1 | G2 | G3

record cursor =
  cu_line :: int
  cu_column :: nat
  cu_template :: cell
  cu_charsets :: "charset_index \<Rightarrow> charset"
  cu_active :: charset_index
  cu_needs_wrap :: bool

record grid =
  gr_lines :: nat
  gr_columns :: nat
  gr_history :: nat
  gr_cell :: "int \<Rightarrow> nat \<Rightarrow> cell"
  gr_cursor :: cursor
  gr_saved :: cursor

datatype term_mode =
    AltScreen | AppCursor | ShowCursor | LineWrap | MouseClick | MouseDrag | MouseMotion | FocusInOut
  | Utf8Mouse | SgrMouse | BracketedPaste | AppKeypad | InsertMode | LineFeedNewLine | OriginMode

datatype cursor_shape = BlockShape | UnderlineShape | BeamShape | HollowBlockShape | HiddenShape

record emulator_state =
  em_modes :: "term_mode set"
  em_grid :: grid
  em_inactive :: grid
  em_tabs :: "nat list"
  em_region :: "nat \<times> nat"
  em_shape :: cursor_shape
  em_blinking :: bool
  em_colors :: "nat \<Rightarrow> (u8 \<times> u8 \<times> u8) option"

definition bracketed_paste :: "emulator_state \<Rightarrow> bool" where
  "bracketed_paste t \<longleftrightarrow> BracketedPaste \<in> em_modes t"

text \<open>Events of the emulator: a reply for the application is queued when there is room; the clipboard is never touched.\<close>

datatype term_event = PtyWrite bytes | ColorRequest nat "u8 \<times> u8 \<times> u8 \<Rightarrow> bytes" | OtherEvent

fun event_reply :: "term_event \<Rightarrow> bytes option" where
  "event_reply (PtyWrite s) = Some s"
| "event_reply (ColorRequest i format) = Some (format (if i = 257 then (15, 20, 28) else (219, 228, 240)))"
| "event_reply OtherEvent = None"

definition send_event :: "nat \<Rightarrow> bytes list \<Rightarrow> term_event \<Rightarrow> bytes list" where
  "send_event capacity queue e =
     (case event_reply e of None \<Rightarrow> queue | Some s \<Rightarrow> if length queue < capacity then queue @ [s] else queue)"

section \<open>Writing sequences\<close>

definition esc :: "string \<Rightarrow> bytes" where
  "esc s = 0x1b # lit s"

definition dec_int :: "int \<Rightarrow> bytes" where
  "dec_int i = (if i < 0 then 0x2D # dec (nat (- i)) else dec (nat i))"

definition hex_digit :: "nat \<Rightarrow> u8" where
  "hex_digit n = of_nat (if n < 10 then 0x30 + n else 0x57 + n)"

definition hex2 :: "u8 \<Rightarrow> bytes" where
  "hex2 b = [hex_digit (unat b div 16), hex_digit (unat b mod 16)]"

definition glyph :: "chr \<Rightarrow> bytes" where
  "glyph c = (if is_control c then [0x20] else encode_char c)"

definition zw_chars :: "cell \<Rightarrow> chr list" where
  "zw_chars c = (case ce_zerowidth c of None \<Rightarrow> [] | Some l \<Rightarrow> l)"

definition zw_bytes :: "cell \<Rightarrow> bytes" where
  "zw_bytes c = concat (map encode_char (filter (\<lambda>x. \<not> is_control x) (zw_chars c)))"

fun color_params :: "color \<Rightarrow> bool \<Rightarrow> bytes" where
  "color_params (Spec r g b) fg =
     lit '';'' @ dec (if fg then 38 else 48) @ lit '';2;'' @ dec (unat r) @ lit '';'' @ dec (unat g) @ lit '';'' @ dec (unat b)"
| "color_params (Indexed n) fg = lit '';'' @ dec (if fg then 38 else 48) @ lit '';5;'' @ dec (unat n)"
| "color_params (Named n) fg =
     (if n < 16 then lit '';'' @ dec (if fg then 38 else 48) @ lit '';5;'' @ dec (unat n)
      else lit '';'' @ dec (if fg then 39 else 49))"

fun underline_params :: "color \<Rightarrow> bytes" where
  "underline_params (Spec r g b) = lit '';58;2;'' @ dec (unat r) @ lit '';'' @ dec (unat g) @ lit '';'' @ dec (unat b)"
| "underline_params (Indexed n) = lit '';58;5;'' @ dec (unat n)"
| "underline_params (Named n) = lit '';58;5;'' @ dec (unat n)"

definition flag_params :: "cell \<Rightarrow> bytes" where
  "flag_params c =
     concat (map (\<lambda>(f, n). if has_flag c f then lit '';'' @ dec n else [])
       [(BOLD, 1), (DIM, 2), (ITALIC, 3), (INVERSE, 7), (HIDDEN, 8), (STRIKEOUT, 9)])"

definition underline_kind :: "cell \<Rightarrow> bytes" where
  "underline_kind c =
     (case find (\<lambda>(f, n). has_flag c f)
         [(DASHED_UNDERLINE, 5), (DOTTED_UNDERLINE, 4), (UNDERCURL, 3), (DOUBLE_UNDERLINE, 2), (UNDERLINE, 1)] of
        None \<Rightarrow> []
      | Some (f, n) \<Rightarrow> lit '';4:'' @ dec n)"

definition style_params :: "cell \<Rightarrow> bytes" where
  "style_params c =
     lit ''0'' @ color_params (ce_fg c) True @ color_params (ce_bg c) False @ flag_params c @ underline_kind c @
     (case ce_underline c of None \<Rightarrow> [] | Some u \<Rightarrow> underline_params u)"

definition style :: "cell \<Rightarrow> bytes" where
  "style c = esc ''['' @ style_params c @ lit ''m''"

section \<open>Painting\<close>

definition is_spacer :: "cell \<Rightarrow> bool" where
  "is_spacer c \<longleftrightarrow> has_flag c (WIDE_CHAR_SPACER OR LEADING_WIDE_CHAR_SPACER)"

text \<open>The output and the style last written.\<close>

definition paint_cell :: "bytes \<times> bytes \<Rightarrow> cell \<Rightarrow> bytes \<times> bytes" where
  "paint_cell s c =
     (case s of (out, prev) \<Rightarrow>
        if is_spacer c then (out, prev)
        else (let st = style c;
                  out1 = (if st \<noteq> prev then out @ st else out)
              in (out1 @ glyph (ce_c c) @ zw_bytes c, st)))"

definition row_cells :: "grid \<Rightarrow> int \<Rightarrow> cell list" where
  "row_cells g row = map (gr_cell g row) [0..<gr_columns g]"

fun paint_rows :: "grid \<Rightarrow> int list \<Rightarrow> bytes \<times> bytes \<Rightarrow> bytes" where
  "paint_rows g [] s = fst s"
| "paint_rows g (row # rows) s =
     (case foldl paint_cell s (row_cells g row) of (out, prev) \<Rightarrow>
        (let out1 = (if rows \<noteq> [] \<and> \<not> has_flag (gr_cell g row (gr_columns g - 1)) WRAPLINE then out @ [13, 10] else out)
         in if length out1 > 4 * 1024 * 1024 then out1 else paint_rows g rows (out1, prev)))"

definition painted_rows :: "grid \<Rightarrow> int list" where
  "painted_rows g = (let h = min (gr_history g) 2000 in map (\<lambda>i. int i - int h) [0..<h + gr_lines g])"

definition paint_grid :: "grid \<Rightarrow> bytes \<Rightarrow> bytes" where
  "paint_grid g out =
     paint_rows g (painted_rows g)
       (out @ esc ''[H'' @ esc ''[2J'' @ esc ''[?7h'' @ esc ''[?6l'' @ esc ''[r'', [])"

definition ascii_charsets :: bytes where
  "ascii_charsets = esc ''(B'' @ esc '')B'' @ esc ''*B'' @ esc ''+B''"

definition designation :: "string \<Rightarrow> charset \<Rightarrow> bytes" where
  "designation im c = esc (im @ (case c of Ascii \<Rightarrow> ''B'' | LineDrawing \<Rightarrow> ''0''))"

definition charset_bytes :: "(charset_index \<Rightarrow> charset) \<Rightarrow> bytes" where
  "charset_bytes cs = designation ''('' (cs G0) @ designation '')'' (cs G1) @ designation ''*'' (cs G2) @ designation ''+'' (cs G3)"

definition move_to :: "int \<Rightarrow> nat \<Rightarrow> bytes" where
  "move_to row col = esc ''['' @ dec_int (max row 1) @ lit '';'' @ dec col @ lit ''H''"

definition active_bytes :: "charset_index \<Rightarrow> bytes" where
  "active_bytes i = esc ''[0m'' @ [if i = G1 then 0x0e else 0x0f]"

definition cell_bytes :: "cell \<Rightarrow> bytes" where
  "cell_bytes c = style c @ glyph (ce_c c) @ zw_bytes c"

definition cursor_row :: "grid \<Rightarrow> cursor \<Rightarrow> int" where
  "cursor_row g cu = min (max (cu_line cu) 0) (int (gr_lines g) - 1)"

text \<open>The position, by repainting the cell before the cursor or the last cell where that is needed.\<close>

definition position_bytes :: "grid \<Rightarrow> cursor \<Rightarrow> nat \<Rightarrow> bytes" where
  "position_bytes g cu origin_top =
     (let row = cursor_row g cu;
          col = min (cu_column cu) (gr_columns g - 1);
          y = row - int origin_top + 1
      in if col > 0 \<and> zw_chars (gr_cell g row (col - 1)) \<noteq> []
         then move_to y col @ cell_bytes (gr_cell g row (col - 1))
         else if cu_needs_wrap cu \<and> col = gr_columns g - 1
         then (let col1 = (if col > 0 \<and> has_flag (gr_cell g row col) WIDE_CHAR_SPACER then col - 1 else col)
               in move_to y (col1 + 1) @ cell_bytes (gr_cell g row col1))
         else move_to y (col + 1))"

definition restore_one :: "grid \<Rightarrow> cursor \<Rightarrow> nat \<Rightarrow> bytes" where
  "restore_one g cu origin_top =
     ascii_charsets @ position_bytes g cu origin_top @ charset_bytes (cu_charsets cu) @ active_bytes (cu_active cu) @
     style (cu_template cu)"

definition restore_cursor :: "grid \<Rightarrow> bytes" where
  "restore_cursor g = restore_one g (gr_saved g) 0 @ esc ''7'' @ restore_one g (gr_cursor g) 0"

definition private_mode :: "emulator_state \<Rightarrow> term_mode \<times> nat \<Rightarrow> bytes" where
  "private_mode t x =
     (case x of (m, n) \<Rightarrow>
        esc ''[?'' @ dec n @
        lit (if m = ShowCursor \<and> em_shape t = HiddenShape then ''l'' else if m \<in> em_modes t then ''h'' else ''l''))"

definition private_modes :: "(term_mode \<times> nat) list" where
  "private_modes =
     [(AppCursor, 1), (ShowCursor, 25), (LineWrap, 7), (MouseClick, 1000), (MouseDrag, 1002), (MouseMotion, 1003),
      (FocusInOut, 1004), (Utf8Mouse, 1005), (SgrMouse, 1006), (BracketedPaste, 2004)]"

definition shape_code :: "cursor_shape \<Rightarrow> bool \<Rightarrow> nat" where
  "shape_code s blinking =
     (case s of UnderlineShape \<Rightarrow> (if blinking then 3 else 4) | BeamShape \<Rightarrow> (if blinking then 5 else 6)
      | _ \<Rightarrow> (if blinking then 1 else 2))"

definition mode_choice :: "emulator_state \<Rightarrow> term_mode \<Rightarrow> string \<Rightarrow> string \<Rightarrow> bytes" where
  "mode_choice t m yes no = esc (if m \<in> em_modes t then yes else no)"

definition palette_entry :: "emulator_state \<Rightarrow> nat \<Rightarrow> bytes" where
  "palette_entry t i =
     (case em_colors t i of
        None \<Rightarrow> []
      | Some (r, g, b) \<Rightarrow>
          esc '']'' @ (if i < 256 then lit ''4;'' @ dec i else dec (i - 246)) @ lit '';rgb:'' @
          hex2 r @ lit ''/'' @ hex2 g @ lit ''/'' @ hex2 b @ [7])"

definition tab_bytes :: "nat \<Rightarrow> bytes" where
  "tab_bytes col = esc ''[1;'' @ dec (col + 1) @ lit ''H'' @ esc ''H''"

text \<open>What follows the painted grid, up to the palette.\<close>

definition snapshot_modes :: "emulator_state \<Rightarrow> bytes" where
  "snapshot_modes t =
     esc ''[3g'' @ concat (map tab_bytes (em_tabs t)) @
     (esc ''['' @ dec (fst (em_region t) + 1) @ lit '';'' @ dec (snd (em_region t)) @ lit ''r'') @
     concat (map (private_mode t) private_modes) @
     (if em_shape t \<noteq> HiddenShape then esc ''['' @ dec (shape_code (em_shape t) (em_blinking t)) @ lit '' q'' else []) @
     mode_choice t AppKeypad ''='' ''>'' @
     mode_choice t InsertMode ''[4h'' ''[4l'' @
     mode_choice t LineFeedNewLine ''[20h'' ''[20l''"

definition snapshot :: "emulator_state \<Rightarrow> bytes" where
  "snapshot t =
     (let s0 = esc ''c'' @ esc ''[?25l'' @ esc ''[?7h'' @ esc ''[?6l'' @ esc ''[0m'';
          s1 = (if AltScreen \<in> em_modes t
                then paint_grid (em_inactive t) s0 @ restore_cursor (em_inactive t) @ esc ''[?1049h'' else s0)
      in paint_grid (em_grid t) (s1 @ ascii_charsets) @ snapshot_modes t @ restore_cursor (em_grid t) @
         (if OriginMode \<in> em_modes t
          then esc ''[?6h'' @ restore_one (em_grid t) (gr_cursor (em_grid t)) (fst (em_region t)) else []) @
         concat (map (palette_entry t) [0..<259]))"

section \<open>The readable projection\<close>

datatype projection = TerminalRaw string | TerminalProjection "chr list list"

definition TEXT_LIMIT :: nat where
  "TEXT_LIMIT = 256 * 1024"

text \<open>The bytes so far and the row's characters; \<open>None\<close> when the limit is exceeded.\<close>

definition take_char :: "nat \<times> chr list \<Rightarrow> chr \<Rightarrow> (nat \<times> chr list) option" where
  "take_char s c =
     (let n = fst s + length (encode_char c) in if n > TEXT_LIMIT then None else Some (n, snd s @ [c]))"

fun take_zerowidth :: "nat \<times> chr list \<Rightarrow> chr list \<Rightarrow> (nat \<times> chr list) option" where
  "take_zerowidth s [] = Some s"
| "take_zerowidth s (z # zs) =
     (if is_control z then take_zerowidth s zs
      else (case take_char s z of None \<Rightarrow> None | Some s1 \<Rightarrow> take_zerowidth s1 zs))"

definition take_cell :: "nat \<times> chr list \<Rightarrow> cell \<Rightarrow> (nat \<times> chr list) option" where
  "take_cell s c =
     (if is_spacer c then Some s
      else if has_flag c HIDDEN
      then (let spaces = (if has_flag c WIDE_CHAR then 2 else 1) in
            if fst s + spaces > TEXT_LIMIT then None else Some (fst s + spaces, snd s @ replicate spaces 0x20))
      else (case take_char s (if is_control (ce_c c) then 0x20 else ce_c c) of
              None \<Rightarrow> None
            | Some s1 \<Rightarrow> take_zerowidth s1 (zw_chars c)))"

fun take_cells :: "nat \<times> chr list \<Rightarrow> cell list \<Rightarrow> (nat \<times> chr list) option" where
  "take_cells s [] = Some s"
| "take_cells s (c # cs) = (case take_cell s c of None \<Rightarrow> None | Some s1 \<Rightarrow> take_cells s1 cs)"

definition trim_spaces :: "chr list \<Rightarrow> chr list" where
  "trim_spaces l = rev (dropWhile (\<lambda>c. c = 0x20) (rev l))"

fun take_rows :: "grid \<Rightarrow> int list \<Rightarrow> nat \<Rightarrow> chr list list option" where
  "take_rows g [] n = Some []"
| "take_rows g (row # rows) n =
     (case take_cells (n, []) (row_cells g row) of
        None \<Rightarrow> None
      | Some (n1, cs) \<Rightarrow> (case take_rows g rows n1 of None \<Rightarrow> None | Some ls \<Rightarrow> Some (trim_spaces cs # ls)))"

definition readable_projection :: "emulator_state \<Rightarrow> projection" where
  "readable_projection t =
     (if AltScreen \<in> em_modes t then TerminalRaw ''alternate_screen''
      else if gr_lines (em_grid t) > 150 \<or> gr_columns (em_grid t) > 400 then TerminalRaw ''limit''
      else (case take_rows (em_grid t) (map int [0..<gr_lines (em_grid t)]) 0 of
              None \<Rightarrow> TerminalRaw ''limit''
            | Some ls \<Rightarrow> TerminalProjection ls))"

section \<open>The sequences of the adapter\<close>

definition glyph_token :: "bytes \<Rightarrow> bool" where
  "glyph_token t \<longleftrightarrow> (\<exists>c. is_scalar c \<and> \<not> is_control c \<and> t = encode_char c)"

definition csi_param :: "u8 \<Rightarrow> bool" where
  "csi_param b \<longleftrightarrow> 0x20 \<le> b \<and> b \<le> 0x3f"

definition csi_token :: "bytes \<Rightarrow> bool" where
  "csi_token t \<longleftrightarrow>
     (\<exists>ps f. t = 0x1b # 0x5b # ps @ [f] \<and> list_all csi_param ps \<and> 0x40 \<le> f \<and> f \<le> 0x7e \<and> length ps \<le> 1000)"

text \<open>\<open>OSC 4 ; n\<close> and \<open>OSC 10\<close> to \<open>OSC 12\<close>.\<close>

definition palette_token :: "bytes \<Rightarrow> bool" where
  "palette_token t \<longleftrightarrow>
     (\<exists>r. t = 0x1b # 0x5d # r @ [7] \<and> list_all (\<lambda>b. 0x20 \<le> b \<and> b < 0x7f) r \<and> length r \<le> 100 \<and>
        (prefix [0x34, 0x3b] r \<or> prefix [0x31] r))"

definition short_token :: "bytes \<Rightarrow> bool" where
  "short_token t \<longleftrightarrow>
     t \<in> {[13, 10], [0x0e], [0x0f]} \<or>
     (\<exists>b. t = [0x1b, b] \<and> b \<in> {0x63, 0x37, 0x48, 0x3d, 0x3e}) \<or>
     (\<exists>i b. t = [0x1b, i, b] \<and> i \<in> {0x28, 0x29, 0x2a, 0x2b} \<and> b \<in> {0x42, 0x30})"

definition adapter_token :: "bytes \<Rightarrow> bool" where
  "adapter_token t \<longleftrightarrow> glyph_token t \<or> csi_token t \<or> palette_token t \<or> short_token t"

definition clean :: "bytes \<Rightarrow> bool" where
  "clean s \<longleftrightarrow> (\<exists>ts. s = concat ts \<and> list_all adapter_token ts)"

named_theorems clean_rules

lemma clean_Nil [simp, clean_rules]: "clean []"
  unfolding clean_def by (rule exI [of _ "[]"]) simp

lemma clean_append [clean_rules]: "clean a \<Longrightarrow> clean b \<Longrightarrow> clean (a @ b)"
  unfolding clean_def by (metis concat_append list_all_append)

lemma clean_token: "adapter_token t \<Longrightarrow> clean t"
  unfolding clean_def by (rule exI [of _ "[t]"]) simp

lemma clean_concat [clean_rules]: "(\<And>x. x \<in> set l \<Longrightarrow> clean (f x)) \<Longrightarrow> clean (concat (map f l))"
  by (induction l) (auto intro: clean_append)

lemma clean_if [clean_rules]: "(b \<Longrightarrow> clean x) \<Longrightarrow> (\<not> b \<Longrightarrow> clean y) \<Longrightarrow> clean (if b then x else y)"
  by simp

text \<open>Fixed sequences are recognised by evaluation.\<close>

definition fixed_sequence :: "bytes \<Rightarrow> bool" where
  "fixed_sequence t \<longleftrightarrow>
     (case t of
        a # b # r \<Rightarrow>
          a = 0x1b \<and>
          (b = 0x5b \<and> r \<noteq> [] \<and> list_all csi_param (butlast r) \<and> 0x40 \<le> last r \<and> last r \<le> 0x7e \<and> length r \<le> 1000
           \<or> r = [] \<and> b \<in> {0x63, 0x37, 0x48, 0x3d, 0x3e}
           \<or> b \<in> {0x28, 0x29, 0x2a, 0x2b} \<and> (r = [0x42] \<or> r = [0x30]))
      | _ \<Rightarrow> False)"

lemma clean_fixed: "fixed_sequence t \<Longrightarrow> clean t"
proof (rule clean_token)
  assume t: "fixed_sequence t"
  then obtain b r where tb: "t = 0x1b # b # r" by (auto simp: fixed_sequence_def split: list.splits)
  have "csi_token t" if "b = 0x5b" "r \<noteq> []" "list_all csi_param (butlast r)" "0x40 \<le> last r" "last r \<le> 0x7e" "length r \<le> 1000"
    unfolding csi_token_def using that tb by (intro exI [of _ "butlast r"] exI [of _ "last r"]) auto
  then show "adapter_token t" using t tb by (auto simp: fixed_sequence_def adapter_token_def short_token_def)
qed

lemma clean_literals [clean_rules]:
  "clean (esc ''[H'')" "clean (esc ''[2J'')" "clean (esc ''[?7h'')" "clean (esc ''[?6l'')" "clean (esc ''[r'')"
  "clean (esc ''(B'')" "clean (esc '')B'')" "clean (esc ''*B'')" "clean (esc ''+B'')" "clean (esc ''7'')" "clean (esc ''c'')"
  "clean (esc ''[?25l'')" "clean (esc ''[0m'')" "clean (esc ''[3g'')" "clean (esc ''H'')" "clean (esc ''[?6h'')"
  "clean (esc ''[?1049h'')"
  by (rule clean_fixed, code_simp)+

section \<open>Parameters of a CSI sequence\<close>

definition params :: "nat \<Rightarrow> bytes \<Rightarrow> bool" where
  "params k p \<longleftrightarrow> list_all csi_param p \<and> length p \<le> k"

lemma params_append: "params a p \<Longrightarrow> params b q \<Longrightarrow> params (a + b) (p @ q)"
  by (simp add: params_def)

lemma params_mono: "params a p \<Longrightarrow> a \<le> b \<Longrightarrow> params b p"
  by (simp add: params_def)

lemma length_dec: "n < 10 ^ k \<Longrightarrow> 0 < k \<Longrightarrow> length (dec n) \<le> k"
proof (induction k arbitrary: n)
  case (Suc k)
  show ?case
  proof (cases "n < 10")
    case False
    then have "0 < k" using Suc.prems by (cases k) auto
    moreover have "n div 10 < 10 ^ k" using Suc.prems by (simp add: less_mult_imp_div_less mult.commute)
    ultimately show ?thesis using Suc.IH False by (simp add: dec.simps [of n])
  qed (simp add: dec.simps)
qed simp

lemma params_dec: "n < 10 ^ k \<Longrightarrow> 0 < k \<Longrightarrow> params k (dec n)"
  using dec_digits [of n] length_dec
  by (auto simp: params_def list_all_iff is_digit_def csi_param_def word_le_nat_alt)

lemma params_u8: "params 3 (dec (unat (b :: u8)))"
proof (rule params_dec)
  have "unat b < 2 ^ LENGTH(8)" by (rule unsigned_less)
  then show "unat b < 10 ^ 3" by (rule less_le_trans) simp
qed simp

lemma params_u16: "params 5 (dec (unat (b :: u16)))"
proof (rule params_dec)
  have "unat b < 2 ^ LENGTH(16)" by (rule unsigned_less)
  then show "unat b < 10 ^ 5" by (rule less_le_trans) simp
qed simp

lemma clean_csi:
  assumes "params k ps" "k \<le> 1000" "0x40 \<le> f" "f \<le> 0x7e"
  shows "clean (0x1b # 0x5b # ps @ [f])"
  using assms by (intro clean_token) (auto simp: adapter_token_def csi_token_def params_def)
lemma params_literals:
  "params 1 (lit ''0'')" "params 1 (lit '';'')" "params 3 (lit '';2;'')" "params 3 (lit '';5;'')" "params 3 (lit '';4:'')"
  "params 6 (lit '';58;2;'')" "params 6 (lit '';58;5;'')" "params 0 []" "params 1 (lit ''?'')" "params 1 (lit '' '')"
  "params 2 (lit ''1;'')"
  by (code_simp, code_simp, code_simp, code_simp, code_simp, code_simp, code_simp, code_simp, code_simp, code_simp, code_simp)

lemma params_small: "n < 100 \<Longrightarrow> params 2 (dec n)"
  by (intro params_dec) simp_all

lemma params_color: "params 17 (color_params c fg)"
proof (cases c)
  case (Spec r g b)
  have "params (1 + (2 + (3 + (3 + (1 + (3 + (1 + 3))))))) (color_params c fg)"
    unfolding Spec color_params.simps by (intro params_append params_literals params_u8 params_small) simp
  then show ?thesis by simp
next
  case (Indexed n)
  have "params (1 + (2 + (3 + 3))) (color_params c fg)"
    unfolding Indexed color_params.simps by (intro params_append params_literals params_u8 params_small) simp
  then show ?thesis by (rule params_mono) simp
next
  case (Named n)
  have "params (1 + (2 + (3 + 5))) (lit '';'' @ dec (if fg then 38 else 48) @ lit '';5;'' @ dec (unat n))"
    by (intro params_append params_literals params_u16 params_small) simp
  moreover have "params (1 + 2) (lit '';'' @ dec (if fg then 39 else 49))"
    by (intro params_append params_literals params_small) simp
  ultimately show ?thesis unfolding Named color_params.simps
    by (cases "n < 16") (simp_all only: if_True if_False params_mono [of _ _ 17])
qed

lemma params_underline: "params 20 (underline_params c)"
proof (cases c)
  case (Spec r g b)
  have "params (6 + (3 + (1 + (3 + (1 + 3))))) (underline_params c)"
    unfolding Spec underline_params.simps by (intro params_append params_literals params_u8)
  then show ?thesis by (rule params_mono) simp
next
  case (Indexed n)
  have "params (6 + 3) (underline_params c)"
    unfolding Indexed underline_params.simps by (intro params_append params_literals params_u8)
  then show ?thesis by (rule params_mono) simp
next
  case (Named n)
  have "params (6 + 5) (underline_params c)"
    unfolding Named underline_params.simps by (intro params_append params_literals params_u16)
  then show ?thesis by (rule params_mono) simp
qed

lemma params_concat: "(\<And>x. x \<in> set l \<Longrightarrow> params k (f x)) \<Longrightarrow> params (k * length l) (concat (map f l))"
proof (induction l)
  case (Cons a l)
  then have "params (k + k * length l) (f a @ concat (map f l))" by (intro params_append) simp_all
  then show ?case by simp
qed (simp add: params_def)

lemma params_flags: "params 18 (flag_params c)"
proof -
  let ?l = "[(BOLD, 1), (DIM, 2), (ITALIC, 3), (INVERSE, 7), (HIDDEN, 8), (STRIKEOUT, 9)] :: (u16 \<times> nat) list"
  have d: "params 3 (if has_flag c f then lit '';'' @ dec n else [])" if "n < 100" for f n
    using params_append [OF params_literals(2) params_small [OF that]] params_mono [OF params_literals(8), of 3] by (simp add: numeral_3_eq_3)
  have "params (3 * length ?l) (flag_params c)"
    unfolding flag_params_def by (rule params_concat) (auto simp only: set_simps insert_iff empty_iff prod.case intro!: d)
  then show ?thesis by simp
qed

lemma params_style: "params 100 (style_params c)"
proof -
  have k: "params 5 (underline_kind c)"
    unfolding underline_kind_def find.simps
    by (auto intro!: params_append [of 3 _ 2, simplified] params_literals params_small params_mono [OF params_literals(8)])
  have u: "params 20 (case ce_underline c of None \<Rightarrow> [] | Some u \<Rightarrow> underline_params u)"
    using params_underline params_mono [OF params_literals(8)] by (simp split: option.split)
  have "params (1 + (17 + (17 + (18 + (5 + 20))))) (style_params c)"
    unfolding style_params_def by (intro params_append params_literals params_color params_flags k u)
  then show ?thesis by (rule params_mono) simp
qed

section \<open>What is painted\<close>

lemma final_bytes:
  "esc ''['' = [0x1b, 0x5b]" "lit ''m'' = [0x6d]" "lit ''H'' = [0x48]" "lit ''r'' = [0x72]" "lit '' q'' = [0x20, 0x71]"
  "lit ''h'' = [0x68]" "lit ''l'' = [0x6c]" "esc ''[?'' = [0x1b, 0x5b, 0x3f]" "esc ''[1;'' = [0x1b, 0x5b, 0x31, 0x3b]"
  by (code_simp, code_simp, code_simp, code_simp, code_simp, code_simp, code_simp, code_simp, code_simp)

lemma clean_csi_final:
  assumes "params k ps" "k \<le> 1000" "f \<in> {0x6d, 0x48, 0x72, 0x68, 0x6c, 0x71}"
  shows "clean (0x1b # 0x5b # ps @ [f])"
  using assms by (intro clean_csi) auto

lemma clean_style [clean_rules]: "clean (style c)"
  using clean_csi_final [OF params_style] by (simp add: style_def final_bytes)

text \<open>A cell holds characters of Rust, which are scalar values.\<close>

definition cell_wf :: "cell \<Rightarrow> bool" where
  "cell_wf c \<longleftrightarrow> is_scalar (ce_c c) \<and> list_all is_scalar (zw_chars c)"

lemma clean_glyph_token: "is_scalar c \<Longrightarrow> \<not> is_control c \<Longrightarrow> clean (encode_char c)"
  by (intro clean_token) (auto simp: adapter_token_def glyph_token_def)

lemma clean_glyph: "is_scalar c \<Longrightarrow> clean (glyph c)"
  using clean_glyph_token [of "0x20"] clean_glyph_token [of c]
  by (auto simp: glyph_def is_scalar_def is_control_def encode_char_def)

lemma clean_cell_text: "cell_wf c \<Longrightarrow> clean (glyph (ce_c c) @ zw_bytes c)"
  unfolding zw_bytes_def cell_wf_def
  by (intro clean_append clean_concat) (auto intro: clean_glyph clean_glyph_token simp: list_all_iff)

lemma clean_paint_cell: "cell_wf c \<Longrightarrow> clean (fst s) \<Longrightarrow> clean (fst (paint_cell s c))"
  by (auto simp: paint_cell_def Let_def split: prod.split intro!: clean_append clean_cell_text clean_style)

lemma clean_paint_cells: "list_all cell_wf cs \<Longrightarrow> clean (fst s) \<Longrightarrow> clean (fst (foldl paint_cell s cs))"
  by (induction cs arbitrary: s) (simp_all add: clean_paint_cell)

lemma clean_newline [clean_rules]: "clean [13, 10]"
  by (intro clean_token) (simp add: adapter_token_def short_token_def)

definition grid_wf :: "grid \<Rightarrow> bool" where
  "grid_wf g \<longleftrightarrow> gr_lines g < 65536 \<and> gr_columns g < 65536 \<and> (\<forall>row col. cell_wf (gr_cell g row col))"

lemma row_cells_wf: "grid_wf g \<Longrightarrow> list_all cell_wf (row_cells g row)"
  by (simp add: grid_wf_def row_cells_def list_all_iff)

lemma clean_paint_rows: "grid_wf g \<Longrightarrow> clean (fst s) \<Longrightarrow> clean (paint_rows g rows s)"
proof (induction rows arbitrary: s)
  case (Cons row rows)
  obtain out prev where f: "foldl paint_cell s (row_cells g row) = (out, prev)" by fastforce
  then have "clean out" using clean_paint_cells [OF row_cells_wf [OF Cons.prems(1)] Cons.prems(2), of row] by simp
  then have "clean (out @ [13, 10])" by (intro clean_append clean_newline)
  with \<open>clean out\<close> show ?case using Cons f by (simp add: Let_def)
qed simp

lemma clean_paint_grid: "grid_wf g \<Longrightarrow> clean out \<Longrightarrow> clean (paint_grid g out)"
  unfolding paint_grid_def by (intro clean_paint_rows) (simp_all add: clean_rules)

section \<open>Cursors and modes\<close>

lemma nat_dec_int: "0 \<le> i \<Longrightarrow> dec_int i = dec (nat i)"
  by (simp add: dec_int_def)

lemma clean_move_to: "y \<le> 65536 \<Longrightarrow> col \<le> 65536 \<Longrightarrow> clean (move_to y col)"
proof -
  assume y: "y \<le> 65536" "col \<le> 65536"
  then have "params (5 + (1 + 5)) (dec (nat (max y 1)) @ lit '';'' @ dec col)"
    by (intro params_append params_dec params_literals) auto
  then show ?thesis using clean_csi_final [of 11 "dec (nat (max y 1)) @ lit '';'' @ dec col" "0x48"] by (simp add: move_to_def nat_dec_int final_bytes)
qed

lemma clean_designation: "im \<in> {''('', '')'', ''*'', ''+''} \<Longrightarrow> clean (designation im c)"
proof -
  have "clean (esc ''(0'')" "clean (esc '')0'')" "clean (esc ''*0'')" "clean (esc ''+0'')"
    by (rule clean_fixed, code_simp)+
  then show "im \<in> {''('', '')'', ''*'', ''+''} \<Longrightarrow> clean (designation im c)"
    using clean_literals by (auto simp: designation_def split: charset.split)
qed

lemma clean_charsets [clean_rules]: "clean ascii_charsets" "clean (charset_bytes cs)"
  unfolding ascii_charsets_def charset_bytes_def by (intro clean_rules clean_designation; simp)+

lemma clean_active [clean_rules]: "clean (active_bytes i)"
proof -
  have "clean [0x0e]" "clean [0x0f]" by (rule clean_token, simp add: adapter_token_def short_token_def)+
  then show ?thesis unfolding active_bytes_def by (intro clean_append clean_literals) simp
qed

lemma clean_cell_bytes: "cell_wf c \<Longrightarrow> clean (cell_bytes c)"
  unfolding cell_bytes_def by (intro clean_append clean_style clean_cell_text)

lemma clean_position: "grid_wf g \<Longrightarrow> clean (position_bytes g cu top')"
  unfolding position_bytes_def Let_def
  by (intro clean_if clean_append clean_move_to clean_cell_bytes) (auto simp: grid_wf_def cursor_row_def)

lemma clean_restore_one: "grid_wf g \<Longrightarrow> clean (restore_one g cu top')"
  unfolding restore_one_def by (intro clean_rules clean_position)

lemma clean_restore_cursor: "grid_wf g \<Longrightarrow> clean (restore_cursor g)"
  unfolding restore_cursor_def by (intro clean_append clean_restore_one clean_literals)

lemma clean_private_mode: "n < 10000 \<Longrightarrow> clean (private_mode t (m, n))"
proof -
  assume "n < 10000"
  then have "params (1 + 4) (lit ''?'' @ dec n)" by (intro params_append params_dec params_literals) auto
  then have "clean (0x1b # 0x5b # (lit ''?'' @ dec n) @ [f])" if "f \<in> {0x68, 0x6c}" for f
    using that by (intro clean_csi_final [of 5]) auto
  moreover have "lit ''?'' = [0x3f]" by code_simp
  ultimately show ?thesis by (simp add: private_mode_def final_bytes)
qed

lemma clean_tab: "col < 65536 \<Longrightarrow> clean (tab_bytes col)"
proof -
  assume "col < 65536"
  then have "params (2 + 5) (lit ''1;'' @ dec (col + 1))" by (intro params_append params_dec params_literals) auto
  then have "clean (0x1b # 0x5b # (lit ''1;'' @ dec (col + 1)) @ [0x48])" by (intro clean_csi_final [of 7]) auto
  moreover have "lit ''1;'' = [0x31, 0x3b]" by code_simp
  ultimately have "clean ((esc ''[1;'' @ dec (col + 1) @ lit ''H'') @ esc ''H'')"
    by (intro clean_append [of "esc ''[1;'' @ dec (col + 1) @ lit ''H''"] clean_literals) (simp add: final_bytes)
  then show ?thesis by (simp add: tab_bytes_def)
qed

lemma clean_region: "a < 65536 \<Longrightarrow> b < 65536 \<Longrightarrow> clean (esc ''['' @ dec (a + 1) @ lit '';'' @ dec b @ lit ''r'')"
proof -
  assume ab: "a < 65536" "b < 65536"
  then have "params (5 + (1 + 5)) (dec (a + 1) @ lit '';'' @ dec b)"
    by (intro params_append params_dec params_literals) auto
  then show ?thesis using clean_csi_final [of 11 "dec (a + 1) @ lit '';'' @ dec b" "0x72"] by (simp add: final_bytes)
qed

lemma clean_shape: "clean (esc ''['' @ dec (shape_code sh bl) @ lit '' q'')"
proof -
  have "shape_code sh bl < 10" by (simp add: shape_code_def split: cursor_shape.split)
  then have "params (2 + 1) (dec (shape_code sh bl) @ lit '' '')" by (intro params_append params_small params_literals) simp
  then have "clean (0x1b # 0x5b # (dec (shape_code sh bl) @ lit '' '') @ [0x71])" by (intro clean_csi_final [of 3]) auto
  moreover have "lit '' '' = [0x20]" by code_simp
  ultimately show ?thesis by (simp add: final_bytes)
qed

lemma clean_choices:
  "clean (mode_choice t AppKeypad ''='' ''>'')" "clean (mode_choice t InsertMode ''[4h'' ''[4l'')"
  "clean (mode_choice t LineFeedNewLine ''[20h'' ''[20l'')"
proof -
  have "clean (esc ''='')" "clean (esc ''>'')" "clean (esc ''[4h'')" "clean (esc ''[4l'')" "clean (esc ''[20h'')" "clean (esc ''[20l'')"
    by (rule clean_fixed, code_simp)+
  then show "clean (mode_choice t AppKeypad ''='' ''>'')" "clean (mode_choice t InsertMode ''[4h'' ''[4l'')"
    "clean (mode_choice t LineFeedNewLine ''[20h'' ''[20l'')"
    by (simp_all add: mode_choice_def)
qed

definition palette_char :: "u8 \<Rightarrow> bool" where
  "palette_char b \<longleftrightarrow> 0x20 \<le> b \<and> b < 0x7f"

lemma hex2_chars: "list_all palette_char (hex2 b)" "length (hex2 b) = 2"
proof -
  have h: "palette_char (hex_digit n)" if "n < 16" for n
  proof -
    have "n \<in> set [0..<16]" using that by simp
    moreover have "list_all (\<lambda>n. palette_char (hex_digit n)) [0..<16]" by code_simp
    ultimately show ?thesis by (simp only: list_all_iff)
  qed
  have "unat b < 2 ^ LENGTH(8)" by (rule unsigned_less)
  then have "unat b div 16 < 16" by (intro less_mult_imp_div_less) simp
  then show "list_all palette_char (hex2 b)" by (simp add: hex2_def h)
  show "length (hex2 b) = 2" by (simp add: hex2_def)
qed

lemma dec_chars: "list_all palette_char (dec n)"
  using dec_digits [of n] by (auto simp: list_all_iff is_digit_def palette_char_def word_le_nat_alt word_less_nat_alt)

lemma palette_literals:
  "lit ''4;'' = [0x34, 0x3b]" "list_all palette_char (lit '';rgb:'')" "length (lit '';rgb:'') = 5"
  "list_all palette_char (lit ''/'')" "length (lit ''/'') = 1" "list_all palette_char [0x34, 0x3b]" "esc '']'' = [0x1b, 0x5d]"
  by (code_simp, code_simp, code_simp, code_simp, code_simp, code_simp, code_simp)

lemma clean_palette_entry: "i < 259 \<Longrightarrow> clean (palette_entry t i)"
proof (cases "em_colors t i")
  case (Some c)
  obtain r g b where c: "c = (r, g, b)" by (cases c)
  assume i: "i < 259"
  define k where "k = (if i < 256 then lit ''4;'' @ dec i else dec (i - 246))"
  have len: "length (dec n) \<le> 3" if "n < 1000" for n using length_dec [of n 3] that by simp
  have k: "list_all palette_char k" "length k \<le> 5" "prefix [0x34, 0x3b] k \<or> prefix [0x31] k"
  proof -
    have "i - 246 < 1000" using i by simp
    then show "list_all palette_char k" "length k \<le> 5"
      using len [of i] len [of "i - 246"] i palette_literals(6) by (auto simp: k_def dec_chars palette_literals(1))
    have "i - 246 \<in> {10, 11, 12}" if "\<not> i < 256" using i that by auto
    moreover have "prefix [0x31] (dec 10)" "prefix [0x31] (dec 11)" "prefix [0x31] (dec 12)" by code_simp+
    ultimately show "prefix [0x34, 0x3b] k \<or> prefix [0x31] k" by (auto simp: k_def palette_literals)
  qed
  define q where "q = k @ lit '';rgb:'' @ hex2 r @ lit ''/'' @ hex2 g @ lit ''/'' @ hex2 b"
  have "palette_token (0x1b # 0x5d # q @ [7])"
    unfolding palette_token_def using k hex2_chars
    by (intro exI [of _ q]) (auto simp: q_def palette_literals simp flip: palette_char_def)
  then have "clean (0x1b # 0x5d # q @ [7])" by (intro clean_token) (simp add: adapter_token_def)
  then show ?thesis using Some c by (simp add: palette_entry_def q_def k_def palette_literals)
qed (simp add: palette_entry_def)

section \<open>The snapshot passes the fence\<close>

definition emulator_wf :: "emulator_state \<Rightarrow> bool" where
  "emulator_wf t \<longleftrightarrow>
     grid_wf (em_grid t) \<and> grid_wf (em_inactive t) \<and> list_all (\<lambda>c. c < 65536) (em_tabs t) \<and>
     fst (em_region t) < 65536 \<and> snd (em_region t) < 65536"

lemma clean_snapshot_modes: "emulator_wf t \<Longrightarrow> clean (snapshot_modes t)"
  unfolding snapshot_modes_def
  by (intro clean_rules clean_choices clean_region clean_shape clean_tab)
    (auto simp: emulator_wf_def list_all_iff private_modes_def intro: clean_private_mode)

lemma clean_snapshot: "emulator_wf t \<Longrightarrow> clean (snapshot t)"
  unfolding snapshot_def Let_def
  by (intro clean_rules clean_paint_grid clean_restore_cursor clean_restore_one clean_snapshot_modes clean_palette_entry)
    (simp_all add: emulator_wf_def)

text \<open>Every token of the adapter is one that the fence releases.\<close>

lemma unat_byte: "n < 256 \<Longrightarrow> unat (of_nat n :: u8) = n"
  by (simp add: unat_of_nat)

lemma tables_unat:
  "width b = (if unat b < 0x80 then 1 else if unat b < 0xC2 then 0 else if unat b < 0xE0 then 2
      else if unat b < 0xF0 then 3 else if unat b < 0xF5 then 4 else 0)"
  "cont b \<longleftrightarrow> 0x80 \<le> unat b \<and> unat b \<le> 0xBF"
  "second_of_3 a b \<longleftrightarrow>
     unat a = 0xE0 \<and> 0xA0 \<le> unat b \<and> unat b \<le> 0xBF \<or> 0xE1 \<le> unat a \<and> unat a \<le> 0xEC \<and> cont b
   \<or> unat a = 0xED \<and> 0x80 \<le> unat b \<and> unat b \<le> 0x9F \<or> 0xEE \<le> unat a \<and> unat a \<le> 0xEF \<and> cont b"
  "second_of_4 a b \<longleftrightarrow>
     unat a = 0xF0 \<and> 0x90 \<le> unat b \<and> unat b \<le> 0xBF \<or> 0xF1 \<le> unat a \<and> unat a \<le> 0xF3 \<and> cont b
   \<or> unat a = 0xF4 \<and> 0x80 \<le> unat b \<and> unat b \<le> 0x8F"
  by (simp_all add: width_def cont_def second_of_3_def second_of_4_def word_less_nat_alt word_le_nat_alt word_unat_eq_iff)

lemma plain_char:
  assumes "first_char bs = (Utf8_Ok, [])" "list_all (\<lambda>b. 0x80 \<le> unat b) bs" "bs \<noteq> []"
  shows "plain_text bs"
proof -
  have "0x1b \<notin> set bs" using assms(2) by (auto simp: list_all_iff)
  moreover have "valid_utf8 bs" using assms(1,3) by (cases bs) (auto simp: from_utf8_Cons_Ok)
  ultimately show ?thesis by (simp add: plain_text_def)
qed

lemma encode_char_plain:
  assumes "is_scalar c" "\<not> is_control c"
  shows "plain_text (encode_char c) \<and> encode_char c \<noteq> []"
proof -
  let ?w = "\<lambda>n. of_nat n :: u8"
  define x y z where "x = c div 64 mod 64" and "y = c mod 64" and "z = c div 4096 mod 64"
  have m: "x < 64" "y < 64" "z < 64" by (simp_all add: x_def y_def z_def)
  define X Y Z where "X = ?w (0x80 + x)" and "Y = ?w (0x80 + y)" and "Z = ?w (0x80 + z)"
  have t: "unat X = 0x80 + x" "unat Y = 0x80 + y" "unat Z = 0x80 + z"
    unfolding X_def Y_def Z_def using m by (intro unat_byte; simp)+
  consider "c < 0x80" | "0x80 \<le> c" "c < 0x800" | "0x800 \<le> c" "c < 0x10000" | "0x10000 \<le> c" "c < 0x110000"
    using assms(1) by (cases "c < 0x80"; cases "c < 0x800"; cases "c < 0x10000") (auto simp: is_scalar_def)
  then show ?thesis
  proof cases
    case 1
    then have u: "unat (?w c) = c" by (intro unat_byte) simp
    have "plain_text [?w c]" using 1 assms(2) by (intro plain_text_ascii) (auto simp: word_less_nat_alt word_unat_eq_iff u is_control_def)
    then show ?thesis using 1 by (simp add: encode_char_def)
  next
    case 2
    define A where "A = ?w (0xC0 + c div 64)"
    have "2 \<le> c div 64" "c div 64 < 32" using 2 by auto
    moreover from this have "unat A = 0xC0 + c div 64" unfolding A_def by (intro unat_byte) simp
    moreover have "encode_char c = [A, Y]" using 2 unfolding encode_char_def A_def Y_def y_def by simp
    ultimately show ?thesis using m by (auto simp: first_char.simps tables_unat t intro!: plain_char)
  next
    case 3
    define A where "A = ?w (0xE0 + c div 4096)"
    have "c div 4096 = c div 64 div 64" by (simp add: div_mult2_eq [symmetric])
    then have q: "c div 64 = c div 4096 * 64 + x" by (simp only: x_def div_mult_mod_eq)
    have "c div 4096 < 16" using 3 by auto
    moreover from this have "unat A = 0xE0 + c div 4096" unfolding A_def by (intro unat_byte) simp
    moreover have "encode_char c = [A, X, Y]" using 3 unfolding encode_char_def A_def X_def Y_def x_def y_def by simp
    moreover have "c div 4096 = 0 \<longrightarrow> 32 \<le> x" "c div 4096 = 13 \<longrightarrow> x < 32"
      using q 3 assms(1) by (auto simp: is_scalar_def)
    ultimately show ?thesis using m by (auto simp: first_char.simps tables_unat t intro!: plain_char)
  next
    case 4
    define A where "A = ?w (0xF0 + c div 262144)"
    have "c div 262144 = c div 4096 div 64" by (simp add: div_mult2_eq [symmetric])
    then have q: "c div 4096 = c div 262144 * 64 + z" by (simp only: z_def div_mult_mod_eq)
    have "c div 262144 < 5" using 4 by auto
    moreover from this have "unat A = 0xF0 + c div 262144" unfolding A_def by (intro unat_byte) simp
    moreover have "encode_char c = [A, Z, X, Y]"
      using 4 unfolding encode_char_def A_def X_def Y_def Z_def x_def y_def z_def by simp
    moreover have "c div 262144 = 0 \<longrightarrow> 16 \<le> z" "c div 262144 = 4 \<longrightarrow> z < 16"
      using q 4 by auto
    ultimately show ?thesis using m by (auto simp: first_char.simps tables_unat t intro!: plain_char)
  qed
qed

lemma complete_csi: "list_all csi_param ps \<Longrightarrow> 0x40 \<le> f \<Longrightarrow> f \<le> 0x7e \<Longrightarrow> complete_from Csi (ps @ [f])"
  by (induction ps) (auto simp: complete_from.simps(2) csi_param_def word_le_nat_alt word_less_nat_alt)

lemma complete_palette: "list_all palette_char r \<Longrightarrow> complete_from Osc (r @ [7])"
  by (induction r) (auto simp: complete_from.simps(2) palette_char_def word_le_nat_alt word_less_nat_alt)

lemma adapter_token_passes: "adapter_token t \<Longrightarrow> token_ok t \<and> within_limits t"
proof -
  assume "adapter_token t"
  then consider "glyph_token t" | "csi_token t" | "palette_token t" | "short_token t" by (auto simp: adapter_token_def)
  then show ?thesis
  proof cases
    case 1
    then show ?thesis using encode_char_plain by (auto simp: glyph_token_def token_ok_def within_limits_def)
  next
    case 2
    then show ?thesis
      by (auto simp: csi_token_def token_ok_def within_limits_def safe_sequence_def complete_from.simps(2) unsafe_osc_def
          complete_csi)
  next
    case 3
    then obtain r where r: "t = 0x1b # 0x5d # r @ [7]" "list_all palette_char r" "length r \<le> 100"
      "prefix [0x34, 0x3b] r \<or> prefix [0x31] r"
      by (auto simp: palette_token_def palette_char_def [abs_def])
    have "\<not> unsafe_osc t" using r(1,4) by (auto simp: unsafe_osc_def prefix_def)
    then show ?thesis using r complete_palette [OF r(2)]
      by (simp add: token_ok_def within_limits_def safe_sequence_def complete_from.simps(2) is_csi_def)
  next
    case 4
    have "plain_text [13, 10]" using plain_text_append [of "[13]" "[10]"] by simp
    then show ?thesis using 4
      by (auto simp: short_token_def token_ok_def within_limits_def safe_sequence_def complete_from.simps(2) unsafe_osc_def is_csi_def)
  qed
qed

section \<open>What the projection shows\<close>

lemma take_char_Some:
  "take_char s c = Some s1 \<Longrightarrow>
   snd s1 = snd s @ [c] \<and> fst s1 = fst s + length (encode_char c) \<and> fst s1 \<le> TEXT_LIMIT"
  by (auto simp: take_char_def Let_def split: if_splits)

definition utf8_bytes :: "chr list \<Rightarrow> nat" where
  "utf8_bytes cs = sum_list (map (\<lambda>c. length (encode_char c)) cs)"

text \<open>From \<open>s\<close> to \<open>s1\<close>, printable characters are appended and counted.\<close>

definition extends_text :: "nat \<times> chr list \<Rightarrow> nat \<times> chr list \<Rightarrow> bool" where
  "extends_text s s1 \<longleftrightarrow>
     (\<exists>cs. snd s1 = snd s @ cs \<and> fst s1 = fst s + utf8_bytes cs \<and> list_all (\<lambda>c. \<not> is_control c) cs) \<and>
     (fst s \<le> TEXT_LIMIT \<longrightarrow> fst s1 \<le> TEXT_LIMIT)"

lemma extends_refl [simp]: "extends_text s s"
  unfolding extends_text_def by (rule conjI, rule exI [of _ "[]"]) (simp_all add: utf8_bytes_def)

lemma extends_trans: "extends_text s t \<Longrightarrow> extends_text t u \<Longrightarrow> extends_text s u"
  unfolding extends_text_def
  by (elim conjE exE, rule conjI, rule_tac x = "cs @ csa" in exI) (simp_all add: utf8_bytes_def)

lemma extends_take_char: "take_char s c = Some s1 \<Longrightarrow> \<not> is_control c \<Longrightarrow> extends_text s s1"
  using take_char_Some [of s c s1] unfolding extends_text_def
  by (intro conjI exI [of _ "[c]"]) (simp_all add: utf8_bytes_def)

lemma extends_zerowidth: "take_zerowidth s zs = Some s1 \<Longrightarrow> extends_text s s1"
proof (induction zs arbitrary: s)
  case (Cons z zs)
  then show ?case
    by (cases "is_control z") (auto split: option.splits intro: extends_trans extends_take_char)
qed simp

lemma extends_spaces: "fst s + n \<le> TEXT_LIMIT \<Longrightarrow> extends_text s (fst s + n, snd s @ replicate n 0x20)"
  unfolding extends_text_def
  by (intro conjI exI [of _ "replicate n 0x20"])
    (auto simp: utf8_bytes_def encode_char_def is_control_def list_all_iff sum_list_replicate)

lemma extends_cell: "take_cell s c = Some s1 \<Longrightarrow> extends_text s s1"
proof (cases "is_spacer c"; cases "has_flag c HIDDEN")
  assume a: "take_cell s c = Some s1" "\<not> is_spacer c" "has_flag c HIDDEN"
  then show ?thesis
    using extends_spaces [of s 1] extends_spaces [of s 2]
    by (auto simp: take_cell_def Let_def numeral_2_eq_2 split: if_splits)
next
  assume a: "take_cell s c = Some s1" "\<not> is_spacer c" "\<not> has_flag c HIDDEN"
  define x where "x = (if is_control (ce_c c) then 0x20 else ce_c c)"
  have "\<not> is_control x" by (simp add: x_def is_control_def)
  from a obtain s2 where "take_char s x = Some s2" "take_zerowidth s2 (zw_chars c) = Some s1"
    unfolding take_cell_def x_def by (auto split: option.splits)
  then show ?thesis using extends_trans extends_take_char extends_zerowidth \<open>\<not> is_control x\<close> by blast
qed (simp_all add: take_cell_def)

lemma extends_cells: "take_cells s cs = Some s1 \<Longrightarrow> extends_text s s1"
  by (induction cs arbitrary: s) (auto split: option.splits intro: extends_trans extends_cell)

lemma trim_spaces_set: "set (trim_spaces l) \<subseteq> set l" "trim_spaces l = [] \<or> last (trim_spaces l) \<noteq> 0x20"
  using hd_dropWhile [of "\<lambda>c. c = 0x20" "rev l"] set_dropWhileD
  by (fastforce simp: trim_spaces_def last_rev)+

lemma utf8_bytes_trim: "utf8_bytes (trim_spaces l) \<le> utf8_bytes l"
proof -
  have "l = trim_spaces l @ rev (takeWhile (\<lambda>c. c = 0x20) (rev l))"
    unfolding trim_spaces_def by (metis rev_append rev_rev_ident takeWhile_dropWhile_id)
  then have "utf8_bytes l = utf8_bytes (trim_spaces l) + utf8_bytes (rev (takeWhile (\<lambda>c. c = 0x20) (rev l)))"
    by (metis utf8_bytes_def map_append sum_list_append)
  then show ?thesis by simp
qed

definition line_ok :: "chr list \<Rightarrow> bool" where
  "line_ok l \<longleftrightarrow> list_all (\<lambda>c. \<not> is_control c) l \<and> (l = [] \<or> last l \<noteq> 0x20)"

lemma take_rows_ok:
  "take_rows g rows n = Some ls \<Longrightarrow> n \<le> TEXT_LIMIT \<Longrightarrow>
   length ls = length rows \<and> list_all line_ok ls \<and> n + sum_list (map utf8_bytes ls) \<le> TEXT_LIMIT"
proof (induction rows arbitrary: n ls)
  case (Cons row rows)
  from Cons.prems(1) obtain n1 cs ls1 where t: "take_cells (n, []) (row_cells g row) = Some (n1, cs)"
    "take_rows g rows n1 = Some ls1" "ls = trim_spaces cs # ls1"
    by (auto split: option.splits)
  from extends_cells [OF t(1)] Cons.prems(2)
  have e: "n1 = n + utf8_bytes cs" "list_all (\<lambda>c. \<not> is_control c) cs" "n1 \<le> TEXT_LIMIT" by (auto simp: extends_text_def)
  have "line_ok (trim_spaces cs)" using trim_spaces_set [of cs] e(2) by (auto simp: line_ok_def list_all_iff)
  then show ?case using Cons.IH [OF t(2) e(3)] t(3) e(1) utf8_bytes_trim [of cs] by simp
qed simp

text \<open>Whatever a hidden cell holds, the projection does not depend on it.\<close>

definition conceal :: "cell \<Rightarrow> cell" where
  "conceal c = (if has_flag c HIDDEN then c\<lparr>ce_c := 0x20, ce_zerowidth := None\<rparr> else c)"

lemma conceal_flags [simp]: "has_flag (c\<lparr>ce_c := x, ce_zerowidth := z\<rparr>) f = has_flag c f"
  by (simp add: has_flag_def)

lemma take_cell_conceal: "take_cell s (conceal c) = take_cell s c"
  by (auto simp: take_cell_def conceal_def is_spacer_def)

lemma take_cells_conceal: "take_cells s (map conceal cs) = take_cells s cs"
  by (induction cs arbitrary: s) (auto simp: take_cell_conceal split: option.split)

lemma take_rows_conceal:
  assumes "gr_columns g = gr_columns h" "\<And>row col. conceal (gr_cell g row col) = conceal (gr_cell h row col)"
  shows "take_rows g rows n = take_rows h rows n"
proof (induction rows arbitrary: n)
  case (Cons row rows)
  have "map conceal (row_cells g row) = map conceal (row_cells h row)" using assms by (simp add: row_cells_def)
  then have "take_cells s (row_cells g row) = take_cells s (row_cells h row)" for s
    by (metis take_cells_conceal)
  then show ?case using Cons.IH by (simp split: option.split)
qed simp

theorem projection_is_bounded:
  assumes "readable_projection t = TerminalProjection ls"
  shows "length ls \<le> 150 \<and> list_all line_ok ls \<and> sum_list (map utf8_bytes ls) \<le> TEXT_LIMIT \<and> AltScreen \<notin> em_modes t"
proof -
  from assms have "take_rows (em_grid t) (map int [0..<gr_lines (em_grid t)]) 0 = Some ls"
    "gr_lines (em_grid t) \<le> 150" "AltScreen \<notin> em_modes t"
    by (auto simp: readable_projection_def split: if_splits option.splits)
  then show ?thesis using take_rows_ok [of "em_grid t"] by fastforce
qed

section \<open>Complete snapshots\<close>

text \<open>The painting without the stop at 4 MiB.\<close>

fun paint_all_rows :: "grid \<Rightarrow> int list \<Rightarrow> bytes \<times> bytes \<Rightarrow> bytes" where
  "paint_all_rows g [] s = fst s"
| "paint_all_rows g (row # rows) s =
     (case foldl paint_cell s (row_cells g row) of (out, prev) \<Rightarrow>
        paint_all_rows g rows
          (if rows \<noteq> [] \<and> \<not> has_flag (gr_cell g row (gr_columns g - 1)) WRAPLINE then out @ [13, 10] else out, prev))"

definition paint_whole :: "grid \<Rightarrow> bytes \<Rightarrow> bytes" where
  "paint_whole g out =
     paint_all_rows g (painted_rows g)
       (out @ esc ''[H'' @ esc ''[2J'' @ esc ''[?7h'' @ esc ''[?6l'' @ esc ''[r'', [])"

definition whole_snapshot :: "emulator_state \<Rightarrow> bytes" where
  "whole_snapshot t =
     (let s0 = esc ''c'' @ esc ''[?25l'' @ esc ''[?7h'' @ esc ''[?6l'' @ esc ''[0m'';
          s1 = (if AltScreen \<in> em_modes t
                then paint_whole (em_inactive t) s0 @ restore_cursor (em_inactive t) @ esc ''[?1049h'' else s0)
      in paint_whole (em_grid t) (s1 @ ascii_charsets) @ snapshot_modes t @ restore_cursor (em_grid t) @
         (if OriginMode \<in> em_modes t
          then esc ''[?6h'' @ restore_one (em_grid t) (gr_cursor (em_grid t)) (fst (em_region t)) else []) @
         concat (map (palette_entry t) [0..<259]))"

lemma paint_cell_grows: "length (fst s) \<le> length (fst (paint_cell s c))"
  by (auto simp: paint_cell_def Let_def split: prod.split)

lemma paint_cells_grow: "length (fst s) \<le> length (fst (foldl paint_cell s cs))"
proof (induction cs arbitrary: s)
  case (Cons c cs)
  show ?case using le_trans [OF paint_cell_grows Cons.IH] by simp
qed simp

lemma paint_rows_grow: "length (fst s) \<le> length (paint_rows g rows s)"
proof (induction rows arbitrary: s)
  case (Cons row rows)
  obtain out prev where f: "foldl paint_cell s (row_cells g row) = (out, prev)" by fastforce
  then have "length (fst s) \<le> length out" using paint_cells_grow [of s "row_cells g row"] by simp
  then show ?case using f Cons.IH [of "(out, prev)"] Cons.IH [of "(out @ [13, 10], prev)"] by (simp add: Let_def)
qed simp

lemma paint_rows_whole:
  "length (paint_rows g rows s) \<le> 4 * 1024 * 1024 \<Longrightarrow> paint_rows g rows s = paint_all_rows g rows s"
proof (induction rows arbitrary: s)
  case (Cons row rows)
  obtain out prev where f: "foldl paint_cell s (row_cells g row) = (out, prev)" by fastforce
  define out1 where "out1 = (if rows \<noteq> [] \<and> \<not> has_flag (gr_cell g row (gr_columns g - 1)) WRAPLINE then out @ [13, 10] else out)"
  have p: "paint_rows g (row # rows) s = (if length out1 > 4 * 1024 * 1024 then out1 else paint_rows g rows (out1, prev))"
    by (simp add: f out1_def Let_def)
  have "\<not> length out1 > 4 * 1024 * 1024" using Cons.prems unfolding p by (auto split: if_splits)
  then have q: "paint_rows g (row # rows) s = paint_rows g rows (out1, prev)" by (simp only: p if_False)
  then have "paint_rows g rows (out1, prev) = paint_all_rows g rows (out1, prev)" using Cons by simp
  then show ?case unfolding q by (simp add: f out1_def)
qed simp

lemma paint_grid_grows: "length out \<le> length (paint_grid g out)"
  unfolding paint_grid_def by (rule le_trans [OF _ paint_rows_grow]) simp

lemma paint_grid_whole: "length (paint_grid g out) \<le> 4 * 1024 * 1024 \<Longrightarrow> paint_grid g out = paint_whole g out"
  unfolding paint_grid_def paint_whole_def by (rule paint_rows_whole)

section \<open>Properties\<close>

text \<open>C38. A snapshot is safe for a terminal. Whatever the cells hold, control characters included, the snapshot is a
  sequence of printable characters, line ends, charset shifts and the escape sequences of the adapter itself (resets,
  CSI sequences, charset designations and palette entries); in particular it passes the VT fence unchanged.\<close>

theorem snapshot_passes_the_fence:
  assumes "emulator_wf t"
  shows "(\<exists>ts. snapshot t = concat ts \<and> list_all adapter_token ts) \<and>
    fst (push_bytes default_fence (snapshot t)) = default_fence \<and>
    concat (snd (push_bytes default_fence (snapshot t))) = snapshot t"
proof -
  from clean_snapshot [OF assms] obtain ts where ts: "snapshot t = concat ts" "list_all adapter_token ts"
    by (auto simp: clean_def)
  then have "passes default_fence (snapshot t)"
    by (auto simp: list_all_iff adapter_token_passes idle_def default_fence_def intro!: passes_tokens)
  then show ?thesis using ts by (auto simp: passes_def)
qed

text \<open>A terminal with one cell, which holds an ESC, or hides a character.\<close>

definition one_cell :: "chr \<Rightarrow> u16 \<Rightarrow> cell" where
  "one_cell c flags =
     \<lparr>ce_c = c, ce_fg = Named 256, ce_bg = Named 257, ce_flags = flags, ce_zerowidth = Some [c], ce_underline = None\<rparr>"

definition one_cursor :: cursor where
  "one_cursor =
     \<lparr>cu_line = 0, cu_column = 0, cu_template = one_cell 0x20 0, cu_charsets = (\<lambda>_. Ascii), cu_active = G0, cu_needs_wrap = False\<rparr>"

definition one_grid :: "cell \<Rightarrow> grid" where
  "one_grid c =
     \<lparr>gr_lines = 1, gr_columns = 1, gr_history = 0, gr_cell = (\<lambda>_ _. c), gr_cursor = one_cursor, gr_saved = one_cursor\<rparr>"

definition one_terminal :: "cell \<Rightarrow> emulator_state" where
  "one_terminal c =
     \<lparr>em_modes = {ShowCursor}, em_grid = one_grid c, em_inactive = one_grid c, em_tabs = [0], em_region = (0, 1),
      em_shape = BlockShape, em_blinking = False, em_colors = (\<lambda>i. if i = 257 then Some (0x0f, 0x14, 0x1c) else None)\<rparr>"

lemma one_terminal_wf: "emulator_wf (one_terminal (one_cell 0x1b 0))"
  by (simp add: emulator_wf_def one_terminal_def grid_wf_def one_grid_def cell_wf_def one_cell_def is_scalar_def zw_chars_def)

theorem snapshot_passes_the_fence_witness:
  "fst (push_bytes default_fence (snapshot (one_terminal (one_cell 0x1b 0)))) = default_fence \<and>
   concat (snd (push_bytes default_fence (snapshot (one_terminal (one_cell 0x1b 0))))) = snapshot (one_terminal (one_cell 0x1b 0))"
  by (rule conjunct2 [OF snapshot_passes_the_fence [OF one_terminal_wf]])

text \<open>C39. A truncated snapshot is never taken for a complete one: a snapshot that the session accepts, of at most 4 MiB,
  paints every row of the grid and of the inactive grid.\<close>

theorem accepted_snapshot_is_complete:
  assumes "length (snapshot t) \<le> 4 * 1024 * 1024"
  shows "snapshot t = whole_snapshot t"
proof (cases "AltScreen \<in> em_modes t")
  case True
  define s0 where "s0 = esc ''c'' @ esc ''[?25l'' @ esc ''[?7h'' @ esc ''[?6l'' @ esc ''[0m''"
  define s1 where "s1 = paint_grid (em_inactive t) s0 @ restore_cursor (em_inactive t) @ esc ''[?1049h''"
  have l: "length (paint_grid (em_grid t) (s1 @ ascii_charsets)) \<le> 4 * 1024 * 1024"
    using assms True by (simp add: snapshot_def Let_def s1_def s0_def)
  then have "length (s1 @ ascii_charsets) \<le> 4 * 1024 * 1024" using paint_grid_grows le_trans by blast
  then have g: "length (paint_grid (em_inactive t) s0) \<le> 4 * 1024 * 1024" by (simp add: s1_def)
  have s1: "s1 = paint_whole (em_inactive t) s0 @ restore_cursor (em_inactive t) @ esc ''[?1049h''"
    unfolding s1_def paint_grid_whole [OF g] ..
  show ?thesis unfolding snapshot_def whole_snapshot_def Let_def s0_def [symmetric] using paint_grid_whole [OF l] True
    by (simp only: if_True s1_def [symmetric] s1 [symmetric])
next
  case False
  then have "length (paint_grid (em_grid t) ((esc ''c'' @ esc ''[?25l'' @ esc ''[?7h'' @ esc ''[?6l'' @ esc ''[0m'') @ ascii_charsets)) \<le> 4 * 1024 * 1024"
    using assms by (simp add: snapshot_def Let_def)
  from paint_grid_whole [OF this] False show ?thesis by (simp add: snapshot_def whole_snapshot_def Let_def)
qed

lemma one_grid_paint:
  "paint_grid (one_grid c) out =
     fst (paint_cell (out @ esc ''[H'' @ esc ''[2J'' @ esc ''[?7h'' @ esc ''[?6l'' @ esc ''[r'', []) c)"
  by (simp add: paint_grid_def painted_rows_def row_cells_def one_grid_def Let_def split: prod.split)

theorem accepted_snapshot_is_complete_witness:
  "snapshot (one_terminal (one_cell 0x41 0)) = whole_snapshot (one_terminal (one_cell 0x41 0))"
proof (rule accepted_snapshot_is_complete)
  let ?c = "one_cell 0x41 0"
  have g: "em_grid (one_terminal ?c) = one_grid ?c" "AltScreen \<notin> em_modes (one_terminal ?c)" by (simp_all add: one_terminal_def)
  have "length (fst (paint_cell (((esc ''c'' @ esc ''[?25l'' @ esc ''[?7h'' @ esc ''[?6l'' @ esc ''[0m'') @ ascii_charsets) @
      esc ''[H'' @ esc ''[2J'' @ esc ''[?7h'' @ esc ''[?6l'' @ esc ''[r'', []) ?c) @
      snapshot_modes (one_terminal ?c) @ restore_cursor (one_grid ?c) @ [] @ concat (map (palette_entry (one_terminal ?c)) [0..<259])) \<le> 1000"
    by code_simp
  then show "length (snapshot (one_terminal ?c)) \<le> 4 * 1024 * 1024"
    using g by (simp add: snapshot_def Let_def one_grid_paint one_terminal_def)
qed

text \<open>C40. Concealed text stays concealed: two screens of the same size and modes that differ only in what their hidden
  cells hold have the same readable projection.\<close>

theorem hidden_text_is_never_projected:
  assumes "em_modes t = em_modes u" "gr_lines (em_grid t) = gr_lines (em_grid u)" "gr_columns (em_grid t) = gr_columns (em_grid u)"
    "\<And>row col. conceal (gr_cell (em_grid t) row col) = conceal (gr_cell (em_grid u) row col)"
  shows "readable_projection t = readable_projection u"
  using assms(1-3) take_rows_conceal [OF assms(3,4)] by (simp add: readable_projection_def)

theorem hidden_text_is_never_projected_witness:
  "readable_projection (one_terminal (one_cell 0x41 HIDDEN)) = readable_projection (one_terminal (one_cell 0x42 HIDDEN))"
  by (rule hidden_text_is_never_projected)
    (simp_all add: one_terminal_def one_grid_def one_cell_def conceal_def has_flag_def)
end
