(* ===== verification/Spec2Isabelle.thy ===== *)
theory Spec2Isabelle
  imports Terminal_Stream Media_Demand Media_Stream Preview_Runs Perf_Trace Agent_Runs Http_Boundary Serve_Settings Terminal_Model
begin

text \<open>
  RemoteCodex, a Windows agent that lets paired devices of one owner use terminal sessions and a
  shared screen over a private network.

  \<^bold>\<open>The program and its parts.\<close> The agent (\<open>crates/rc-agent\<close>) keeps a table of terminal sessions. Each
  session has a reader thread, whose bytes go through a VT fence into an output log with a bounded
  replay ring, and a writer thread that serves a queue of admitted input. A device pairs with a ticket,
  proves its key by a signed challenge, receives an access token, and exchanges it for single-use
  WebSocket tickets. A control connection acquires a session's input lease, sends sequence-numbered
  input and receives truthful results; a terminal connection receives a snapshot and the log after it
  under flow control. A media channel shares a window or monitor; the helper process encodes it and
  a safety thread (\<open>crates/rc-platform-windows\<close>) injects the remote pointer and keyboard. The pure
  protocol and data structures are in \<open>crates/rc-core\<close>.

  \<^bold>\<open>Theories and source files.\<close>
  \<^item> \<open>Prelude\<close>: machine integers, results (\<open>error_code + 'a\<close>, from \<open>rc-core/src/error.rs\<close>), durations and
    instants in nanoseconds, hash maps as association lists with distinct keys (locale \<open>table\<close>).
  \<^item> \<open>Utf8\<close>, \<open>Rust_Strings\<close>, \<open>Float64\<close>: the parts of the Rust standard library the code relies on:
    \<open>from_utf8\<close>, string operations on bytes, and binary64 arithmetic with round-to-nearest-even.
  \<^item> \<open>Frame_Codec\<close> (\<open>rc-core/src/frame.rs\<close>), \<open>Event_Ring\<close> (\<open>ring.rs\<close>), \<open>Input_Lease\<close> (\<open>lease.rs\<close>),
    \<open>Input_Ledger\<close> (\<open>input.rs\<close>), \<open>Vt_Fence\<close> (\<open>vt_fence.rs\<close>), \<open>Protocol\<close> (\<open>protocol.rs\<close>), \<open>Geometry\<close>
    (\<open>geometry.rs\<close>), \<open>Media_Demand\<close> (\<open>media.rs\<close>), \<open>Media_Wire\<close> (\<open>media_wire.rs\<close>): one theory per core module,
    with a record for each struct and one definition per method.
  \<^item> \<open>Store\<close> (\<open>rc-agent/src/store.rs\<close>): the SQLite tables as relations, each statement an operation.
  \<^item> \<open>Auth\<close> (\<open>auth.rs\<close>): pairing, challenges, tokens, tickets, revocation, blocking.
  \<^item> \<open>Config\<close> (\<open>config.rs\<close> and the media section of \<open>media.rs\<close>): defaults, loading, validation, origins.
  \<^item> \<open>Session_Output\<close>, \<open>Session_Input\<close>, \<open>Session_Manager\<close> (\<open>session.rs\<close>): the output log and the reader; the
    queues, admission and the writer; the session table.
  \<^item> \<open>Terminal_Model\<close> (\<open>terminal.rs\<close>): the repainting snapshot and the readable projection of the emulator's state.
  \<^item> \<open>Terminal_Stream\<close> and \<open>Control_Channel\<close> (\<open>ws.rs\<close>): the two WebSocket channels over the session model.
  \<^item> \<open>Gui_Input\<close> and \<open>Gui_Session\<close> (\<open>rc-platform-windows/src/gui_input.rs\<close>, \<open>gui_session.rs\<close>): the injection
    backend and its safety thread.
  \<^item> \<open>Media_Manager\<close> and \<open>Media_Stream\<close> (\<open>rc-agent/src/media.rs\<close>): admission of the one media stream, and the
    stream's loop between the WebSocket, the helper process and the input session.
  \<^item> \<open>Preview\<close> and \<open>Preview_Runs\<close> (\<open>rc-agent/src/preview.rs\<close>): the table of previews, launch tokens and
    cookies, the header filters of the proxy, and runs of all its operations.
  \<^item> \<open>Http_Api\<close>, \<open>Http_Boundary\<close> and \<open>Agent_Runs\<close> (\<open>http.rs\<close>, \<open>local.rs\<close>): the state of the whole agent, one definition per
    handler and per local command, the middleware, and runs of remote calls, local commands and channels.
  \<^item> \<open>Perf_Histogram\<close> and \<open>Perf_Trace\<close> (\<open>perf_histogram.rs\<close>, \<open>perf.rs\<close>): the latency histogram, and the trace with
    its producers, writer and guard as interleaved threads.
  \<^item> \<open>Tailscale\<close> and \<open>Serve_Settings\<close> (\<open>apps/desktop/src-tauri/src/tailscale.rs\<close>, \<open>main.rs\<close>): the ownership of the
    HTTPS port published by Tailscale Serve, and the settings transactions of the desktop under crashes.

  \<^bold>\<open>Interfaces.\<close> \<open>table\<close> (lookup after insert, remove and retain) is interpreted on the hash maps.
  \<open>fencing_lease\<close> and its extension \<open>sequenced_input\<close> state what the input path needs of a lease and a
  ledger, so that admitted inputs are strictly ordered; they are interpreted on the lease and ledger of
  the code. \<open>auth_invariant\<close> states what the runs of the agent need of a predicate on the authentication
  state; it is interpreted for revoked devices and for bounded scopes. \<open>replay_source\<close> states what a viewer needs of a log; it is interpreted on the session log.

  \<^bold>\<open>What is shown.\<close> The codec, ring, lease and ledger keep their exact contracts. The fence does not
  depend on how the stream is cut, passes text and safe sequences, is bounded, and releases no clipboard
  or hyperlink sequence as a token. Revocation and blocking reach every principal, ticket, session and
  connection, and nothing else; tickets are single-use and tables bounded. Input is admitted in order,
  written at most once and only under a live lease; every turn of the writer ends. A viewer receives the
  published log without gap or repetition and catches up when it has credit. A snapshot carries no sequence but the
  adapter's own, and the readable projection does not depend on hidden cells. The configuration stays
  local, network filters are exact, pointer positions stay on the source in spite of rounding, and the
  GUI session injects only under a granted revision and releases every key it pressed. At most one media
  stream is live, a view-only stream never injects, and injected input is fenced by epoch and sequence.
  A request is forwarded to a local port only for the device that launched that preview, and carries no
  private header in either direction. A device revoked through the API is out of every component, remote
  calls never widen the scopes, and no route is reached around the host and origin checks. The footer of a performance trace accounts for every admitted record
  in every interleaving, and its quantiles bracket the order statistics. The desktop changes the published port only
  when it is unused or provably its own, and its journal keeps receipt and origin in agreement through crashes at any point.

  \<^bold>\<open>State, time and concurrency.\<close> Stateful code is explicit state passing; a lock's critical section is
  one operation. Threads and tasks that share state are interleaved as sequences of operations: a run is
  an inductive predicate or a list of steps, with a monotonic clock. A revocation between two steps of
  an operation is an explicit argument (an environment, or the record \<open>os\<close>).

  \<^bold>\<open>Bounds and fuel.\<close> Loops of the code are structural recursions or functions with a measure. The
  writer's turn has fuel, and \<open>writer_turn_completes\<close> shows that two calls are enough. Words keep their
  width; \<open>usize\<close> is \<open>nat\<close> where it counts elements in memory.

  \<^bold>\<open>Parameters.\<close> Digests, signatures and random secrets; the terminal emulator; the process spawner; the
  TOML, JSON and URL crates; the Tailscale command-line tool; what Windows answers. They are arguments of the definitions that use them.

  \<^bold>\<open>Not modelled.\<close> The vendored emulator, the web client, the matching of routes and named-pipe I/O, window and tray
  code, WebRTC and Media Foundation bindings, the Tauri shell: they are third-party code, another
  language, or calls of the operating system with no logic of their own. Of the desktop, the windows, the autostart entry
  and the start of the agent are left out. The revocation of the GUI flags
  is one step, although it stores two atomics.
\<close>

end
